(* ===== verification/Snap_Prelude.thy ===== *)
theory Snap_Prelude
  imports Main "HOL-Library.Word"
begin

text \<open>
  Shared vocabulary of the development: the fixed-width integers of the C code, the
  \<^verbatim>\<open>errno\<close> values its functions return, the arithmetic macros of
  \<^verbatim>\<open>src/snap_macros.h\<close>, and the word and list facts that several components use.
  C \<^verbatim>\<open>int\<close> values that are counters or return codes are \<^typ>\<open>int\<close>; every value
  whose width matters (addresses, lengths, ring indices) is a word of that width.
\<close>

unbundle bit_operations_syntax

named_theorems snap_simps \<open>rewrite rules shared by the component proofs\<close>

section \<open>Types and error codes\<close>

type_synonym u8 = "8 word"
type_synonym u16 = "16 word"
type_synonym u32 = "32 word"
type_synonym u64 = "64 word"

abbreviation (input) EAGAIN :: int where "EAGAIN \<equiv> 11"
abbreviation (input) ENOMEM :: int where "ENOMEM \<equiv> 12"
abbreviation (input) EBUSY :: int where "EBUSY \<equiv> 16"
abbreviation (input) EEXIST :: int where "EEXIST \<equiv> 17"
abbreviation (input) ENODEV :: int where "ENODEV \<equiv> 19"
abbreviation (input) EINVAL :: int where "EINVAL \<equiv> 22"
abbreviation (input) ERANGE :: int where "ERANGE \<equiv> 34"
abbreviation (input) ENOTSUP :: int where "ENOTSUP \<equiv> 95"

section \<open>Macros of snap_macros.h\<close>

definition SNAP_IS_POW2_OR_ZERO :: "'a::len word \<Rightarrow> bool" where
  "SNAP_IS_POW2_OR_ZERO n \<longleftrightarrow> n AND (n - 1) = 0"

definition SNAP_IS_POW2 :: "'a::len word \<Rightarrow> bool" where
  "SNAP_IS_POW2 n \<longleftrightarrow> n > 0 \<and> SNAP_IS_POW2_OR_ZERO n"

text \<open>
  The alignment macros take the type of \<^verbatim>\<open>val\<close>; every use in the modelled code has a
  64-bit \<^verbatim>\<open>val\<close> and a 32-bit \<^verbatim>\<open>align\<close>. In the floor macro the subtraction
  happens at the width of \<^verbatim>\<open>align\<close>, in the ceiling macro at the width of \<^verbatim>\<open>val\<close>.
\<close>

definition SNAP_ALIGN_FLOOR :: "u64 \<Rightarrow> u32 \<Rightarrow> u64" where
  "SNAP_ALIGN_FLOOR val align = val AND (NOT (ucast (align - 1)))"

definition SNAP_ALIGN_CEIL :: "u64 \<Rightarrow> u32 \<Rightarrow> u64" where
  "SNAP_ALIGN_CEIL val align = SNAP_ALIGN_FLOOR (val + (ucast align - 1)) align"

section \<open>Powers of two and alignment\<close>

lemma nat_and_pred_pow2:
  fixes n :: nat
  assumes "0 < n" and "n AND (n - 1) = 0"
  shows "\<exists>k. n = 2 ^ k"
  using assms
proof (induction n rule: less_induct)
  case (less n)
  show ?case
  proof (cases "even n")
    case True
    then obtain m where m: "n = 2 * m" by blast
    with less.prems have "0 < m" by simp
    then have pred: "(n - 1) div 2 = m - 1" and "odd (n - 1)" using m by auto
    have "n AND (n - 1) = 2 * (m AND (m - 1))"
      using m pred by (subst and_nat_rec) simp
    with less.prems have "m AND (m - 1) = 0" by simp
    with less.IH [of m] \<open>0 < m\<close> m obtain k where "m = 2 ^ k" by auto
    with m have "n = 2 ^ Suc k" by simp
    then show ?thesis by blast
  next
    case False
    then obtain m where m: "n = 2 * m + 1" using oddE by blast
    have "n AND (n - 1) = 2 * (m AND m)"
      using m by (subst and_nat_rec) simp
    with less.prems have "m = 0" by simp
    with m have "n = 2 ^ 0" by simp
    then show ?thesis by blast
  qed
qed

lemma unat_and: "unat (a AND b) = unat a AND unat b"
  for a b :: "'a::len word"
  by (simp add: unsigned_and_eq)

lemma SNAP_IS_POW2_iff:
  fixes n :: "'a::len word"
  shows "SNAP_IS_POW2 n \<longleftrightarrow> (\<exists>k < LENGTH('a). n = 2 ^ k)"
proof
  assume "SNAP_IS_POW2 n"
  then have pos: "0 < unat n" and z: "n AND (n - 1) = 0"
    by (auto simp: SNAP_IS_POW2_def SNAP_IS_POW2_OR_ZERO_def word_less_nat_alt)
  then have "unat (n - 1) = unat n - 1"
    by (intro unat_minus_one) auto
  with z have "unat n AND (unat n - 1) = 0"
    by (metis unat_and unat_0)
  with pos obtain k where k: "unat n = 2 ^ k"
    using nat_and_pred_pow2 by blast
  have "(2::nat) ^ k < 2 ^ LENGTH('a)"
    using k unsigned_less [of n, where 'a = nat] by simp
  then have "k < LENGTH('a)" by simp
  moreover have "n = 2 ^ k"
    using k by (metis of_nat_numeral of_nat_power of_nat_unat ucast_id)
  ultimately show "\<exists>k < LENGTH('a). n = 2 ^ k" by blast
next
  assume "\<exists>k < LENGTH('a). n = 2 ^ k"
  then obtain k where k: "k < LENGTH('a)" "n = 2 ^ k" by blast
  have "n AND (n - 1) = take_bit k n"
    using k by (simp add: take_bit_eq_mask mask_eq_exp_minus_1)
  also have "\<dots> = 0" using k by (simp add: take_bit_eq_0_iff)
  finally show "SNAP_IS_POW2 n"
    using k by (simp add: SNAP_IS_POW2_def SNAP_IS_POW2_OR_ZERO_def word_neq_0_conv [symmetric])
qed

lemma and_not_mask: "w AND NOT (mask k) = w - take_bit k w"
  for w :: "'a::len word"
proof -
  have "push_bit k (drop_bit k w) = w AND NOT (mask k)"
    by (rule bit_word_eqI) (auto simp: bit_simps)
  with bits_ident [of k w] show ?thesis
    by (metis add_diff_cancel_right')
qed

lemma unat_and_not_mask: "unat (w AND NOT (mask k)) = 2 ^ k * (unat w div 2 ^ k)"
  for w :: "'a::len word"
proof -
  have m: "unat (take_bit k w) = unat w mod 2 ^ k"
    by (simp add: unsigned_take_bit_eq) (simp add: take_bit_eq_mod)
  then have le: "take_bit k w \<le> w"
    by (simp add: word_le_nat_alt)
  have "unat (w AND NOT (mask k)) = unat w - unat (take_bit k w)"
    using le by (simp add: and_not_mask unat_sub)
  also have "\<dots> = 2 ^ k * (unat w div 2 ^ k)"
    by (simp add: m minus_mod_eq_mult_div)
  finally show ?thesis .
qed

lemma ucast_pow2_minus_1: "k < 32 \<Longrightarrow> (ucast (2 ^ k - 1 :: u32) :: u64) = mask k"
  unfolding mask_eq_exp_minus_1 [symmetric]
  by (rule bit_word_eqI) (auto simp: bit_simps)

lemma unat_pow2: "k < LENGTH('a) \<Longrightarrow> unat (2 ^ k :: 'a::len word) = 2 ^ k"
  using uint_2p [of k, where 'a = 'a]
  by (simp add: word_gt_0 unat_eq_nat_uint nat_power_eq)

lemma unat_ALIGN_FLOOR:
  "k < 32 \<Longrightarrow> unat (SNAP_ALIGN_FLOOR v (2 ^ k)) = 2 ^ k * (unat v div 2 ^ k)"
  by (simp add: SNAP_ALIGN_FLOOR_def ucast_pow2_minus_1 unat_and_not_mask)

text \<open>
  A page size is a 32-bit power of two greater than one: what every create function of the
  dirty-page code checks.
\<close>

definition page_size_ok :: "u32 \<Rightarrow> bool" where
  "page_size_ok ps \<longleftrightarrow> SNAP_IS_POW2 ps \<and> \<not> ps \<le> 1"

lemma page_size_okE:
  assumes "page_size_ok ps"
  obtains k where "ps = 2 ^ k" "0 < k" "k < 32" "unat ps = 2 ^ k"
proof -
  from assms obtain k where k: "k < 32" "ps = 2 ^ k"
    by (auto simp: page_size_ok_def SNAP_IS_POW2_iff)
  with assms have "0 < k"
    by (cases k) (auto simp: page_size_ok_def)
  with k that [of k] show ?thesis by (simp add: unat_pow2)
qed

lemma SNAP_ALIGN_FLOOR_nat:
  assumes "page_size_ok ps"
  shows "unat (SNAP_ALIGN_FLOOR v ps) = unat ps * (unat v div unat ps)"
  using assms by (auto elim!: page_size_okE simp: unat_ALIGN_FLOOR unat_pow2)

section \<open>Further word and list facts\<close>

lemma unat_ucast_u32_u64 [simp]: "unat (ucast (x :: u32) :: u64) = unat x"
proof -
  have "unat x < 2 ^ 32" using unsigned_less [of x, where 'a = nat] by simp
  then show ?thesis by (simp add: unsigned_ucast_eq take_bit_nat_eq_self)
qed

lemma unat_and_7: "unat (w AND 7) = unat w mod 8" for w :: u64
proof -
  have "w AND 7 = take_bit 3 w" by (simp add: take_bit_eq_mask mask_eq_exp_minus_1)
  then have "unat (w AND 7) = take_bit 3 (unat w)" by (simp add: unsigned_take_bit_eq)
  then show ?thesis by (simp add: take_bit_eq_mod)
qed

lemma sorted_wrt_take_drop:
  assumes "sorted_wrt P xs" and "p \<in> set (take n xs)" and "q \<in> set (drop n xs)"
  shows "P p q"
proof -
  have "sorted_wrt P (take n xs @ drop n xs)" using assms(1) by simp
  with assms(2,3) show ?thesis unfolding sorted_wrt_append by blast
qed

lemma ALIGN_CEIL_nat:
  assumes "page_size_ok ps" and "unat v + unat ps \<le> 2 ^ 64"
  shows "unat (SNAP_ALIGN_CEIL v ps) = unat ps * ((unat v + unat ps - 1) div unat ps)"
proof -
  have pos: "0 < unat ps" using assms(1) by (auto elim!: page_size_okE)
  then have "unat (ucast ps - 1 :: u64) = unat ps - 1"
    by (subst unat_minus_one) (auto simp: word_unat_eq_iff)
  then have "unat (v + (ucast ps - 1)) = unat v + unat ps - 1"
    using assms(2) pos by (simp add: unat_word_ariths(1))
  then show ?thesis
    using assms(1) by (simp add: SNAP_ALIGN_CEIL_def SNAP_ALIGN_FLOOR_nat)
qed

lemma unat_of_nat_small: "n < 2 ^ LENGTH('a) \<Longrightarrow> unat (of_nat n :: 'a::len word) = n"
  by (simp add: unat_of_nat)

lemma mod_window_inj:
  fixes C j k cnt :: nat
  assumes "j < cnt" and "k < cnt" and "(C + j) mod cnt = (C + k) mod cnt"
  shows "j = k"
proof -
  have *: "a = b" if "a \<le> b" "b < cnt" "(C + a) mod cnt = (C + b) mod cnt" for a b
  proof -
    have "cnt dvd (C + b) - (C + a)" using that mod_eq_dvd_iff_nat [of "C + a" "C + b" cnt] by simp
    then show ?thesis using that by (auto dest: dvd_imp_le)
  qed
  from * [of j k] * [of k j] assms show ?thesis by (cases "j \<le> k") auto
qed

lemma map_list_update_same: "f y = f (xs ! i) \<Longrightarrow> map f (xs[i := y]) = map f xs"
  by (intro nth_equalityI) (auto, metis nth_list_update_eq nth_list_update_neq)

end
