(* ===== verification/Dp_Map.thy ===== *)
theory Dp_Map
  imports Snap_Prelude
begin

text \<open>
  Dirty-page tracking for live migration, \<^verbatim>\<open>ctrl/snap_dp_map.c\<close>: the set of dirty
  pages kept by the controller (\<^verbatim>\<open>struct snap_dp_map\<close>) and the addressing of the
  bit or byte map that lives in host memory (\<^verbatim>\<open>struct snap_dp_bmap\<close>).

  The pages are kept in a vendored hash set (\<^verbatim>\<open>khash.h\<close>). The model keeps the set
  of keys; the order in which a scan from \<^verbatim>\<open>kh_begin\<close> to \<^verbatim>\<open>kh_end\<close> meets
  them is an argument of the operations that scan, and whether \<^verbatim>\<open>kh_put\<close> finds memory
  for a key is an argument of the operation that inserts. The spin lock makes each operation
  atomic.
\<close>

section \<open>The page set\<close>

record snap_dp_map =
  dp_set :: "u64 set"
  dp_page_size :: u32

definition snap_dp_map_create :: "bool \<Rightarrow> u32 \<Rightarrow> snap_dp_map option" where
  "snap_dp_map_create calloc_ok page_size =
     (if \<not> SNAP_IS_POW2 page_size \<or> page_size \<le> 1 then None
      else if \<not> calloc_ok then None
      else Some \<lparr>dp_set = {}, dp_page_size = page_size\<rparr>)"

text \<open>
  The insertion loop advances \<^verbatim>\<open>page\<close> modulo \<open>2 ^ 64\<close>, so it need not end:
  \<^term>\<open>None\<close> is a run that does not return.
\<close>

partial_function (option) add_range_loop ::
  "(u64 set \<Rightarrow> u64 \<Rightarrow> bool) \<Rightarrow> u64 \<Rightarrow> u64 \<Rightarrow> u64 \<Rightarrow> u64 set \<Rightarrow> (int \<times> u64 set) option"
where
  "add_range_loop put_ok ps end_pa page s =
     (if page < end_pa
      then if put_ok s page then add_range_loop put_ok ps end_pa (page + ps) (insert page s)
           else Some (- 1, s)
      else Some (0, s))"

definition snap_dp_map_add_range ::
  "(u64 set \<Rightarrow> u64 \<Rightarrow> bool) \<Rightarrow> snap_dp_map \<Rightarrow> u64 \<Rightarrow> u32 \<Rightarrow> (int \<times> snap_dp_map) option"
where
  "snap_dp_map_add_range put_ok m pa len =
     (let ps = ucast (dp_page_size m) :: u64 in
      map_option (\<lambda>(ret, s). (ret, m\<lparr>dp_set := s\<rparr>))
        (add_range_loop put_ok ps (pa + ucast len) (pa AND NOT (ps - 1)) (dp_set m)))"

definition compare :: "u64 \<Rightarrow> u64 \<Rightarrow> int" where
  "compare a b = (if a = b then 0 else if a < b then - 1 else 1)"

text \<open>The C library's \<^verbatim>\<open>qsort\<close> for a comparison function: an insertion sort.\<close>

fun qsort_insert :: "('a \<Rightarrow> 'a \<Rightarrow> int) \<Rightarrow> 'a \<Rightarrow> 'a list \<Rightarrow> 'a list" where
  "qsort_insert cmp x [] = [x]"
| "qsort_insert cmp x (y # ys) = (if cmp x y \<le> 0 then x # y # ys else y # qsort_insert cmp x ys)"

fun qsort :: "('a \<Rightarrow> 'a \<Rightarrow> int) \<Rightarrow> 'a list \<Rightarrow> 'a list" where
  "qsort cmp [] = []"
| "qsort cmp (x # xs) = qsort_insert cmp x (qsort cmp xs)"

text \<open>
  The scan with its in-range test. \<open>kh\<close> is the bucket order of the scan;
  \<^verbatim>\<open>page >= pa + length || page < pa\<close> skips a key.
\<close>

fun collect_range :: "u64 set \<Rightarrow> u64 \<Rightarrow> u64 \<Rightarrow> u64 list \<Rightarrow> u64 list" where
  "collect_range s pa end_pa [] = []"
| "collect_range s pa end_pa (page # kh) =
     (if page \<notin> s then collect_range s pa end_pa kh
      else if page \<ge> end_pa \<or> page < pa then collect_range s pa end_pa kh
      else page # collect_range s pa end_pa kh)"

fun delete_pages :: "nat \<Rightarrow> u64 list \<Rightarrow> u64 set \<Rightarrow> nat \<times> u64 set" where
  "delete_pages j [] s = (j, s)"
| "delete_pages j (p # ps) s = delete_pages (Suc j) ps (s - {p})"

text \<open>
  The result is the return value, the part of \<^verbatim>\<open>buf\<close> that was written, and the map.
  When the pages fit, they are collected and sorted in \<^verbatim>\<open>buf\<close> itself; otherwise in a
  temporary buffer of which the first \<open>j\<close> elements are copied.
\<close>

definition snap_dp_map_serialize_sort ::
  "bool \<Rightarrow> u64 list \<Rightarrow> snap_dp_map \<Rightarrow> u64 \<Rightarrow> u64 \<Rightarrow> u32 \<Rightarrow> int \<times> u64 list \<times> snap_dp_map"
where
  "snap_dp_map_serialize_sort calloc_ok kh m pa len buf_len =
     (let found = collect_range (dp_set m) pa (pa + len) kh;
          i = length found;
          use_tmp = (i * 8 > unat buf_len)
      in if use_tmp \<and> \<not> calloc_ok then (- 1, [], m)
         else let tmp_buf_p = qsort compare found;
                  (j, s) = delete_pages 0 (take (unat buf_len div 8) tmp_buf_p) (dp_set m);
                  buf = (if use_tmp then take j tmp_buf_p else tmp_buf_p)
              in (int j, buf, m\<lparr>dp_set := s\<rparr>))"

definition snap_dp_map_get_size :: "snap_dp_map \<Rightarrow> nat" where
  "snap_dp_map_get_size m = card (dp_set m) * 8"

fun serialize_loop :: "nat \<Rightarrow> nat \<Rightarrow> u64 list \<Rightarrow> u64 set \<Rightarrow> u64 list \<Rightarrow> u64 list \<times> u64 set" where
  "serialize_loop nelems i [] s buf = (buf, s)"
| "serialize_loop nelems i (page # kh) s buf =
     (if i < nelems
      then if page \<notin> s then serialize_loop nelems i kh s buf
           else serialize_loop nelems (Suc i) kh (s - {page}) (buf @ [page])
      else (buf, s))"

definition snap_dp_map_serialize ::
  "u64 list \<Rightarrow> snap_dp_map \<Rightarrow> u32 \<Rightarrow> int \<times> u64 list \<times> snap_dp_map"
where
  "snap_dp_map_serialize kh m len =
     (let (buf, s) = serialize_loop (unat len div 8) 0 kh (dp_set m) []
      in (int (length buf), buf, m\<lparr>dp_set := s\<rparr>))"

section \<open>The host-side bit or byte map\<close>

record snap_vq_adm_sge =
  sge_addr :: u64
  sge_len :: u32

record snap_dp_bmap =
  bm_sge_list :: "snap_vq_adm_sge list"
  bm_page_size :: u32
  bm_is_bytemap :: bool
  bm_start_pa :: u64
  bm_host_key :: u32

definition snap_dp_bmap_create ::
  "bool \<Rightarrow> bool \<Rightarrow> snap_vq_adm_sge list \<Rightarrow> u32 \<Rightarrow> bool \<Rightarrow> snap_dp_bmap option"
where
  "snap_dp_bmap_create calloc_ok malloc_ok sge_list page_size is_bytemap =
     (if \<not> SNAP_IS_POW2 page_size \<or> page_size \<le> 1 then None
      else if \<not> calloc_ok then None
      else if \<not> malloc_ok then None
      else Some \<lparr>bm_sge_list = sge_list, bm_page_size = page_size,
                 bm_is_bytemap = is_bytemap, bm_start_pa = 0, bm_host_key = 0\<rparr>)"

definition snap_dp_bmap_set_mkey :: "snap_dp_bmap \<Rightarrow> u32 \<Rightarrow> snap_dp_bmap" where
  "snap_dp_bmap_set_mkey m mkey = m\<lparr>bm_host_key := mkey\<rparr>"

definition snap_dp_bmap_get_mkey :: "snap_dp_bmap \<Rightarrow> u32" where
  "snap_dp_bmap_get_mkey m = bm_host_key m"

definition snap_dp_bmap_range_size :: "snap_dp_bmap \<Rightarrow> u64 \<Rightarrow> u32 \<Rightarrow> u32" where
  "snap_dp_bmap_range_size m pa len =
     (let start_page = SNAP_ALIGN_FLOOR pa (bm_page_size m);
          end_page = SNAP_ALIGN_CEIL (pa + ucast len) (bm_page_size m);
          range_size = ucast ((end_page - start_page) div ucast (bm_page_size m)) :: u32
      in if bm_is_bytemap m then range_size else (8 + range_size - 1) div 8)"

text \<open>Both branches of the conditional are 32-bit, so \<^verbatim>\<open>8 * size\<close> wraps before it is widened.\<close>

definition snap_dp_bmap_size_to_len :: "snap_dp_bmap \<Rightarrow> u32 \<Rightarrow> u64" where
  "snap_dp_bmap_size_to_len m sz = ucast (if bm_is_bytemap m then sz else 8 * sz)"

fun find_sge :: "snap_dp_bmap \<Rightarrow> u64 \<Rightarrow> u64 \<Rightarrow> snap_vq_adm_sge list \<Rightarrow>
  (snap_vq_adm_sge \<times> u64 \<times> u64) option"
where
  "find_sge m start_page range_pa [] = None"
| "find_sge m start_page range_pa (sge # sges) =
     (let range_len = ucast (bm_page_size m) * snap_dp_bmap_size_to_len m (sge_len sge)
      in if start_page \<ge> range_pa \<and> start_page < range_pa + range_len
         then Some (sge, range_pa, range_len)
         else find_sge m start_page (range_pa + range_len) sges)"

text \<open>
  \<^term>\<open>None\<close> is the return value 0 with the output arguments untouched; \<^term>\<open>Some\<close>
  holds the return value and the three outputs \<^verbatim>\<open>start_pa\<close>, \<^verbatim>\<open>byte_offset\<close>
  and \<^verbatim>\<open>size\<close>.
\<close>

definition snap_dp_bmap_get_start_pa ::
  "snap_dp_bmap \<Rightarrow> u64 \<Rightarrow> u32 \<Rightarrow> (u32 \<times> u64 \<times> u64 \<times> u32) option"
where
  "snap_dp_bmap_get_start_pa m pa len =
     (let start_page = SNAP_ALIGN_FLOOR pa (bm_page_size m);
          ps = ucast (bm_page_size m) :: u64
      in case find_sge m start_page (bm_start_pa m) (bm_sge_list m) of
           None \<Rightarrow> None
         | Some (sge, range_pa, range_len) \<Rightarrow>
             let (sz, ret_len) =
                   (if pa + ucast len < range_pa + range_len
                    then (snap_dp_bmap_range_size m pa len, ucast len :: u64)
                    else (snap_dp_bmap_range_size m pa (ucast (range_len - pa)), range_len));
                 (start_pa, byte_offset) =
                   (if bm_is_bytemap m
                    then (sge_addr sge + (start_page - range_pa) div ps, 0)
                    else (sge_addr sge + (start_page - range_pa) div ps div 8,
                          ((start_page - range_pa) div ps) AND 7))
             in Some (ucast ret_len, start_pa, byte_offset, sz))"

section \<open>Pages of a range and the insertion loop\<close>

definition arith_pages :: "u64 \<Rightarrow> u64 \<Rightarrow> nat \<Rightarrow> u64 set" where
  "arith_pages ps page e = {q. \<exists>i. unat q = unat page + i * unat ps \<and> unat q < e}"

lemma arith_pages_step:
  assumes "unat page < e" and "e + unat ps \<le> 2 ^ 64"
  shows "arith_pages ps page e = insert page (arith_pages ps (page + ps) e)"
proof -
  have s: "unat (page + ps) = unat page + unat ps"
    using assms by (simp add: unat_word_ariths(1))
  show ?thesis
  proof (intro set_eqI iffI)
    fix q assume "q \<in> arith_pages ps page e"
    then obtain i where i: "unat q = unat page + i * unat ps" "unat q < e"
      by (auto simp: arith_pages_def)
    then show "q \<in> insert page (arith_pages ps (page + ps) e)"
      using s by (cases i) (auto simp: arith_pages_def word_unat_eq_iff intro: exI [of _ "i - 1"])
  next
    fix q assume "q \<in> insert page (arith_pages ps (page + ps) e)"
    then show "q \<in> arith_pages ps page e"
    proof
      assume "q = page"
      then show ?thesis using assms by (auto simp: arith_pages_def intro: exI [of _ 0])
    next
      assume "q \<in> arith_pages ps (page + ps) e"
      then obtain i where "unat q = unat page + unat ps + i * unat ps" "unat q < e"
        using s by (auto simp: arith_pages_def)
      then show ?thesis by (auto simp: arith_pages_def intro: exI [of _ "Suc i"])
    qed
  qed
qed

lemma arith_pages_empty [simp]: "e \<le> unat page \<Longrightarrow> arith_pages ps page e = {}"
  by (auto simp: arith_pages_def)

lemma add_range_loop_ok:
  assumes "0 < unat ps" and "unat end_pa + unat ps \<le> 2 ^ 64"
  shows "(add_range_loop put_ok ps end_pa page s = Some (0, s \<union> arith_pages ps page (unat end_pa))) \<or>
    (\<exists>f s'. add_range_loop put_ok ps end_pa page s = Some (- 1, s') \<and> f \<in> arith_pages ps page (unat end_pa) \<and>
           \<not> put_ok s' f \<and> s' = s \<union> arith_pages ps page (unat f))"
proof (induction "unat end_pa - unat page" arbitrary: page s rule: less_induct)
  case less
  show ?case
  proof (cases "page < end_pa")
    case False
    then show ?thesis
      by (subst add_range_loop.simps) (simp add: word_less_nat_alt)
  next
    case True
    then have lt: "unat page < unat end_pa" by (simp add: word_less_nat_alt)
    have s: "unat (page + ps) = unat page + unat ps"
      using assms lt by (simp add: unat_word_ariths(1))
    note step = arith_pages_step [OF lt assms(2)]
    show ?thesis
    proof (cases "put_ok s page")
      case False
      with True step show ?thesis
        by (subst (2) add_range_loop.simps) auto
    next
      case True
      have eq: "add_range_loop put_ok ps end_pa page s = add_range_loop put_ok ps end_pa (page + ps) (insert page s)"
        using True \<open>page < end_pa\<close> by (subst add_range_loop.simps) simp
      have "unat end_pa - unat (page + ps) < unat end_pa - unat page" using s lt assms by simp
      from less.hyps [OF this, of "insert page s"] show ?thesis
      proof (elim disjE exE conjE)
        fix f s'
        assume a: "add_range_loop put_ok ps end_pa (page + ps) (insert page s) = Some (- 1, s')"
          "f \<in> arith_pages ps (page + ps) (unat end_pa)" "\<not> put_ok s' f"
          "s' = insert page s \<union> arith_pages ps (page + ps) (unat f)"
        then have "unat page < unat f" "unat f + unat ps \<le> 2 ^ 64"
          using s assms by (auto simp: arith_pages_def)
        from arith_pages_step [OF this] a step eq show ?thesis by auto
      qed (simp add: eq step)
    qed
  qed
qed

text \<open>The page counter that wraps never reaches the end: only an insertion that fails leaves the loop.\<close>

lemma add_range_loop_never:
  assumes "add_range_loop put_ok ps end_pa page s = Some r"
  shows "unat ps dvd unat page \<longrightarrow> unat ps dvd 2 ^ 64 \<longrightarrow> 2 ^ 64 < unat end_pa + unat ps \<longrightarrow>
     fst r = - 1 \<and> (\<exists>f. \<not> put_ok (snd r) f)"
proof (rule add_range_loop.raw_induct [OF _ assms])
  fix rec put_ok and ps end_pa page :: u64 and s r
  assume IH: "\<And>put_ok ps end_pa page s r. rec put_ok ps end_pa page s = Some r \<Longrightarrow>
      unat ps dvd unat page \<longrightarrow> unat ps dvd 2 ^ 64 \<longrightarrow> 2 ^ 64 < unat end_pa + unat ps \<longrightarrow>
      fst r = - 1 \<and> (\<exists>f. \<not> put_ok (snd r) f)"
    and eq: "(if page < end_pa then if put_ok s page then rec put_ok ps end_pa (page + ps) (insert page s)
       else Some (- 1, s) else Some (0, s)) = Some r"
  show "unat ps dvd unat page \<longrightarrow> unat ps dvd 2 ^ 64 \<longrightarrow> 2 ^ 64 < unat end_pa + unat ps \<longrightarrow>
     fst r = - 1 \<and> (\<exists>f. \<not> put_ok (snd r) f)"
  proof (intro impI)
    assume d: "unat ps dvd unat page" "unat ps dvd 2 ^ 64" and e: "2 ^ 64 < unat end_pa + unat ps"
    obtain c where c: "(2::nat) ^ 64 = unat ps * c" using d by blast
    obtain j where j: "unat page = unat ps * j" using d by blast
    have "unat page < 2 ^ 64" using unsigned_less [of page, where 'a = nat] by simp
    then have "j + 1 \<le> c" using c j by (metis Suc_eq_plus1 Suc_leI mult_less_cancel1)
    then have "unat ps * (j + 1) \<le> 2 ^ 64" unfolding c by (rule mult_le_mono2)
    then have lt: "page < end_pa" using e j by (simp add: word_less_nat_alt)
    have "unat (page + ps) = (unat page + unat ps) mod 2 ^ 64"
      by (simp add: unat_word_ariths(1))
    then have n: "unat ps dvd unat (page + ps)" using d by (simp add: dvd_mod)
    show "fst r = - 1 \<and> (\<exists>f. \<not> put_ok (snd r) f)"
    proof (cases "put_ok s page")
      case True
      then have "rec put_ok ps end_pa (page + ps) (insert page s) = Some r" using eq lt by simp
      from IH [OF this] n d e show ?thesis by blast
    next
      case False
      then show ?thesis using eq lt by auto
    qed
  qed
qed

definition range_pages :: "u32 \<Rightarrow> u64 \<Rightarrow> u32 \<Rightarrow> u64 set" where
  "range_pages ps pa len =
     {q. unat ps dvd unat q \<and> unat q < unat pa + unat len \<and> unat pa < unat q + unat ps}"

lemma arith_pages_range:
  assumes "page_size_ok ps"
  shows "arith_pages (ucast ps) (pa AND NOT (ucast ps - 1)) (unat pa + unat len) = range_pages ps pa len"
proof -
  obtain k where k: "ps = 2 ^ k" "k < 32" "unat ps = 2 ^ k"
    using assms by (rule page_size_okE)
  have u: "unat (ucast ps :: u64) = 2 ^ k" using k by simp
  have fl: "unat (pa AND NOT (ucast ps - 1)) = 2 ^ k * (unat pa div 2 ^ k)"
  proof -
    have "(ucast ps :: u64) = 2 ^ k" using u k by (simp add: word_unat_eq_iff unat_pow2)
    then show ?thesis by (simp add: mask_eq_exp_minus_1 [symmetric] unat_and_not_mask)
  qed
  have "(\<exists>i. q = 2 ^ k * (x div 2 ^ k) + i * 2 ^ k) \<longleftrightarrow> 2 ^ k dvd q \<and> x < q + 2 ^ k" for q x :: nat
  proof
    assume "2 ^ k dvd q \<and> x < q + 2 ^ k"
    then obtain d where d: "q = 2 ^ k * d" "x < 2 ^ k * (d + 1)" by (auto simp: dvd_def)
    then have "x div 2 ^ k \<le> d" by (simp add: less_mult_imp_div_less mult.commute less_Suc_eq_le [symmetric])
    then have "q = 2 ^ k * (x div 2 ^ k) + (d - x div 2 ^ k) * 2 ^ k"
      using d by (metis add_mult_distrib2 le_add_diff_inverse mult.commute)
    then show "\<exists>i. q = 2 ^ k * (x div 2 ^ k) + i * 2 ^ k" by blast
  next
    assume "\<exists>i. q = 2 ^ k * (x div 2 ^ k) + i * 2 ^ k"
    moreover have "x < 2 ^ k * (x div 2 ^ k) + 2 ^ k"
      using dividend_less_times_div [of "2 ^ k" x] by simp
    ultimately show "2 ^ k dvd q \<and> x < q + 2 ^ k" by auto
  qed
  then show ?thesis
    by (simp add: arith_pages_def range_pages_def u fl k(3) set_eq_iff) blast
qed

section \<open>Draining the map\<close>

lemma collect_range_filter:
  "set kh \<subseteq> s \<Longrightarrow> collect_range s pa e kh = filter (\<lambda>q. pa \<le> q \<and> q < e) kh"
  by (induction kh) auto

lemma delete_pages_eq: "delete_pages j ps s = (j + length ps, s - set ps)"
  by (induction ps arbitrary: j s) auto

lemma qsort_insert_compare: "qsort_insert compare x ys = insort x ys"
  by (induction ys) (auto simp: compare_def)

lemma qsort_compare: "qsort compare xs = sort xs"
  by (induction xs) (auto simp: qsort_insert_compare)

lemma serialize_loop_eq:
  "set kh \<subseteq> s \<Longrightarrow> distinct kh \<Longrightarrow>
   serialize_loop n i kh s buf = (buf @ take (n - i) kh, s - set (take (n - i) kh))"
proof (induction kh arbitrary: i s buf)
  case (Cons p kh)
  then have "set kh \<subseteq> s - {p}" by auto
  moreover have "n - i = Suc (n - Suc i)" if "i < n" using that by simp
  ultimately show ?case using Cons by (cases "i < n") auto
qed simp

definition scan_order :: "u64 list \<Rightarrow> snap_dp_map \<Rightarrow> bool" where
  "scan_order kh m \<longleftrightarrow> distinct kh \<and> set kh = dp_set m"

definition dirty_in :: "snap_dp_map \<Rightarrow> u64 \<Rightarrow> u64 \<Rightarrow> u64 set" where
  "dirty_in m pa len = {q \<in> dp_set m. unat pa \<le> unat q \<and> unat q < unat pa + unat len}"

text \<open>C33. Draining a range in order: the buffer receives the smallest dirty pages
  of the range in strictly increasing order, as many as exist or fit; exactly these leave the
  map, and every dirty page of the range that stays is larger than every page returned.\<close>

theorem snap_dp_map_serialize_sort_smallest:
  assumes "scan_order kh m" and "calloc_ok" and nowrap: "unat pa + unat len < 2 ^ 64"
  shows "\<exists>buf m'. snap_dp_map_serialize_sort calloc_ok kh m pa len buf_len = (int (length buf), buf, m') \<and>
     sorted_wrt (<) buf \<and> set buf \<subseteq> dirty_in m pa len \<and> length buf = min (card (dirty_in m pa len)) (unat buf_len div 8) \<and>
     dp_set m' = dp_set m - set buf \<and> (\<forall>p \<in> set buf. \<forall>q \<in> dirty_in m pa len - set buf. p < q)"
proof -
  let ?f = "filter (\<lambda>q. pa \<le> q \<and> q < pa + len) kh"
  have f: "collect_range (dp_set m) pa (pa + len) kh = ?f"
    using assms by (simp add: collect_range_filter scan_order_def)
  have "unat (pa + len) = unat pa + unat len" using nowrap by (simp add: unat_word_ariths(1))
  then have d: "set ?f = dirty_in m pa len" "distinct ?f" using assms
    by (auto simp: scan_order_def dirty_in_def word_le_nat_alt word_less_nat_alt)
  then have c: "length ?f = card (dirty_in m pa len)" by (metis distinct_card)
  let ?n = "unat buf_len div 8"
  let ?b = "take ?n (sort ?f)"
  have fits: "sort ?f = ?b" if "\<not> unat buf_len < length ?f * 8"
    using that by (simp add: less_eq_div_iff_mult_less_eq)
  have srt: "sorted_wrt (<) (sort ?f)" using d by (simp add: strict_sorted_iff)
  have "snap_dp_map_serialize_sort calloc_ok kh m pa len buf_len = (int (length ?b), ?b, m\<lparr>dp_set := dp_set m - set ?b\<rparr>)"
  proof -
    have ln: "length ?b = min ?n (length ?f)" by (simp add: min.commute)
    have "(if length ?f * 8 > unat buf_len then take (length ?b) (sort ?f) else sort ?f) = ?b"
      using fits by (simp add: take_take) 
    then show ?thesis
      unfolding snap_dp_map_serialize_sort_def f Let_def qsort_compare delete_pages_eq
      by (simp only: assms(2) prod.case not_True_eq_False simp_thms if_False add_0)
  qed
  moreover have "sorted_wrt (<) ?b" using srt by (rule sorted_wrt_take)
  moreover have "set ?b \<subseteq> dirty_in m pa len" using d set_take_subset [of ?n "sort ?f"] by simp
  moreover have "length ?b = min (card (dirty_in m pa len)) ?n" using c by (simp add: min.commute)
  moreover have "dp_set (m\<lparr>dp_set := dp_set m - set ?b\<rparr>) = dp_set m - set ?b" by simp
  moreover have "p < q" if "p \<in> set ?b" "q \<in> dirty_in m pa len - set ?b" for p q
  proof -
    have "q \<in> set (drop ?n (sort ?f))" using that d
      using set_append [of ?b "drop ?n (sort ?f)"] by (simp only: append_take_drop_id set_sort) blast
    with srt that show ?thesis by (blast intro: sorted_wrt_take_drop)
  qed
  ultimately show ?thesis
    by (intro exI [of _ ?b] exI [of _ "m\<lparr>dp_set := dp_set m - set ?b\<rparr>"]) (intro conjI ballI; (assumption | blast))
qed

text \<open>C34. Draining the map: the buffer receives the first pages of the scan, as many as
  exist or fit, the return value is their number, and exactly these pages leave the map.\<close>

theorem snap_dp_map_serialize_drains:
  assumes "scan_order kh m"
  shows "snap_dp_map_serialize kh m len =
    (let buf = take (unat len div 8) kh in (int (length buf), buf, m\<lparr>dp_set := dp_set m - set buf\<rparr>))"
  using assms by (simp add: snap_dp_map_serialize_def scan_order_def serialize_loop_eq Let_def)

text \<open>C31. Marking a range whose last page does not touch the top of the address space: the
  call returns; on success exactly the pages that overlap the range are added; when the table
  cannot grow at some page it returns \<open>-1\<close> and exactly the pages below that one are added.\<close>

theorem snap_dp_map_add_range_marks:
  assumes "page_size_ok (dp_page_size m)"
    and "unat pa + unat len + unat (dp_page_size m) \<le> 2 ^ 64"
  shows "\<exists>r m'. snap_dp_map_add_range put_ok m pa len = Some (r, m') \<and> dp_page_size m' = dp_page_size m \<and>
    (r = 0 \<and> dp_set m' = dp_set m \<union> range_pages (dp_page_size m) pa len \<or>
     r = - 1 \<and> (\<exists>f \<in> range_pages (dp_page_size m) pa len. \<not> put_ok (dp_set m') f \<and>
        dp_set m' = dp_set m \<union> {q \<in> range_pages (dp_page_size m) pa len. q < f}))"
proof -
  let ?ps = "ucast (dp_page_size m) :: u64" and ?fl = "pa AND NOT (ucast (dp_page_size m) - 1)"
  have pos: "0 < unat ?ps" using assms(1) by (auto elim!: page_size_okE)
  with assms(2) have e: "unat (pa + ucast len) = unat pa + unat len"
    by (simp add: unat_word_ariths(1))
  have ap: "arith_pages ?ps ?fl (unat pa + unat len) = range_pages (dp_page_size m) pa len"
    using assms(1) by (rule arith_pages_range)
  have sub: "arith_pages ?ps ?fl (unat f) = {q \<in> range_pages (dp_page_size m) pa len. q < f}"
    if "f \<in> range_pages (dp_page_size m) pa len" for f
    unfolding ap [symmetric] using that by (auto simp: arith_pages_def range_pages_def word_less_nat_alt)
  have "unat (pa + ucast len) + unat ?ps \<le> 2 ^ 64" using assms(2) e by simp
  from add_range_loop_ok [OF pos this, of put_ok ?fl "dp_set m"] show ?thesis
    unfolding e ap snap_dp_map_add_range_def Let_def using sub by fastforce
qed

text \<open>C32. Adding a range that ends inside the last page of the address space never succeeds: the page
  counter wraps to zero below the end of the range, and only a failed insertion into the hash set leaves the
  loop, with \<^verbatim>\<open>-1\<close>. As long as every insertion succeeds the loop, which holds the spin lock, does not return.\<close>

theorem snap_dp_map_add_range_top_page:
  assumes "page_size_ok (dp_page_size m)"
    and "unat pa + unat len < 2 ^ 64" and "2 ^ 64 < unat pa + unat len + unat (dp_page_size m)"
  shows "(case snap_dp_map_add_range put_ok m pa len of
       None \<Rightarrow> True
     | Some (ret, m') \<Rightarrow> ret = - 1 \<and> (\<exists>page. \<not> put_ok (dp_set m') page)) \<and>
     ((\<forall>s page. put_ok s page) \<longrightarrow> snap_dp_map_add_range put_ok m pa len = None)"
proof -
  let ?ps = "ucast (dp_page_size m) :: u64" and ?fl = "pa AND NOT (ucast (dp_page_size m) - 1)"
  obtain k where k: "dp_page_size m = 2 ^ k" "k < 32" "unat (dp_page_size m) = 2 ^ k"
    using assms(1) by (rule page_size_okE)
  have "?ps = 2 ^ k" using k by (simp add: word_unat_eq_iff unat_pow2)
  then have "unat ?fl = 2 ^ k * (unat pa div 2 ^ k)"
    by (simp add: mask_eq_exp_minus_1 [symmetric] unat_and_not_mask)
  then have d: "unat ?ps dvd unat ?fl" using k by simp
  have d2: "unat ?ps dvd 2 ^ 64" using k by (simp only: unat_ucast_u32_u64 k(3)) (rule le_imp_power_dvd, simp)
  have "unat (pa + ucast len) = unat pa + unat len" using assms(2) by (simp add: unat_word_ariths(1))
  then have "2 ^ 64 < unat (pa + ucast len) + unat ?ps" using assms(3) by simp
  note never = add_range_loop_never [rule_format, OF _ d d2 this]
  have *: "case snap_dp_map_add_range put_ok m pa len of
       None \<Rightarrow> True
     | Some (ret, m') \<Rightarrow> ret = - 1 \<and> (\<exists>page. \<not> put_ok (dp_set m') page)"
    by (cases "add_range_loop put_ok ?ps (pa + ucast len) ?fl (dp_set m)")
       (use never in \<open>auto simp: snap_dp_map_add_range_def Let_def\<close>)
  moreover have "(\<forall>s page. put_ok s page) \<longrightarrow> snap_dp_map_add_range put_ok m pa len = None"
    using * by (auto split: option.splits)
  ultimately show ?thesis ..
qed

section \<open>Addressing of the host map\<close>

definition sge_pages :: "snap_dp_bmap \<Rightarrow> snap_vq_adm_sge \<Rightarrow> nat" where
  "sge_pages m sge = (if bm_is_bytemap m then 1 else 8) * unat (sge_len sge)"

definition bmap_fits :: "snap_dp_bmap \<Rightarrow> bool" where
  "bmap_fits m \<longleftrightarrow> page_size_ok (bm_page_size m) \<and> bm_start_pa m = 0 \<and>
     (\<forall>sge \<in> set (bm_sge_list m). sge_pages m sge < 2 ^ 32) \<and>
     unat (bm_page_size m) * sum_list (map (sge_pages m) (bm_sge_list m)) < 2 ^ 64"

lemma size_to_len_nat:
  assumes "sge_pages m sge < 2 ^ 32"
  shows "unat (snap_dp_bmap_size_to_len m (sge_len sge)) = sge_pages m sge"
  using assms by (auto simp: snap_dp_bmap_size_to_len_def sge_pages_def unat_word_ariths(2))

definition sge_found :: "snap_dp_bmap \<Rightarrow> nat \<Rightarrow> nat \<Rightarrow> snap_vq_adm_sge list \<Rightarrow>
  (snap_vq_adm_sge \<times> u64 \<times> u64) option \<Rightarrow> bool"
where
  "sge_found m sp base sges r =
     (case r of
        None \<Rightarrow> base + unat (bm_page_size m) * sum_list (map (sge_pages m) sges) \<le> sp
      | Some (sge, rpa, rlen) \<Rightarrow> \<exists>i < length sges. sge = sges ! i \<and>
          unat rpa = base + unat (bm_page_size m) * sum_list (map (sge_pages m) (take i sges)) \<and>
          unat rlen = unat (bm_page_size m) * sge_pages m sge \<and>
          unat rpa \<le> sp \<and> sp < unat rpa + unat rlen)"

lemma find_sge_spec:
  assumes "\<forall>sge \<in> set sges. sge_pages m sge < 2 ^ 32"
    and "unat rpa + unat (bm_page_size m) * sum_list (map (sge_pages m) sges) < 2 ^ 64"
    and "unat rpa \<le> unat sp"
  shows "sge_found m (unat sp) (unat rpa) sges (find_sge m sp rpa sges)"
  using assms
proof (induction sges arbitrary: rpa)
  case (Cons sge sges)
  let ?ps = "unat (bm_page_size m)"
  let ?rl = "ucast (bm_page_size m) * snap_dp_bmap_size_to_len m (sge_len sge)"
  have le: "unat rpa + ?ps * sge_pages m sge + ?ps * sum_list (map (sge_pages m) sges) < 2 ^ 64"
    using Cons.prems(2) by (simp add: algebra_simps)
  have rl: "unat ?rl = ?ps * sge_pages m sge"
    using le Cons.prems(1) by (simp add: unat_word_ariths(2) size_to_len_nat)
  have nx: "unat (rpa + ?rl) = unat rpa + ?ps * sge_pages m sge"
    using le by (simp add: unat_word_ariths(1) rl)
  show ?case
  proof (cases "rpa \<le> sp \<and> sp < rpa + ?rl")
    case True
    then have "unat rpa \<le> unat sp \<and> unat sp < unat (rpa + ?rl)"
      by (simp only: word_le_nat_alt word_less_nat_alt)
    then show ?thesis using True nx rl by (auto simp: sge_found_def intro!: exI [of _ 0])
  next
    case False
    then have f: "find_sge m sp rpa (sge # sges) = find_sge m sp (rpa + ?rl) sges" by auto
    have "unat (rpa + ?rl) \<le> unat sp"
      using False Cons.prems(3) by (simp add: word_le_nat_alt word_less_nat_alt not_less)
    with Cons.IH [of "rpa + ?rl"] Cons.prems(1) le nx
    have "sge_found m (unat sp) (unat rpa + ?ps * sge_pages m sge) sges (find_sge m sp (rpa + ?rl) sges)"
      by simp
    then show ?thesis unfolding f sge_found_def
      by (auto split: option.splits simp: algebra_simps intro: exI [of _ "Suc i" for i])
  qed
qed (simp add: sge_found_def)

definition bmap_slot :: "snap_dp_bmap \<Rightarrow> nat \<Rightarrow> nat \<Rightarrow> nat \<Rightarrow> bool" where
  "bmap_slot m page i idx \<longleftrightarrow> i < length (bm_sge_list m) \<and> idx < sge_pages m (bm_sge_list m ! i) \<and>
     page = sum_list (map (sge_pages m) (take i (bm_sge_list m))) + idx"

lemma find_sge_slot:
  fixes pa :: u64
  assumes fits: "bmap_fits m"
  defines "sp \<equiv> SNAP_ALIGN_FLOOR pa (bm_page_size m)" and "ps \<equiv> unat (bm_page_size m)"
  shows "(case find_sge m sp (bm_start_pa m) (bm_sge_list m) of
      None \<Rightarrow> sum_list (map (sge_pages m) (bm_sge_list m)) \<le> unat pa div ps
    | Some (sge, rpa, rlen) \<Rightarrow> \<exists>i idx. bmap_slot m (unat pa div ps) i idx \<and> sge = bm_sge_list m ! i \<and>
        (sp - rpa) div ucast (bm_page_size m) = of_nat idx)"
proof -
  have ok: "page_size_ok (bm_page_size m)" using fits by (simp add: bmap_fits_def)
  then have pos: "0 < ps" by (auto elim!: page_size_okE simp: ps_def)
  have sp: "unat sp = ps * (unat pa div ps)" using ok by (simp add: sp_def ps_def SNAP_ALIGN_FLOOR_nat)
  have F: "sge_found m (unat sp) 0 (bm_sge_list m) (find_sge m sp 0 (bm_sge_list m))"
    using find_sge_spec [of "bm_sge_list m" m 0 sp] fits by (simp add: bmap_fits_def)
  have "\<exists>i idx. bmap_slot m (unat pa div ps) i idx \<and> sge = bm_sge_list m ! i \<and>
        (sp - rpa) div ucast (bm_page_size m) = of_nat idx"
    if "find_sge m sp 0 (bm_sge_list m) = Some (sge, rpa, rlen)" for sge rpa rlen
  proof -
    from F that obtain i where i: "i < length (bm_sge_list m)" "sge = bm_sge_list m ! i"
      "unat rpa = ps * sum_list (map (sge_pages m) (take i (bm_sge_list m)))"
      "unat rlen = ps * sge_pages m sge" "unat rpa \<le> unat sp" "unat sp < unat rpa + unat rlen"
      by (auto simp: sge_found_def ps_def)
    let ?b = "sum_list (map (sge_pages m) (take i (bm_sge_list m)))"
    have le: "?b \<le> unat pa div ps" using i(3,5) sp pos by simp
    have "unat pa div ps - ?b < sge_pages m sge"
      using i(3,4,6) sp pos le by (simp add: add_mult_distrib2 [symmetric])
    with i le have s: "bmap_slot m (unat pa div ps) i (unat pa div ps - ?b)"
      by (simp add: bmap_slot_def)
    have "unat ((sp - rpa) div ucast (bm_page_size m)) = unat pa div ps - ?b"
      using i(3,5) sp pos
      by (simp add: unat_div unat_sub word_le_nat_alt diff_mult_distrib2 [symmetric] ps_def)
    then have "(sp - rpa) div ucast (bm_page_size m) = of_nat (unat pa div ps - ?b)"
      by (metis of_nat_unat ucast_id)
    with s i(2) show ?thesis by blast
  qed
  moreover have "sum_list (map (sge_pages m) (bm_sge_list m)) \<le> unat pa div ps"
    if "find_sge m sp 0 (bm_sge_list m) = None"
    using F that sp pos by (simp add: sge_found_def ps_def)
  ultimately show ?thesis
    using fits by (simp add: bmap_fits_def split: option.split)
qed

text \<open>C35. Addressing of the host map: for a map that fits the address space, the address and
  bit offset returned for \<open>pa\<close> are those of the page that holds \<open>pa\<close>, in the entry
  of the list whose pages contain it; nothing is found only for pages beyond the map.\<close>

theorem snap_dp_bmap_get_start_pa_slot:
  assumes fits: "bmap_fits m"
  shows "case snap_dp_bmap_get_start_pa m pa len of
      None \<Rightarrow> sum_list (map (sge_pages m) (bm_sge_list m)) \<le> unat pa div unat (bm_page_size m)
    | Some (ret_len, start_pa, byte_offset, sz) \<Rightarrow>
        \<exists>i idx. bmap_slot m (unat pa div unat (bm_page_size m)) i idx \<and>
          start_pa = sge_addr (bm_sge_list m ! i) + of_nat (if bm_is_bytemap m then idx else idx div 8) \<and>
          unat byte_offset = (if bm_is_bytemap m then 0 else idx mod 8)"
proof (cases "find_sge m (SNAP_ALIGN_FLOOR pa (bm_page_size m)) (bm_start_pa m) (bm_sge_list m)")
  case None
  with find_sge_slot [OF fits, of pa] show ?thesis by (simp add: snap_dp_bmap_get_start_pa_def)
next
  case (Some r)
  obtain sge rpa rlen where r: "r = (sge, rpa, rlen)" by (cases r)
  with find_sge_slot [OF fits, of pa] Some obtain i idx where
    i: "bmap_slot m (unat pa div unat (bm_page_size m)) i idx" "sge = bm_sge_list m ! i"
    "(SNAP_ALIGN_FLOOR pa (bm_page_size m) - rpa) div ucast (bm_page_size m) = of_nat idx" by auto
  have "sge \<in> set (bm_sge_list m)" "idx < sge_pages m sge" using i by (auto simp: bmap_slot_def)
  then have "idx < 2 ^ 32" using fits by (fastforce simp: bmap_fits_def)
  then have u: "unat (of_nat idx :: u64) = idx" by (simp add: unat_of_nat)
  have d: "(of_nat idx :: u64) div 8 = of_nat (idx div 8)"
    using u \<open>idx < 2 ^ 32\<close> by (simp add: word_unat_eq_iff unat_div unat_of_nat)
  have a: "unat (of_nat idx AND 7 :: u64) = idx mod 8"
    by (simp only: unat_and_7 u)
  show ?thesis
    using i(1) by (auto simp: snap_dp_bmap_get_start_pa_def Some r i(2,3) d a Let_def)
qed

lemma range_pages_image:
  assumes "0 < unat ps" and "unat pa + unat len + unat ps \<le> 2 ^ 64"
  shows "unat ` range_pages ps pa len =
    (\<lambda>i. unat ps * i) ` {unat pa div unat ps ..< (unat pa + unat len + unat ps - 1) div unat ps}"
  (is "_ = _ ` {?a..<?b}")
proof (intro set_eqI iffI)
  fix x assume "x \<in> unat ` range_pages ps pa len"
  then obtain i where i: "x = unat ps * i" "unat ps * i < unat pa + unat len" "unat pa < unat ps * i + unat ps"
    by (fastforce simp: range_pages_def dvd_def)
  then have "?a \<le> i" using assms(1)
    by (simp add: less_mult_imp_div_less mult.commute less_Suc_eq_le [symmetric])
  moreover have "Suc i \<le> ?b" using i assms(1)
    by (simp add: less_eq_div_iff_mult_less_eq algebra_simps)
  ultimately show "x \<in> (\<lambda>i. unat ps * i) ` {?a..<?b}" using i by auto
next
  fix x assume "x \<in> (\<lambda>i. unat ps * i) ` {?a..<?b}"
  then obtain i where i: "x = unat ps * i" "?a \<le> i" "Suc i \<le> ?b" by (fastforce simp: Suc_le_eq)
  then have b: "unat ps * i < unat pa + unat len"
    using assms(1) by (simp add: less_eq_div_iff_mult_less_eq algebra_simps)
  have "unat pa < unat ps * ?a + unat ps" using dividend_less_times_div [OF assms(1), of "unat pa"] by simp
  also have "\<dots> \<le> unat ps * i + unat ps" using i(2) by simp
  finally have c: "unat pa < unat ps * i + unat ps" .
  have "x < 2 ^ 64" using b i(1) assms by simp
  then have "unat (of_nat x :: u64) = x" by (simp add: unat_of_nat)
  then have "of_nat x \<in> range_pages ps pa len" using b c i(1) by (simp add: range_pages_def)
  then show "x \<in> unat ` range_pages ps pa len" using \<open>unat (of_nat x :: u64) = x\<close> by (metis image_eqI)
qed

lemma card_range_pages:
  assumes "0 < unat ps" and "unat pa + unat len + unat ps \<le> 2 ^ 64"
  shows "card (range_pages ps pa len) =
    (unat pa + unat len + unat ps - 1) div unat ps - unat pa div unat ps"
proof -
  have "card (range_pages ps pa len) = card (unat ` range_pages ps pa len)"
    by (rule card_image [symmetric]) (auto intro!: inj_onI simp: word_unat_eq_iff)
  also have "\<dots> = card {unat pa div unat ps ..< (unat pa + unat len + unat ps - 1) div unat ps}"
    unfolding range_pages_image [OF assms] using assms(1) by (intro card_image inj_onI) simp
  finally show ?thesis by simp
qed

text \<open>C36. In byte-map mode the size computed for a range is the number of pages that
  overlap it.\<close>

theorem snap_dp_bmap_range_size_pages:
  assumes ok: "page_size_ok (bm_page_size m)" and "bm_is_bytemap m"
    and fit: "unat pa + unat len + unat (bm_page_size m) \<le> 2 ^ 64"
  shows "unat (snap_dp_bmap_range_size m pa len) = card (range_pages (bm_page_size m) pa len)"
proof -
  let ?ps = "unat (bm_page_size m)"
  have pos: "0 < ?ps" using ok by (auto elim!: page_size_okE)
  obtain k where k: "?ps = 2 ^ k" "0 < k" using ok by (auto elim!: page_size_okE)
  let ?a = "unat pa div ?ps" and ?b = "(unat pa + unat len + ?ps - 1) div ?ps"
  have e: "unat (pa + ucast len) = unat pa + unat len" using fit pos by (simp add: unat_word_ariths(1))
  have c: "unat (SNAP_ALIGN_CEIL (pa + ucast len) (bm_page_size m)) = ?ps * ?b"
    using ALIGN_CEIL_nat [OF ok, of "pa + ucast len"] fit e by simp
  have ab: "?a \<le> ?b" by (rule div_le_mono) (use pos in simp)
  have "unat ((SNAP_ALIGN_CEIL (pa + ucast len) (bm_page_size m) - SNAP_ALIGN_FLOOR pa (bm_page_size m))
      div ucast (bm_page_size m)) = ?b - ?a"
    using ab pos c by (simp add: unat_div unat_sub word_le_nat_alt SNAP_ALIGN_FLOOR_nat [OF ok]
        diff_mult_distrib2 [symmetric])
  moreover have "?b - ?a < 2 ^ 32"
  proof -
    have "?ps * ?b \<le> unat pa + unat len + ?ps - 1" by (rule times_div_less_eq_dividend)
    moreover have "unat pa < ?ps * ?a + ?ps" using dividend_less_times_div [OF pos, of "unat pa"] by simp
    moreover have "unat len < 2 ^ 32" using unsigned_less [of len, where 'a = nat] by simp
    moreover have "?ps * (?b - ?a - 2) = ?ps * ?b - ?ps * ?a - 2 * ?ps" by (simp add: diff_mult_distrib2)
    ultimately have "?ps * (?b - ?a - 2) < 2 ^ 32" using pos by linarith
    moreover have "2 * (?b - ?a - 2) \<le> ?ps * (?b - ?a - 2)"
      using ok by (intro mult_le_mono1) (auto elim!: page_size_okE simp: self_le_power)
    ultimately have "2 * (?b - ?a - 2) < 2 ^ 32" by (rule le_less_trans [rotated])
    then show ?thesis by simp
  qed
  ultimately show ?thesis
    using assms(2) by (simp add: snap_dp_bmap_range_size_def Let_def unsigned_ucast_eq take_bit_nat_eq_self card_range_pages [OF pos fit])
qed

section \<open>Witnesses\<close>

definition dp_map0 :: snap_dp_map where
  "dp_map0 = \<lparr>dp_set = {0x3000, 0x1000, 0x2000}, dp_page_size = 0x1000\<rparr>"

definition bmap0 :: "bool \<Rightarrow> snap_dp_bmap" where
  "bmap0 bytemap = \<lparr>bm_sge_list = [\<lparr>sge_addr = 0x100, sge_len = 1\<rparr>, \<lparr>sge_addr = 0x200, sge_len = 4\<rparr>],
     bm_page_size = 0x1000, bm_is_bytemap = bytemap, bm_start_pa = 0, bm_host_key = 0\<rparr>"

lemma page_size_ok_4096 [simp]: "page_size_ok 0x1000"
  by code_simp

lemma bmap0_fits [simp]: "bmap_fits (bmap0 b)"
  by (simp add: bmap_fits_def bmap0_def sge_pages_def)

theorem add_range_marks_witness:
  "\<exists>r m'. snap_dp_map_add_range (\<lambda>s _. card s < 10) dp_map0 0x5010 0x2000 = Some (r, m') \<and>
     dp_page_size m' = 0x1000 \<and>
    (r = 0 \<and> dp_set m' = dp_set dp_map0 \<union> range_pages 0x1000 0x5010 0x2000 \<or>
     r = - 1 \<and> (\<exists>f \<in> range_pages 0x1000 0x5010 0x2000. \<not> card (dp_set m') < 10 \<and>
        dp_set m' = dp_set dp_map0 \<union> {q \<in> range_pages 0x1000 0x5010 0x2000. q < f}))"
  using snap_dp_map_add_range_marks [of dp_map0 "0x5010" "0x2000" "\<lambda>s _. card s < 10"]
  by (simp add: dp_map0_def)

theorem add_range_top_page_witness:
  "snap_dp_map_add_range (\<lambda>_ _. True) dp_map0 0xFFFFFFFFFFFFF000 0x10 = None"
  using snap_dp_map_add_range_top_page [of dp_map0 "0xFFFFFFFFFFFFF000" "0x10" "\<lambda>_ _. True"] by (simp add: dp_map0_def)

theorem serialize_sort_smallest_witness:
  "snap_dp_map_serialize_sort True [0x3000, 0x1000, 0x2000] dp_map0 0 0x10000 16 =
     (2, [0x1000, 0x2000], \<lparr>dp_set = {0x3000}, dp_page_size = 0x1000\<rparr>) \<and>
   {0x1000, 0x2000} \<subseteq> dirty_in dp_map0 0 0x10000 \<and> min (card (dirty_in dp_map0 0 0x10000)) 2 = 2"
proof -
  have e: "snap_dp_map_serialize_sort True [0x3000, 0x1000, 0x2000] dp_map0 0 0x10000 16 =
     (2, [0x1000, 0x2000], \<lparr>dp_set = {0x3000}, dp_page_size = 0x1000\<rparr>)"
    by code_simp
  have "scan_order [0x3000, 0x1000, 0x2000] dp_map0"
    by (auto simp: scan_order_def dp_map0_def)
  from snap_dp_map_serialize_sort_smallest [OF this, of True 0 "0x10000" 16] show ?thesis
    unfolding e by auto
qed

theorem serialize_drains_witness:
  "snap_dp_map_serialize [0x3000, 0x1000, 0x2000] dp_map0 17 =
     (2, [0x3000, 0x1000], \<lparr>dp_set = {0x2000}, dp_page_size = 0x1000\<rparr>)"
proof -
  have "scan_order [0x3000, 0x1000, 0x2000] dp_map0"
    by (auto simp: scan_order_def dp_map0_def)
  from snap_dp_map_serialize_drains [OF this, of 17] show ?thesis
    by (simp add: dp_map0_def Let_def)
qed

theorem get_start_pa_slot_witness:
  "snap_dp_bmap_get_start_pa (bmap0 False) 0x9000 0x1000 = Some (0x1000, 0x200, 1, 1) \<and>
   (\<exists>i idx. bmap_slot (bmap0 False) 9 i idx \<and>
      0x200 = sge_addr (bm_sge_list (bmap0 False) ! i) + of_nat (idx div 8) \<and> 1 = idx mod 8)"
proof -
  have e: "snap_dp_bmap_get_start_pa (bmap0 False) 0x9000 0x1000 = Some (0x1000, 0x200, 1, 1)"
    by code_simp
  show ?thesis
    using snap_dp_bmap_get_start_pa_slot [OF bmap0_fits, of False "0x9000" "0x1000"] unfolding e
    by (simp add: bmap0_def)
qed

theorem range_size_pages_witness:
  "snap_dp_bmap_range_size (bmap0 True) 0x7010 0x1000 = 2 \<and> card (range_pages 0x1000 0x7010 0x1000) = 2"
proof -
  have e: "snap_dp_bmap_range_size (bmap0 True) 0x7010 0x1000 = 2" by code_simp
  then show ?thesis
    using snap_dp_bmap_range_size_pages [of "bmap0 True" "0x7010" "0x1000"] by (simp add: bmap0_def)
qed

text \<open>
  In bit-map mode the size ignores the bit offset of the first page: for two pages of which the
  first has bit 7 of its byte, one byte is reported, so the second page is never marked.
\<close>

lemma bmap_bitmap_misses_page:
  "snap_dp_bmap_get_start_pa (bmap0 False) 0xF000 0x2000 = Some (0x2000, 0x200, 7, 1)"
  "bmap_slot (bmap0 False) 15 1 7" "bmap_slot (bmap0 False) 16 1 8"
  by code_simp (simp_all add: bmap_slot_def bmap0_def sge_pages_def)

end
