(* ===== verification/Dma_Sgl.thy ===== *)
theory Dma_Sgl
  imports Snap_Prelude
begin

text \<open>
  Splitting a vector-to-vector transfer into work requests: \<^verbatim>\<open>snap_dma_build_sgl\<close> of
  \<^verbatim>\<open>src/snap_dma_internal.h\<close>. The local and the remote memory are given as lists of
  buffers that need not line up; every work request has one remote segment and at most
  20 local ones.

  \<^verbatim>\<open>size_t\<close> values are natural numbers here: every subtraction of the loop is guarded and
  every sum is bounded by the length of one buffer. The lengths stored in a segment are 32-bit.
  The output arrays \<^verbatim>\<open>num_sge\<close>, \<^verbatim>\<open>l_sgl\<close> and \<^verbatim>\<open>r_sgl\<close> are one
  list of requests: entry \<open>k\<close> holds row \<open>k\<close> of \<^verbatim>\<open>l_sgl\<close>, cut at
  \<^verbatim>\<open>num_sge[k]\<close>, and \<^verbatim>\<open>r_sgl[k]\<close>.
\<close>

abbreviation (input) SNAP_DMA_Q_MAX_SGE_NUM :: nat where "SNAP_DMA_Q_MAX_SGE_NUM \<equiv> 20"
abbreviation (input) SNAP_DMA_Q_MAX_WR_CNT :: nat where "SNAP_DMA_Q_MAX_WR_CNT \<equiv> 128"
abbreviation (input) SNAP_DMA_Q_MAX_IOV_CNT :: nat where "SNAP_DMA_Q_MAX_IOV_CNT \<equiv> 128"

record iovec =
  iov_base :: u64
  iov_len :: nat

record ibv_sge =
  sg_addr :: u64
  sg_length :: u32
  sg_lkey :: u32

record snap_dma_q_io_attr =
  ia_lkey :: "u32 list"
  ia_liov :: "iovec list"
  ia_rkey :: "u32 list"
  ia_riov :: "iovec list"

record dma_wr =
  wr_l_sgl :: "ibv_sge list"
  wr_r_sge :: ibv_sge

text \<open>\<open>(x + d - 1) / d\<close>; the operands are promoted to \<^verbatim>\<open>int\<close>, the result is 16-bit.\<close>

definition round_up :: "u16 \<Rightarrow> u16 \<Rightarrow> u16" where
  "round_up x d = of_nat ((unat x + unat d - 1) div unat d)"

definition wqe_bbs :: "nat \<Rightarrow> nat" where
  "wqe_bbs sge_cnt = (if sge_cnt \<le> 2 then 1 else 1 + unat (round_up (of_nat (sge_cnt - 2)) 4))"

text \<open>The variables that live across the remote buffers, and those of one remote buffer.\<close>

record sgl_state =
  sl_j :: nat
  sl_left :: nat
  sl_offset :: nat
  sl_wrs :: "dma_wr list"
  sl_n_bb :: nat

record wr_state = sgl_state +
  ws_len_to_handle :: nat
  ws_sge_total_len :: nat
  ws_wr_consumed_len :: nat
  ws_l_sge :: "ibv_sge list"

definition add_sge :: "u64 \<Rightarrow> nat \<Rightarrow> u32 \<Rightarrow> wr_state \<Rightarrow> wr_state" where
  "add_sge addr len key s =
     s\<lparr>ws_l_sge := ws_l_sge s @ [\<lparr>sg_addr = addr, sg_length = of_nat len, sg_lkey = key\<rparr>],
       ws_sge_total_len := ws_sge_total_len s + len,
       ws_len_to_handle := ws_len_to_handle s - len\<rparr>"

text \<open>The four branches that take bytes from local buffer \<open>j\<close>.\<close>

definition take_local :: "snap_dma_q_io_attr \<Rightarrow> wr_state \<Rightarrow> wr_state" where
  "take_local a s =
     (let j = sl_j s; iov = ia_liov a ! j; key = ia_lkey a ! j; len = ws_len_to_handle s;
          left = sl_left s; offset = sl_offset s
      in if left \<noteq> 0 then
           if len \<ge> left then
             (add_sge (iov_base iov + of_nat offset) left key s)
               \<lparr>sl_j := j + 1, sl_left := 0, sl_offset := 0\<rparr>
           else
             (add_sge (iov_base iov + of_nat offset) len key s)
               \<lparr>sl_left := left - len, sl_offset := offset + len\<rparr>
         else if len \<ge> iov_len iov then
           (add_sge (iov_base iov) (iov_len iov) key s)\<lparr>sl_j := j + 1\<rparr>
         else
           (add_sge (iov_base iov) len key s)\<lparr>sl_left := iov_len iov - len, sl_offset := len\<rparr>)"

text \<open>Closing request \<open>k\<close> of remote buffer \<open>i\<close>.\<close>

definition close_wr :: "snap_dma_q_io_attr \<Rightarrow> nat \<Rightarrow> wr_state \<Rightarrow> wr_state" where
  "close_wr a i s =
     s\<lparr>sl_wrs := sl_wrs s @ [\<lparr>wr_l_sgl = ws_l_sge s,
          wr_r_sge = \<lparr>sg_addr = iov_base (ia_riov a ! i) + of_nat (ws_wr_consumed_len s),
                      sg_length = of_nat (ws_sge_total_len s), sg_lkey = ia_rkey a ! i\<rparr>\<rparr>],
       sl_n_bb := sl_n_bb s + wqe_bbs (length (ws_l_sge s))\<rparr>"

text \<open>The \<^verbatim>\<open>while\<close> loop; \<^term>\<open>None\<close> is \<^verbatim>\<open>return -1\<close>.\<close>

function sgl_while :: "snap_dma_q_io_attr \<Rightarrow> nat \<Rightarrow> wr_state \<Rightarrow> wr_state option" where
  "sgl_while a i s =
     (if sl_j s < length (ia_liov a) \<and> ws_len_to_handle s > 0 then
        let s1 = take_local a s
        in if length (ws_l_sge s1) = SNAP_DMA_Q_MAX_SGE_NUM \<and> ws_len_to_handle s1 > 0 then
             let s2 = close_wr a i s1
             in if length (sl_wrs s2) \<ge> SNAP_DMA_Q_MAX_WR_CNT then None
                else sgl_while a i
                  (s2\<lparr>ws_wr_consumed_len := ws_wr_consumed_len s2 + ws_sge_total_len s2,
                      ws_l_sge := [], ws_sge_total_len := 0\<rparr>)
           else sgl_while a i s1
      else Some s)"
  by auto
termination
  by (relation "measure (\<lambda>(a, i, s). 2 * (length (ia_liov a) - sl_j s) +
        (if ws_len_to_handle s > 0 then 1 else 0))")
     (auto simp: take_local_def add_sge_def close_wr_def Let_def split: if_splits)

fun sgl_for :: "snap_dma_q_io_attr \<Rightarrow> nat \<Rightarrow> iovec list \<Rightarrow> sgl_state \<Rightarrow> sgl_state option" where
  "sgl_for a i [] s = Some s"
| "sgl_for a i (riov # riovs) s =
     (if length (sl_wrs s) \<ge> SNAP_DMA_Q_MAX_WR_CNT then None
      else case sgl_while a i (sgl_state.extend s
             \<lparr>ws_len_to_handle = iov_len riov, ws_sge_total_len = 0,
              ws_wr_consumed_len = 0, ws_l_sge = []\<rparr>) of
             None \<Rightarrow> None
           | Some s1 \<Rightarrow> sgl_for a (Suc i) riovs (sgl_state.truncate (close_wr a i s1)))"

definition snap_dma_build_sgl :: "snap_dma_q_io_attr \<Rightarrow> (dma_wr list \<times> nat) option" where
  "snap_dma_build_sgl a =
     map_option (\<lambda>s. (sl_wrs s, sl_n_bb s))
       (sgl_for a 0 (ia_riov a) \<lparr>sl_j = 0, sl_left = 0, sl_offset = 0, sl_wrs = [], sl_n_bb = 0\<rparr>)"

declare sgl_while.simps [simp del]

definition seg :: "u64 \<Rightarrow> nat \<Rightarrow> u32 \<Rightarrow> (u64 \<times> u32) list" where
  "seg addr n key = map (\<lambda>i. (addr + of_nat i, key)) [0..<n]"

definition sge_bytes :: "ibv_sge \<Rightarrow> (u64 \<times> u32) list" where
  "sge_bytes s = seg (sg_addr s) (unat (sg_length s)) (sg_lkey s)"

definition iov_bytes :: "iovec \<Rightarrow> u32 \<Rightarrow> (u64 \<times> u32) list" where
  "iov_bytes v key = seg (iov_base v) (iov_len v) key"

fun iovs_bytes :: "iovec list \<Rightarrow> u32 list \<Rightarrow> (u64 \<times> u32) list" where
  "iovs_bytes (v # vs) (k # ks) = iov_bytes v k @ iovs_bytes vs ks"
| "iovs_bytes _ _ = []"

definition sgl_bytes :: "ibv_sge list \<Rightarrow> (u64 \<times> u32) list" where
  "sgl_bytes l = concat (map sge_bytes l)"

definition wr_local :: "dma_wr list \<Rightarrow> (u64 \<times> u32) list" where
  "wr_local wrs = concat (map (\<lambda>w. sgl_bytes (wr_l_sgl w)) wrs)"

definition wr_remote :: "dma_wr list \<Rightarrow> (u64 \<times> u32) list" where
  "wr_remote wrs = sgl_bytes (map wr_r_sge wrs)"

definition io_attr_ok :: "snap_dma_q_io_attr \<Rightarrow> bool" where
  "io_attr_ok a \<longleftrightarrow> length (ia_lkey a) = length (ia_liov a) \<and> length (ia_rkey a) = length (ia_riov a) \<and>
     (\<forall>v \<in> set (ia_liov a) \<union> set (ia_riov a). iov_len v < 2 ^ 32)"

definition wr_ok :: "dma_wr \<Rightarrow> bool" where
  "wr_ok w \<longleftrightarrow> length (wr_l_sgl w) \<le> SNAP_DMA_Q_MAX_SGE_NUM \<and>
     length (sgl_bytes (wr_l_sgl w)) = length (sge_bytes (wr_r_sge w))"

lemma length_seg [simp]: "length (seg a n k) = n"
  by (simp add: seg_def)

lemma seg_0 [simp]: "seg a 0 k = []"
  by (simp add: seg_def)

lemma seg_append: "seg a n k @ seg (a + of_nat n) m k = seg a (n + m) k"
  by (rule nth_equalityI) (auto simp: seg_def nth_append)

lemma take_seg: "take m (seg a n k) = seg a (min m n) k"
  by (simp add: seg_def take_map take_upt min_def)

lemma sgl_bytes_simps [simp]:
  "sgl_bytes [] = []" "sgl_bytes (l @ l') = sgl_bytes l @ sgl_bytes l'" "sgl_bytes [s] = sge_bytes s"
  by (simp_all add: sgl_bytes_def)

lemma wr_bytes_simps [simp]:
  "wr_local [] = []" "wr_local (ws @ [w]) = wr_local ws @ sgl_bytes (wr_l_sgl w)"
  "wr_remote [] = []" "wr_remote (ws @ [w]) = wr_remote ws @ sge_bytes (wr_r_sge w)"
  by (simp_all add: wr_local_def wr_remote_def)

lemma iovs_bytes_append: "length vs = length ks \<Longrightarrow>
  iovs_bytes (vs @ [v]) (ks @ [k]) = iovs_bytes vs ks @ iov_bytes v k"
  by (induction vs ks rule: list_induct2) auto

text \<open>The local bytes consumed when local buffer \<open>j\<close> has been used up to \<open>off\<close>.\<close>

definition upto_pos :: "iovec list \<Rightarrow> u32 list \<Rightarrow> nat \<Rightarrow> nat \<Rightarrow> (u64 \<times> u32) list" where
  "upto_pos vs ks j off = iovs_bytes (take j vs) (take j ks) @
     (if off = 0 then [] else seg (iov_base (vs ! j)) off (ks ! j))"

lemma upto_pos_next:
  assumes "j < length vs" and "length ks = length vs"
  shows "upto_pos vs ks (Suc j) 0 = upto_pos vs ks j 0 @ seg (iov_base (vs ! j)) (iov_len (vs ! j)) (ks ! j)"
  using assms by (simp add: upto_pos_def take_Suc_conv_app_nth iovs_bytes_append iov_bytes_def)

lemma upto_pos_add:
  "upto_pos vs ks j (off + n) = upto_pos vs ks j off @ seg (iov_base (vs ! j) + of_nat off) n (ks ! j)"
  using seg_append [of "iov_base (vs ! j)" off "ks ! j" n]
  by (cases off; cases n) (auto simp: upto_pos_def)

definition local_inv :: "snap_dma_q_io_attr \<Rightarrow> 'a sgl_state_scheme \<Rightarrow> bool" where
  "local_inv a s \<longleftrightarrow> sl_j s \<le> length (ia_liov a) \<and> (sl_left s = 0 \<longrightarrow> sl_offset s = 0) \<and>
     (sl_left s \<noteq> 0 \<longrightarrow> sl_j s < length (ia_liov a) \<and> sl_offset s + sl_left s = iov_len (ia_liov a ! sl_j s))"

definition local_done :: "snap_dma_q_io_attr \<Rightarrow> 'a sgl_state_scheme \<Rightarrow> (u64 \<times> u32) list" where
  "local_done a s = upto_pos (ia_liov a) (ia_lkey a) (sl_j s) (sl_offset s)"

definition takes :: "snap_dma_q_io_attr \<Rightarrow> wr_state \<Rightarrow> wr_state \<Rightarrow> u64 \<Rightarrow> nat \<Rightarrow> u32 \<Rightarrow> bool" where
  "takes a s s' addr n key \<longleftrightarrow> local_inv a s' \<and>
     ws_l_sge s' = ws_l_sge s @ [\<lparr>sg_addr = addr, sg_length = of_nat n, sg_lkey = key\<rparr>] \<and>
     local_done a s' = local_done a s @ seg addr n key \<and> n < 2 ^ 32 \<and>
     n \<le> ws_len_to_handle s \<and> ws_len_to_handle s' = ws_len_to_handle s - n \<and>
     ws_sge_total_len s' = ws_sge_total_len s + n \<and>
     ws_wr_consumed_len s' = ws_wr_consumed_len s \<and>
     sl_wrs s' = sl_wrs s \<and> sl_n_bb s' = sl_n_bb s"

lemma take_local_fresh:
  assumes "io_attr_ok a" and "local_inv a s" and "sl_j s < length (ia_liov a)" and "0 < ws_len_to_handle s"
    and "sl_left s = 0"
  shows "takes a s (take_local a s) (iov_base (ia_liov a ! sl_j s))
    (min (ws_len_to_handle s) (iov_len (ia_liov a ! sl_j s))) (ia_lkey a ! sl_j s)"
proof -
  have len: "iov_len (ia_liov a ! sl_j s) < 2 ^ 32" "length (ia_lkey a) = length (ia_liov a)"
    using assms(1,3) by (auto simp: io_attr_ok_def)
  have off: "sl_offset s = 0" using assms by (simp add: local_inv_def)
  show ?thesis
    using assms(2-5) len off upto_pos_next [OF assms(3) len(2)]
      upto_pos_add [of "ia_liov a" "ia_lkey a" "sl_j s" 0 "ws_len_to_handle s"]
    by (cases "ws_len_to_handle s \<ge> iov_len (ia_liov a ! sl_j s)")
       (simp_all add: takes_def take_local_def add_sge_def local_inv_def local_done_def min_absorb1 min_absorb2 Let_def)
qed

lemma take_local_rest:
  assumes "io_attr_ok a" and "local_inv a s" and "sl_j s < length (ia_liov a)" and "0 < ws_len_to_handle s"
    and "sl_left s \<noteq> 0"
  shows "takes a s (take_local a s) (iov_base (ia_liov a ! sl_j s) + of_nat (sl_offset s))
    (min (ws_len_to_handle s) (sl_left s)) (ia_lkey a ! sl_j s)"
proof -
  let ?v = "ia_liov a ! sl_j s"
  have len: "iov_len ?v < 2 ^ 32" "length (ia_lkey a) = length (ia_liov a)"
    using assms(1,3) by (auto simp: io_attr_ok_def)
  have off: "sl_offset s + sl_left s = iov_len ?v" using assms by (simp add: local_inv_def)
  note ad = upto_pos_add [of "ia_liov a" "ia_lkey a" "sl_j s"]
  have "upto_pos (ia_liov a) (ia_lkey a) (Suc (sl_j s)) 0 =
       upto_pos (ia_liov a) (ia_lkey a) (sl_j s) (sl_offset s) @
       seg (iov_base ?v + of_nat (sl_offset s)) (sl_left s) (ia_lkey a ! sl_j s)"
    unfolding upto_pos_next [OF assms(3) len(2)]
    using ad [of "sl_offset s" "sl_left s"] ad [of 0 "iov_len ?v"] off by simp
  then show ?thesis
    using assms(2-5) len off ad [of "sl_offset s" "ws_len_to_handle s"]
    by (cases "ws_len_to_handle s \<ge> sl_left s")
       (simp_all add: takes_def take_local_def add_sge_def local_inv_def local_done_def min_absorb1 min_absorb2 Let_def)
qed

lemma take_local_takes:
  assumes "io_attr_ok a" and "local_inv a s" and "sl_j s < length (ia_liov a)" and "0 < ws_len_to_handle s"
  shows "\<exists>addr n key. takes a s (take_local a s) addr n key"
  using take_local_fresh [OF assms] take_local_rest [OF assms] by blast

text \<open>What holds of remote buffer \<open>i\<close> while it is being covered.\<close>

definition wr_inv :: "snap_dma_q_io_attr \<Rightarrow> nat \<Rightarrow> wr_state \<Rightarrow> bool" where
  "wr_inv a i s \<longleftrightarrow>
     local_inv a s \<and> wr_local (sl_wrs s) @ sgl_bytes (ws_l_sge s) = local_done a s \<and>
     length (sgl_bytes (ws_l_sge s)) = ws_sge_total_len s \<and>
     ws_wr_consumed_len s + ws_sge_total_len s + ws_len_to_handle s = iov_len (ia_riov a ! i) \<and>
     wr_remote (sl_wrs s) = upto_pos (ia_riov a) (ia_rkey a) i (ws_wr_consumed_len s) \<and>
     length (ws_l_sge s) \<le> SNAP_DMA_Q_MAX_SGE_NUM \<and> list_all wr_ok (sl_wrs s) \<and> length (sl_wrs s) < SNAP_DMA_Q_MAX_WR_CNT \<and>
     sl_n_bb s = sum_list (map (\<lambda>w. wqe_bbs (length (wr_l_sgl w))) (sl_wrs s))"

lemma take_local_inv:
  assumes "io_attr_ok a" and "wr_inv a i s" and "sl_j s < length (ia_liov a)" and "0 < ws_len_to_handle s"
    and "length (ws_l_sge s) < SNAP_DMA_Q_MAX_SGE_NUM"
  shows "wr_inv a i (take_local a s)"
proof -
  from take_local_takes [of a s] assms obtain addr n key where t: "takes a s (take_local a s) addr n key"
    by (auto simp: wr_inv_def)
  have b: "sge_bytes \<lparr>sg_addr = addr, sg_length = of_nat n, sg_lkey = key\<rparr> = seg addr n key"
    using t by (simp add: sge_bytes_def unat_of_nat takes_def)
  show ?thesis using assms t unfolding wr_inv_def takes_def by (auto simp: b)
qed

lemma sge_bytes_remote:
  "n < 2 ^ 32 \<Longrightarrow> sge_bytes \<lparr>sg_addr = addr, sg_length = of_nat n, sg_lkey = key\<rparr> = seg addr n key"
  by (simp add: sge_bytes_def unat_of_nat)

text \<open>Closing a request with the bytes it has covered.\<close>

lemma close_wr_facts:
  assumes "io_attr_ok a" and "wr_inv a i s" and "i < length (ia_riov a)"
  shows "wr_remote (sl_wrs (close_wr a i s)) =
      upto_pos (ia_riov a) (ia_rkey a) i (ws_wr_consumed_len s + ws_sge_total_len s)"
    "wr_local (sl_wrs (close_wr a i s)) = local_done a s"
    "list_all wr_ok (sl_wrs (close_wr a i s))"
    "sl_n_bb (close_wr a i s) = sum_list (map (\<lambda>w. wqe_bbs (length (wr_l_sgl w))) (sl_wrs (close_wr a i s)))"
    "length (sl_wrs (close_wr a i s)) = Suc (length (sl_wrs s))"
proof -
  have lt: "ws_sge_total_len s < 2 ^ 32"
  proof -
    have "iov_len (ia_riov a ! i) < 2 ^ 32" using assms(1,3) by (auto simp: io_attr_ok_def)
    then show ?thesis using assms(2) by (auto simp: wr_inv_def)
  qed
  show "wr_remote (sl_wrs (close_wr a i s)) =
      upto_pos (ia_riov a) (ia_rkey a) i (ws_wr_consumed_len s + ws_sge_total_len s)"
    using assms(2) lt by (simp add: close_wr_def sge_bytes_remote upto_pos_add wr_inv_def)
  show "wr_local (sl_wrs (close_wr a i s)) = local_done a s"
    using assms(2) by (simp add: close_wr_def wr_inv_def)
  show "list_all wr_ok (sl_wrs (close_wr a i s))"
    using assms(2) lt by (auto simp: close_wr_def wr_inv_def wr_ok_def sge_bytes_remote)
  show "sl_n_bb (close_wr a i s) = sum_list (map (\<lambda>w. wqe_bbs (length (wr_l_sgl w))) (sl_wrs (close_wr a i s)))"
    "length (sl_wrs (close_wr a i s)) = Suc (length (sl_wrs s))"
    using assms(2) by (simp_all add: close_wr_def wr_inv_def)
qed

definition sge_room :: "wr_state \<Rightarrow> bool" where
  "sge_room s \<longleftrightarrow> (0 < ws_len_to_handle s \<longrightarrow> length (ws_l_sge s) < SNAP_DMA_Q_MAX_SGE_NUM)"

lemma sgl_while_inv:
  assumes "io_attr_ok a" and "i < length (ia_riov a)"
    and "wr_inv a i s" and "sge_room s" and "sgl_while a i s = Some s'"
  shows "wr_inv a i s' \<and> (ws_len_to_handle s' = 0 \<or> sl_j s' = length (ia_liov a))"
  using assms
proof (induction a i s rule: sgl_while.induct)
  case (1 a i s)
  let ?s1 = "take_local a s" and ?s2 = "close_wr a i (take_local a s)"
  let ?s3 = "?s2\<lparr>ws_wr_consumed_len := ws_wr_consumed_len ?s2 + ws_sge_total_len ?s2,
                  ws_l_sge := [], ws_sge_total_len := 0\<rparr>"
  show ?case
  proof (cases "sl_j s < length (ia_liov a) \<and> ws_len_to_handle s > 0")
    case False
    with 1(7) have "s' = s" by (simp add: sgl_while.simps)
    with False 1(5) show ?thesis by (auto simp: wr_inv_def local_inv_def)
  next
    case True
    then have i1: "wr_inv a i ?s1" using 1(3,5,6) by (intro take_local_inv) (auto simp: sge_room_def)
    note facts = close_wr_facts [OF 1(3) i1 1(4)]
    show ?thesis
    proof (cases "length (ws_l_sge ?s1) = SNAP_DMA_Q_MAX_SGE_NUM \<and> ws_len_to_handle ?s1 > 0")
      case full: True
      then have w: "\<not> length (sl_wrs ?s2) \<ge> SNAP_DMA_Q_MAX_WR_CNT" "sgl_while a i ?s3 = Some s'"
        using 1(7) True unfolding sgl_while.simps [of a i s] by (simp_all add: Let_def split: if_splits)
      have i3: "wr_inv a i ?s3" "sge_room ?s3"
        using i1 facts w(1) by (auto simp: wr_inv_def sge_room_def close_wr_def local_inv_def local_done_def)
      from 1(1) [OF True refl full refl w(1) 1(3,4) i3 w(2)] show ?thesis .
    next
      case nf: False
      then have w: "sgl_while a i ?s1 = Some s'"
        using 1(7) True unfolding sgl_while.simps [of a i s] by (auto simp: Let_def split: if_splits)
      have "sge_room ?s1" using nf i1 by (auto simp: sge_room_def wr_inv_def)
      from 1(2) [OF True refl nf 1(3,4) i1 this w] show ?thesis .
    qed
  qed
qed

text \<open>What holds between two remote buffers.\<close>

definition sgl_inv :: "snap_dma_q_io_attr \<Rightarrow> nat \<Rightarrow> sgl_state \<Rightarrow> bool" where
  "sgl_inv a i s \<longleftrightarrow>
     local_inv a s \<and> wr_local (sl_wrs s) = local_done a s \<and>
     wr_remote (sl_wrs s) = upto_pos (ia_riov a) (ia_rkey a) i 0 \<and>
     length (wr_local (sl_wrs s)) = length (wr_remote (sl_wrs s)) \<and>
     list_all wr_ok (sl_wrs s) \<and> length (sl_wrs s) \<le> SNAP_DMA_Q_MAX_WR_CNT \<and>
     sl_n_bb s = sum_list (map (\<lambda>w. wqe_bbs (length (wr_l_sgl w))) (sl_wrs s))"

lemma wr_bytes_length: "list_all wr_ok ws \<Longrightarrow> length (wr_local ws) = length (wr_remote ws)"
  by (induction ws) (simp_all add: wr_local_def wr_remote_def sgl_bytes_def wr_ok_def)

lemma length_iovs_bytes: "length ks = length vs \<Longrightarrow> length (iovs_bytes vs ks) = sum_list (map iov_len vs)"
  by (induction ks vs rule: list_induct2) (simp_all add: iov_bytes_def)

lemma local_exhausted:
  assumes "io_attr_ok a" and "local_inv a s" and "sl_j s = length (ia_liov a)"
  shows "length (local_done a s) = sum_list (map iov_len (ia_liov a))"
  using assms by (auto simp: local_done_def local_inv_def upto_pos_def io_attr_ok_def length_iovs_bytes)

lemma length_upto_pos:
  "length ks = length vs \<Longrightarrow> length (upto_pos vs ks i off) = sum_list (map iov_len (take i vs)) + off"
  by (simp add: upto_pos_def length_iovs_bytes)

lemma sum_list_take_nth:
  "i < length vs \<Longrightarrow> sum_list (map iov_len (take i vs)) + iov_len (vs ! i) \<le> sum_list (map iov_len vs)"
proof (induction vs arbitrary: i)
  case (Cons v vs)
  then show ?case by (cases i) auto
qed simp

lemma sgl_step_inv:
  assumes ok: "io_attr_ok a" and i: "i < length (ia_riov a)" and inv: "sgl_inv a i s"
    and room: "length (sl_wrs s) < SNAP_DMA_Q_MAX_WR_CNT"
    and enough: "sum_list (map iov_len (ia_riov a)) \<le> sum_list (map iov_len (ia_liov a))"
    and w: "sgl_while a i (sgl_state.extend s
             \<lparr>ws_len_to_handle = iov_len (ia_riov a ! i), ws_sge_total_len = 0,
              ws_wr_consumed_len = 0, ws_l_sge = []\<rparr>) = Some s1"
  shows "sgl_inv a (Suc i) (sgl_state.truncate (close_wr a i s1))"
proof -
  have "wr_inv a i (sgl_state.extend s
             \<lparr>ws_len_to_handle = iov_len (ia_riov a ! i), ws_sge_total_len = 0,
              ws_wr_consumed_len = 0, ws_l_sge = []\<rparr>)"
    using inv room by (auto simp: wr_inv_def sgl_inv_def sgl_state.defs local_inv_def local_done_def)
  from sgl_while_inv [OF ok i this _ w] have i1: "wr_inv a i s1"
    and e: "ws_len_to_handle s1 = 0 \<or> sl_j s1 = length (ia_liov a)"
    by (auto simp: sge_room_def sgl_state.defs)
  note facts = close_wr_facts [OF ok i1 i]
  have rk: "length (ia_rkey a) = length (ia_riov a)" using ok by (simp add: io_attr_ok_def)
  have eq: "ws_wr_consumed_len s1 + ws_sge_total_len s1 + ws_len_to_handle s1 = iov_len (ia_riov a ! i)"
    and linv: "local_inv a s1" using i1 by (auto simp: wr_inv_def)
  have "ws_len_to_handle s1 = 0"
  proof (rule ccontr)
    assume pos: "ws_len_to_handle s1 \<noteq> 0"
    with e linv ok have "length (local_done a s1) = sum_list (map iov_len (ia_liov a))"
      by (intro local_exhausted) auto
    then have "sum_list (map iov_len (take i (ia_riov a))) + (ws_wr_consumed_len s1 + ws_sge_total_len s1) =
        sum_list (map iov_len (ia_liov a))"
      using wr_bytes_length [OF facts(3)] facts(1,2) rk by (simp add: length_upto_pos)
    then show False using sum_list_take_nth [OF i] eq pos enough by linarith
  qed
  then have "wr_remote (sl_wrs (close_wr a i s1)) = upto_pos (ia_riov a) (ia_rkey a) (Suc i) 0"
    using facts(1) eq upto_pos_next [OF i rk] upto_pos_add [of "ia_riov a" "ia_rkey a" i 0 "iov_len (ia_riov a ! i)"]
    by simp
  with facts(2-5) wr_bytes_length [OF facts(3)] linv i1 show ?thesis
    by (simp add: sgl_inv_def sgl_state.defs) (simp add: wr_inv_def close_wr_def local_inv_def local_done_def)
qed

lemma sgl_for_inv:
  assumes "io_attr_ok a" and "sum_list (map iov_len (ia_riov a)) \<le> sum_list (map iov_len (ia_liov a))"
    and "sgl_inv a i s" and "sgl_for a i (drop i (ia_riov a)) s = Some s'" and "i \<le> length (ia_riov a)"
  shows "sgl_inv a (length (ia_riov a)) s'"
  using assms(3-5)
proof (induction "length (ia_riov a) - i" arbitrary: i s)
  case 0
  then show ?case by simp
next
  case (Suc n)
  then have i: "i < length (ia_riov a)" by simp
  then have d: "drop i (ia_riov a) = ia_riov a ! i # drop (Suc i) (ia_riov a)"
    by (simp add: Cons_nth_drop_Suc)
  from Suc(4) obtain s1 where s1: "length (sl_wrs s) < SNAP_DMA_Q_MAX_WR_CNT"
    "sgl_while a i (sgl_state.extend s
             \<lparr>ws_len_to_handle = iov_len (ia_riov a ! i), ws_sge_total_len = 0,
              ws_wr_consumed_len = 0, ws_l_sge = []\<rparr>) = Some s1"
    "sgl_for a (Suc i) (drop (Suc i) (ia_riov a)) (sgl_state.truncate (close_wr a i s1)) = Some s'"
    unfolding d by (simp split: if_splits option.splits)
  from sgl_step_inv [OF assms(1) i Suc(3) s1(1) assms(2) s1(2)] Suc(1) [of "Suc i"] Suc(2) s1(3) i
  show ?case by simp
qed

lemma snap_dma_build_sgl_inv:
  assumes "io_attr_ok a" and "sum_list (map iov_len (ia_riov a)) \<le> sum_list (map iov_len (ia_liov a))"
    and "snap_dma_build_sgl a = Some (wrs, n_bb)"
  shows "\<exists>s. sgl_inv a (length (ia_riov a)) s \<and> sl_wrs s = wrs \<and> sl_n_bb s = n_bb"
proof -
  have "sgl_inv a 0 \<lparr>sl_j = 0, sl_left = 0, sl_offset = 0, sl_wrs = [], sl_n_bb = 0\<rparr>"
    by (simp add: sgl_inv_def local_inv_def local_done_def upto_pos_def)
  from sgl_for_inv [OF assms(1,2) this] assms(3) show ?thesis
    by (auto simp: snap_dma_build_sgl_def)
qed

lemma iovs_bytes_split:
  assumes "length ks = length vs"
  shows "iovs_bytes vs ks = iovs_bytes (take j vs) (take j ks) @ iovs_bytes (drop j vs) (drop j ks)"
  using assms
proof (induction ks vs arbitrary: j rule: list_induct2)
  case (Cons k ks v vs)
  then show ?case by (cases j) simp_all
qed simp

lemma local_done_prefix:
  assumes "io_attr_ok a" and "local_inv a s"
  shows "local_done a s = take (length (local_done a s)) (iovs_bytes (ia_liov a) (ia_lkey a))"
proof -
  have lk: "length (ia_lkey a) = length (ia_liov a)" using assms(1) by (simp add: io_attr_ok_def)
  let ?j = "sl_j s" and ?off = "sl_offset s"
  have "\<exists>rest. iovs_bytes (ia_liov a) (ia_lkey a) = local_done a s @ rest"
  proof (cases "?off = 0")
    case True
    then show ?thesis using iovs_bytes_split [OF lk, of ?j] by (auto simp: local_done_def upto_pos_def)
  next
    case False
    then have j: "?j < length (ia_liov a)" "?off \<le> iov_len (ia_liov a ! ?j)"
      using assms(2) by (auto simp: local_inv_def)
    then obtain m where m: "iov_len (ia_liov a ! ?j) = ?off + m" using le_Suc_ex by blast
    have "iovs_bytes (ia_liov a) (ia_lkey a) = upto_pos (ia_liov a) (ia_lkey a) (Suc ?j) 0 @
        iovs_bytes (drop (Suc ?j) (ia_liov a)) (drop (Suc ?j) (ia_lkey a))"
      using iovs_bytes_split [OF lk, of "Suc ?j"] by (simp add: upto_pos_def)
    also have "upto_pos (ia_liov a) (ia_lkey a) (Suc ?j) 0 = local_done a s @
        seg (iov_base (ia_liov a ! ?j) + of_nat ?off) m (ia_lkey a ! ?j)"
      unfolding upto_pos_next [OF j(1) lk] m local_done_def
      using upto_pos_add [of "ia_liov a" "ia_lkey a" ?j 0 "?off + m"]
        upto_pos_add [of "ia_liov a" "ia_lkey a" ?j ?off m] by simp
    finally show ?thesis by simp
  qed
  then show ?thesis by (metis append_eq_conv_conj)
qed

text \<open>C23. A vector transfer is split without loss, overlap or reordering: the remote bytes
  of the work requests are those of the remote buffers in order, the local bytes are the first
  of the local buffers in order, every request moves as many local as remote bytes over at most
  20 local segments, and \<^verbatim>\<open>n_bb\<close> is the number of building blocks of the requests.\<close>

theorem snap_dma_build_sgl_covers:
  assumes "io_attr_ok a" and "sum_list (map iov_len (ia_riov a)) \<le> sum_list (map iov_len (ia_liov a))"
    and "snap_dma_build_sgl a = Some (wrs, n_bb)"
  shows "wr_remote wrs = iovs_bytes (ia_riov a) (ia_rkey a) \<and>
     wr_local wrs = take (sum_list (map iov_len (ia_riov a))) (iovs_bytes (ia_liov a) (ia_lkey a)) \<and>
     list_all wr_ok wrs \<and> length wrs \<le> SNAP_DMA_Q_MAX_WR_CNT \<and>
     n_bb = sum_list (map (\<lambda>w. wqe_bbs (length (wr_l_sgl w))) wrs)"
proof -
  obtain s where s: "sgl_inv a (length (ia_riov a)) s" "sl_wrs s = wrs" "sl_n_bb s = n_bb"
    using snap_dma_build_sgl_inv [OF assms] by blast
  have rk: "length (ia_rkey a) = length (ia_riov a)" using assms(1) by (simp add: io_attr_ok_def)
  have r: "wr_remote wrs = iovs_bytes (ia_riov a) (ia_rkey a)"
    using s rk by (auto simp: sgl_inv_def upto_pos_def)
  have "wr_local wrs = local_done a s" "local_inv a s" "length (wr_local wrs) = length (wr_remote wrs)"
    using s by (auto simp: sgl_inv_def)
  then have "wr_local wrs = take (sum_list (map iov_len (ia_riov a))) (iovs_bytes (ia_liov a) (ia_lkey a))"
    using local_done_prefix [OF assms(1), of s] r rk by (simp add: length_iovs_bytes)
  with r s show ?thesis by (auto simp: sgl_inv_def)
qed

text \<open>Counting requests: a request is closed early only when it is full.\<close>

definition count_inv :: "snap_dma_q_io_attr \<Rightarrow> nat \<Rightarrow> wr_state \<Rightarrow> bool" where
  "count_inv a i s \<longleftrightarrow> sl_j s \<le> length (ia_liov a) \<and> i \<le> length (sl_wrs s) \<and>
     SNAP_DMA_Q_MAX_SGE_NUM * (length (sl_wrs s) - i) + length (ws_l_sge s) \<le>
       sl_j s + i + (if ws_len_to_handle s = 0 then 1 else 0)"

lemma take_local_count:
  assumes "count_inv a i s" and "sl_j s < length (ia_liov a)" and "0 < ws_len_to_handle s"
  shows "count_inv a i (take_local a s)"
  using assms by (auto simp: count_inv_def take_local_def add_sge_def Let_def)

lemma sgl_while_count:
  assumes "count_inv a i s" and "i < length (ia_riov a)"
    and "length (ia_riov a) + (length (ia_liov a) + length (ia_riov a)) div SNAP_DMA_Q_MAX_SGE_NUM < SNAP_DMA_Q_MAX_WR_CNT"
  shows "\<exists>s'. sgl_while a i s = Some s' \<and> count_inv a i s'"
  using assms
proof (induction a i s rule: sgl_while.induct)
  case (1 a i s)
  let ?s1 = "take_local a s" and ?s2 = "close_wr a i (take_local a s)"
  let ?s3 = "?s2\<lparr>ws_wr_consumed_len := ws_wr_consumed_len ?s2 + ws_sge_total_len ?s2,
                  ws_l_sge := [], ws_sge_total_len := 0\<rparr>"
  show ?case
  proof (cases "sl_j s < length (ia_liov a) \<and> ws_len_to_handle s > 0")
    case False
    then have "sgl_while a i s = Some s" by (subst sgl_while.simps, subst if_not_P) auto
    with 1(3) show ?thesis by simp
  next
    case True
    then have c1: "count_inv a i ?s1" using 1(3) by (intro take_local_count) auto
    show ?thesis
    proof (cases "length (ws_l_sge ?s1) = SNAP_DMA_Q_MAX_SGE_NUM \<and> ws_len_to_handle ?s1 > 0")
      case full: True
      then have c3: "count_inv a i ?s3"
        using c1 by (auto simp: count_inv_def close_wr_def Suc_diff_le)
      have w: "\<not> length (sl_wrs ?s2) \<ge> SNAP_DMA_Q_MAX_WR_CNT"
        using c3 full 1(4,5) by (auto simp: count_inv_def close_wr_def)
      have "sgl_while a i s = sgl_while a i ?s3"
        using True full w by (subst sgl_while.simps) (simp add: Let_def)
      with 1(1) [OF True refl full refl w c3 1(4,5)] show ?thesis by simp
    next
      case nf: False
      then have "sgl_while a i s = sgl_while a i ?s1"
        using True by (subst sgl_while.simps) (auto simp: Let_def)
      with 1(2) [OF True refl nf c1 1(4,5)] show ?thesis by simp
    qed
  qed
qed

lemma sgl_for_count:
  assumes "length (ia_riov a) + (length (ia_liov a) + length (ia_riov a)) div SNAP_DMA_Q_MAX_SGE_NUM < SNAP_DMA_Q_MAX_WR_CNT"
    and "i + length riovs = length (ia_riov a)" and "sl_j s \<le> length (ia_liov a)" and "i \<le> length (sl_wrs s)"
    and "SNAP_DMA_Q_MAX_SGE_NUM * (length (sl_wrs s) - i) \<le> sl_j s + i"
  shows "sgl_for a i riovs s \<noteq> None"
  using assms(2-5)
proof (induction riovs arbitrary: i s)
  case (Cons r riovs)
  then have i: "i < length (ia_riov a)" by simp
  have room: "\<not> length (sl_wrs s) \<ge> SNAP_DMA_Q_MAX_WR_CNT" using Cons.prems assms(1) by auto
  let ?s0 = "sgl_state.extend s \<lparr>ws_len_to_handle = iov_len r, ws_sge_total_len = 0,
              ws_wr_consumed_len = 0, ws_l_sge = []\<rparr>"
  have "count_inv a i ?s0" using Cons.prems by (auto simp: count_inv_def sgl_state.defs)
  from sgl_while_count [OF this i assms(1)] obtain s1 where s1: "sgl_while a i ?s0 = Some s1" "count_inv a i s1"
    by blast
  have "sgl_for a (Suc i) riovs (sgl_state.truncate (close_wr a i s1)) \<noteq> None"
    using s1(2) Cons.prems(1)
    by (intro Cons.IH) (auto simp: count_inv_def close_wr_def sgl_state.defs split: if_splits)
  then show ?case using s1(1) room by simp
qed simp

text \<open>C30. The split fails only for large vectors: it succeeds whenever the number of remote
  buffers plus a twentieth of the number of buffers is below the limit of 128 requests.\<close>

theorem snap_dma_build_sgl_succeeds:
  assumes "length (ia_riov a) + (length (ia_liov a) + length (ia_riov a)) div SNAP_DMA_Q_MAX_SGE_NUM < SNAP_DMA_Q_MAX_WR_CNT"
  shows "\<exists>wrs n_bb. snap_dma_build_sgl a = Some (wrs, n_bb)"
  using sgl_for_count [OF assms, of 0 "ia_riov a" "\<lparr>sl_j = 0, sl_left = 0, sl_offset = 0, sl_wrs = [], sl_n_bb = 0\<rparr>"]
  by (auto simp: snap_dma_build_sgl_def)

definition io_attr0 :: snap_dma_q_io_attr where
  "io_attr0 = \<lparr>ia_lkey = [1, 2], ia_liov = [\<lparr>iov_base = 0x1000, iov_len = 3\<rparr>, \<lparr>iov_base = 0x2000, iov_len = 3\<rparr>],
     ia_rkey = [7, 8], ia_riov = [\<lparr>iov_base = 0x100, iov_len = 2\<rparr>, \<lparr>iov_base = 0x200, iov_len = 4\<rparr>]\<rparr>"

theorem build_sgl_succeeds_witness: "\<exists>wrs n_bb. snap_dma_build_sgl io_attr0 = Some (wrs, n_bb)"
  by (rule snap_dma_build_sgl_succeeds) (simp add: io_attr0_def)

theorem build_sgl_covers_witness:
  "\<exists>wrs. snap_dma_build_sgl io_attr0 = Some (wrs, 2) \<and> length wrs = 2 \<and>
     wr_remote wrs = [(0x100, 7), (0x101, 7), (0x200, 8), (0x201, 8), (0x202, 8), (0x203, 8)] \<and>
     wr_local wrs = [(0x1000, 1), (0x1001, 1), (0x1002, 1), (0x2000, 2), (0x2001, 2), (0x2002, 2)]"
proof -
  obtain wrs where e: "snap_dma_build_sgl io_attr0 = Some (wrs, 2)" and l: "length wrs = 2"
  proof -
    have "snap_dma_build_sgl io_attr0 = Some
      ([\<lparr>wr_l_sgl = [\<lparr>sg_addr = 0x1000, sg_length = 2, sg_lkey = 1\<rparr>],
         wr_r_sge = \<lparr>sg_addr = 0x100, sg_length = 2, sg_lkey = 7\<rparr>\<rparr>,
        \<lparr>wr_l_sgl = [\<lparr>sg_addr = 0x1002, sg_length = 1, sg_lkey = 1\<rparr>, \<lparr>sg_addr = 0x2000, sg_length = 3, sg_lkey = 2\<rparr>],
         wr_r_sge = \<lparr>sg_addr = 0x200, sg_length = 4, sg_lkey = 8\<rparr>\<rparr>], 2)"
      by code_simp
    then show ?thesis using that by simp
  qed
  have ok: "io_attr_ok io_attr0" by (simp add: io_attr_ok_def io_attr0_def)
  have b: "iovs_bytes (ia_riov io_attr0) (ia_rkey io_attr0) = [(0x100, 7), (0x101, 7), (0x200, 8), (0x201, 8), (0x202, 8), (0x203, 8)]"
    "iovs_bytes (ia_liov io_attr0) (ia_lkey io_attr0) = [(0x1000, 1), (0x1001, 1), (0x1002, 1), (0x2000, 2), (0x2001, 2), (0x2002, 2)]"
    by code_simp+
  from snap_dma_build_sgl_covers [OF ok _ e] e l show ?thesis
    unfolding b by (auto simp: io_attr0_def)
qed

end
