(* ===== verification/Byte_Memory.thy ===== *)
theory Byte_Memory
  imports Snap_Prelude
begin

text \<open>
  Memory as bytes: a buffer is a function from offsets to bytes, integers are stored little-endian,
  and a packed C structure is a fixed number of bytes. The locale \<open>packed\<close> is the contract of a
  structure (its size, and that reading a stored value gives the value back); it is interpreted for
  every structure of the development that crosses a memory buffer.
\<close>

section \<open>Byte memory\<close>

definition mem_put :: "nat \<Rightarrow> u8 list \<Rightarrow> (nat \<Rightarrow> u8) \<Rightarrow> (nat \<Rightarrow> u8)" where
  "mem_put off bs m = (\<lambda>x. if off \<le> x \<and> x < off + length bs then bs ! (x - off) else m x)"

definition mem_get :: "nat \<Rightarrow> nat \<Rightarrow> (nat \<Rightarrow> u8) \<Rightarrow> u8 list" where
  "mem_get off n m = map m [off..<off + n]"

lemma length_mem_get [simp]: "length (mem_get off n m) = n"
  by (simp add: mem_get_def)

lemma mem_put_out: "x < off \<or> off + length bs \<le> x \<Longrightarrow> mem_put off bs m x = m x"
  by (auto simp: mem_put_def)

lemma mem_put_in: "i < length bs \<Longrightarrow> mem_put off bs m (off + i) = bs ! i"
  by (simp add: mem_put_def)

lemma mem_get_put_out: "off + n \<le> a \<or> a + length bs \<le> off \<Longrightarrow> mem_get off n (mem_put a bs m) = mem_get off n m"
  by (auto simp: mem_get_def mem_put_def)

lemma mem_get_put_same: "n = length bs \<Longrightarrow> mem_get off n (mem_put off bs m) = bs"
  by (rule nth_equalityI) (auto simp: mem_get_def mem_put_def)

lemma mem_get_cong: "(\<And>j. j < n \<Longrightarrow> m (off + j) = m' (off + j)) \<Longrightarrow> mem_get off n m = mem_get off n m'"
  by (rule nth_equalityI) (simp_all add: mem_get_def)

section \<open>Little-endian integers\<close>

fun le_bytes :: "nat \<Rightarrow> 'a::len word \<Rightarrow> u8 list" where
  "le_bytes 0 w = []"
| "le_bytes (Suc n) w = ucast w # le_bytes n (drop_bit 8 w)"

fun le_word :: "u8 list \<Rightarrow> 'a::len word" where
  "le_word [] = 0"
| "le_word (b # bs) = ucast b OR push_bit 8 (le_word bs)"

lemma length_le_bytes [simp]: "length (le_bytes n w) = n"
  by (induction n arbitrary: w) simp_all

lemma le_word_take_bit: "le_word (le_bytes n (w :: 'a::len word)) = take_bit (8 * n) w"
proof (induction n arbitrary: w)
  case (Suc n)
  show ?case
    by (rule bit_eqI) (auto simp: Suc.IH bit_simps not_less)
qed simp

lemma le_word_le_bytes: "LENGTH('a) \<le> 8 * n \<Longrightarrow> le_word (le_bytes n (w :: 'a::len word)) = w"
  by (simp add: le_word_take_bit take_bit_word_eq_self)

section \<open>Packed structures\<close>

locale packed =
  fixes enc :: "'a \<Rightarrow> u8 list" and dec :: "u8 list \<Rightarrow> 'a" and sz :: nat
  assumes length_enc: "length (enc x) = sz"
    and dec_enc: "dec (enc x) = x"
begin

lemma load_store: "dec (mem_get off sz (mem_put off (enc x) m)) = x"
  by (simp add: mem_get_put_same length_enc dec_enc)

lemma load_other: "off + sz \<le> a \<or> a + length bs \<le> off \<Longrightarrow> dec (mem_get off sz (mem_put a bs m)) = dec (mem_get off sz m)"
  by (simp add: mem_get_put_out)

lemma store_out: "x < off \<or> off + sz \<le> x \<Longrightarrow> mem_put off (enc v) m x = m x"
  by (simp add: mem_put_out length_enc)

lemma enc_inj: "enc x = enc y \<longleftrightarrow> x = y"
  using dec_enc by metis

end

end
