(* ===== verification/Dma_Dv.thy ===== *)
theory Dma_Dv
  imports Dma_Sgl Byte_Memory
begin

text \<open>
  The DMA queue of \<^verbatim>\<open>src/snap_dma.c\<close>, \<^verbatim>\<open>src/snap_dma_dv.c\<close> and the inline
  functions of \<^verbatim>\<open>src/snap_dma_internal.h\<close>: work-queue entries are written into the
  send ring, credits are taken from \<^verbatim>\<open>tx_available\<close> and returned by completions.

  The send ring is a byte memory indexed by the offset from \<^verbatim>\<open>sq.addr\<close>, so that a write
  past its end is visible. Queue completions are identified by numbers; calling one is an event of
  the result. The segment setters of the rdma-core library are an argument (\<open>mlx5_api\<close>).
  Memory fences and the blue-flame write itself have no state; a rung doorbell is the copy of the
  producer index into the doorbell record.
\<close>

section \<open>Data\<close>

abbreviation (input) MLX5_SEND_WQE_BB :: nat where "MLX5_SEND_WQE_BB \<equiv> 64"
abbreviation (input) SNAP_DMA_Q_TX_MOD_COUNT :: int where "SNAP_DMA_Q_TX_MOD_COUNT \<equiv> 16"
abbreviation (input) SNAP_DMA_MAX_TX_COMPLETIONS :: nat where "SNAP_DMA_MAX_TX_COMPLETIONS \<equiv> 128"
abbreviation (input) SNAP_DMA_MAX_RX_COMPLETIONS :: nat where "SNAP_DMA_MAX_RX_COMPLETIONS \<equiv> 128"
abbreviation (input) MLX5_WQE_CTRL_CQ_UPDATE :: u8 where "MLX5_WQE_CTRL_CQ_UPDATE \<equiv> 8"
abbreviation (input) MLX5_WQE_CTRL_INITIATOR_SMALL_FENCE :: u8 where
  "MLX5_WQE_CTRL_INITIATOR_SMALL_FENCE \<equiv> 32"
abbreviation (input) MLX5_OPCODE_RDMA_WRITE :: u8 where "MLX5_OPCODE_RDMA_WRITE \<equiv> 0x08"
abbreviation (input) MLX5_OPCODE_SEND :: u8 where "MLX5_OPCODE_SEND \<equiv> 0x0A"
abbreviation (input) MLX5_OPCODE_SEND_IMM :: u8 where "MLX5_OPCODE_SEND_IMM \<equiv> 0x0B"
abbreviation (input) MLX5_OPCODE_RDMA_READ :: u8 where "MLX5_OPCODE_RDMA_READ \<equiv> 0x10"
abbreviation (input) MLX5_OPCODE_MMO :: u8 where "MLX5_OPCODE_MMO \<equiv> 0x2F"
abbreviation (input) MLX5_OPC_MOD_MMO_DMA :: u8 where "MLX5_OPC_MOD_MMO_DMA \<equiv> 0x1"
abbreviation (input) MLX5_INLINE_SEG :: u32 where "MLX5_INLINE_SEG \<equiv> 0x80000000"

type_synonym comp_id = nat

record snap_dv_dma_completion =
  c_n_outstanding :: int
  c_read_payload :: "u64 option"
  c_comp :: "comp_id option"

datatype snap_db_ring_flag = SNAP_DB_RING_BATCH | SNAP_DB_RING_IMM | SNAP_DB_RING_API

record snap_dv_qp =
  sq_mem :: "nat \<Rightarrow> u8"
  sq_wqe_cnt :: u32
  sq_pi :: u16
  sq_dbr :: u16
  rq_wqe_cnt :: u32
  rq_ci :: u16
  rq_dbr :: u16
  qp_num :: u32
  dv_n_outstanding :: int
  dv_opaque_lkey :: u32
  dv_opaque_buf :: u64
  dv_comps :: "snap_dv_dma_completion list"
  dv_db_flag :: snap_db_ring_flag
  dv_tx_need_ring_db :: bool
  dv_ctrl :: nat
  dv_tx_total_dbs :: nat
  dv_tx_total_completed :: nat
  dv_rx_total_dbs :: nat
  dv_rx_total_completed :: nat

text \<open>
  A completion-queue entry: owner bit and opcode as \<^verbatim>\<open>mlx5dv_get_cqe_owner\<close> and
  \<^verbatim>\<open>mlx5dv_get_cqe_opcode\<close> read them, the inline-scatter bits, and its other fields.
\<close>

record mlx5_cqe64 =
  cqe_owner :: bool
  cqe_opcode :: nat
  cqe_scatter32 :: bool
  cqe_scatter64 :: bool
  cqe_wqe_counter :: u16
  cqe_byte_cnt :: u32
  cqe_srqn_uidx :: nat
  cqe_imm :: u32
  cqe_syndrome :: int
  cqe_data :: "u8 list"

record snap_hw_cq =
  cq_ring :: "nat \<Rightarrow> mlx5_cqe64"
  cq_cqe_cnt :: u32
  cq_ci :: u32
  cq_num :: u32
  cq_sn :: u32
  cq_arm_dbrec :: u32
  cq_doorbell :: u64

datatype snap_dma_q_mode = SNAP_DMA_Q_MODE_DV | SNAP_DMA_Q_MODE_GGA

text \<open>\<open>dq_worker\<close> is \<^term>\<open>None\<close> for a queue without a worker, else whether the queue is on
  the worker's list of pending doorbells.\<close>

record snap_dma_q =
  dq_dv :: snap_dv_qp
  dq_tx_cq :: snap_hw_cq
  dq_rx_cq :: snap_hw_cq
  dq_tx_available :: int
  dq_tx_elem_size :: int
  dq_rx_elem_size :: int
  dq_rx_buf :: u64
  dq_mode :: snap_dma_q_mode
  dq_worker :: "bool option"

record mlx5_api =
  api_set_ctrl_seg :: "u8 list \<Rightarrow> u16 \<Rightarrow> u8 \<Rightarrow> u8 \<Rightarrow> u32 \<Rightarrow> u8 \<Rightarrow> u8 \<Rightarrow> u8 \<Rightarrow> u32 \<Rightarrow> u8 list"
  api_set_data_seg :: "u32 \<Rightarrow> u32 \<Rightarrow> u64 \<Rightarrow> u8 list"

section \<open>Byte orders\<close>

definition htobe32 :: "u32 \<Rightarrow> u8 list" where
  "htobe32 w = map (\<lambda>i. ucast (drop_bit (8 * i) w)) [3, 2, 1, 0]"

definition htobe64 :: "u64 \<Rightarrow> u8 list" where
  "htobe64 w = map (\<lambda>i. ucast (drop_bit (8 * i) w)) [7, 6, 5, 4, 3, 2, 1, 0]"

definition le32 :: "u32 \<Rightarrow> u8 list" where
  "le32 w = rev (htobe32 w)"

section \<open>Inline helpers of snap_dma_internal.h\<close>

definition qp_can_tx :: "snap_dma_q \<Rightarrow> nat \<Rightarrow> bool" where
  "qp_can_tx q bb_needed \<longleftrightarrow> dq_tx_available q \<ge> int bb_needed"

definition snap_dv_get_cq_update :: "snap_dv_qp \<Rightarrow> comp_id option \<Rightarrow> u8" where
  "snap_dv_get_cq_update dv cm =
     (if cm \<noteq> None \<or> dv_n_outstanding dv + 1 \<ge> SNAP_DMA_Q_TX_MOD_COUNT
      then MLX5_WQE_CTRL_CQ_UPDATE else 0)"

definition sq_index :: "snap_dv_qp \<Rightarrow> u16 \<Rightarrow> nat" where
  "sq_index dv pi = unat (ucast pi AND (sq_wqe_cnt dv - 1))"

definition snap_dv_get_wqe_bb_by_pi :: "snap_dv_qp \<Rightarrow> u16 \<Rightarrow> nat" where
  "snap_dv_get_wqe_bb_by_pi dv pi = sq_index dv pi * MLX5_SEND_WQE_BB"

definition snap_dv_get_wqe_bb :: "snap_dv_qp \<Rightarrow> nat" where
  "snap_dv_get_wqe_bb dv = sq_index dv (sq_pi dv) * MLX5_SEND_WQE_BB"

definition snap_set_ctrl_seg ::
  "mlx5_api \<Rightarrow> nat \<Rightarrow> u16 \<Rightarrow> u8 \<Rightarrow> u8 \<Rightarrow> u32 \<Rightarrow> u8 \<Rightarrow> u8 \<Rightarrow> u8 \<Rightarrow> u32 \<Rightarrow> (nat \<Rightarrow> u8) \<Rightarrow> (nat \<Rightarrow> u8)"
where
  "snap_set_ctrl_seg api ctrl pi opcode opmod qpn fm_ce_se ds signature imm m =
     (let m1 = mem_put (ctrl + 8) [0, 0, 0, 0] m
      in mem_put ctrl (api_set_ctrl_seg api (mem_get ctrl 16 m1) pi opcode opmod qpn
           fm_ce_se ds signature imm) m1)"

definition snap_dv_update_tx_db :: "snap_dv_qp \<Rightarrow> snap_dv_qp" where
  "snap_dv_update_tx_db dv = dv\<lparr>sq_dbr := sq_pi dv\<rparr>"

definition snap_dv_flush_tx_db :: "snap_dv_qp \<Rightarrow> snap_dv_qp" where
  "snap_dv_flush_tx_db dv = dv\<lparr>dv_tx_total_dbs := dv_tx_total_dbs dv + 1\<rparr>"

definition snap_dv_ring_tx_db :: "snap_dv_qp \<Rightarrow> snap_dv_qp" where
  "snap_dv_ring_tx_db dv = snap_dv_flush_tx_db (snap_dv_update_tx_db dv)"

definition snap_dv_update_rx_db :: "snap_dv_qp \<Rightarrow> snap_dv_qp" where
  "snap_dv_update_rx_db dv = dv\<lparr>rq_dbr := rq_ci dv, dv_rx_total_dbs := dv_rx_total_dbs dv + 1\<rparr>"

definition snap_dv_ring_rx_db :: "snap_dv_qp \<Rightarrow> snap_dv_qp" where
  "snap_dv_ring_rx_db dv = snap_dv_update_rx_db dv"

definition snap_dv_set_comp :: "nat \<Rightarrow> comp_id option \<Rightarrow> u8 \<Rightarrow> nat \<Rightarrow> snap_dv_qp \<Rightarrow> snap_dv_qp" where
  "snap_dv_set_comp idx cm fm_ce_se n_bb dv =
     (if fm_ce_se AND MLX5_WQE_CTRL_CQ_UPDATE \<noteq> MLX5_WQE_CTRL_CQ_UPDATE
      then dv\<lparr>dv_n_outstanding := dv_n_outstanding dv + int n_bb,
              dv_comps := (dv_comps dv)[idx := (dv_comps dv ! idx)\<lparr>c_comp := cm, c_n_outstanding := 0\<rparr>]\<rparr>
      else dv\<lparr>dv_n_outstanding := 0,
              dv_comps := (dv_comps dv)[idx := (dv_comps dv ! idx)
                \<lparr>c_comp := cm, c_n_outstanding := dv_n_outstanding dv + int n_bb\<rparr>]\<rparr>)"

definition snap_dv_wqe_submit :: "nat \<Rightarrow> snap_dma_q \<Rightarrow> snap_dma_q" where
  "snap_dv_wqe_submit ctrl q =
     (let dv = (dq_dv q)\<lparr>sq_pi := sq_pi (dq_dv q) + 1\<rparr>
      in if dv_db_flag dv = SNAP_DB_RING_BATCH
         then q\<lparr>dq_worker := map_option (\<lambda>pend. pend \<or> \<not> dv_tx_need_ring_db dv) (dq_worker q),
                dq_dv := dv\<lparr>dv_tx_need_ring_db := True, dv_ctrl := ctrl\<rparr>\<rparr>
         else q\<lparr>dq_dv := snap_dv_ring_tx_db dv\<rparr>)"

definition snap_dv_tx_complete :: "snap_dv_qp \<Rightarrow> snap_dv_qp" where
  "snap_dv_tx_complete dv =
     (if dv_tx_need_ring_db dv then snap_dv_ring_tx_db (dv\<lparr>dv_tx_need_ring_db := False\<rparr>) else dv)"

text \<open>The arm sequence number and consumer index, as written to the record and the doorbell.\<close>

definition snap_dv_arm_cq :: "snap_hw_cq \<Rightarrow> snap_hw_cq" where
  "snap_dv_arm_cq cq =
     (let sn = cq_sn cq AND 3; ci = cq_ci cq AND 0xFFFFFF; sn_ci_cmd = push_bit 28 sn OR ci
      in cq\<lparr>cq_arm_dbrec := sn_ci_cmd,
            cq_doorbell := push_bit 32 (ucast sn_ci_cmd) OR ucast (cq_num cq),
            cq_sn := cq_sn cq + 1\<rparr>)"

definition snap_dv_get_cqe :: "snap_hw_cq \<Rightarrow> mlx5_cqe64" where
  "snap_dv_get_cqe cq = cq_ring cq (unat (cq_ci cq AND (cq_cqe_cnt cq - 1)))"

abbreviation (input) MLX5_CQE_REQ :: nat where "MLX5_CQE_REQ \<equiv> 0"
abbreviation (input) MLX5_CQE_RESP_SEND :: nat where "MLX5_CQE_RESP_SEND \<equiv> 2"
abbreviation (input) MLX5_CQE_RESP_SEND_IMM :: nat where "MLX5_CQE_RESP_SEND_IMM \<equiv> 3"
abbreviation (input) MLX5_CQE_INVALID :: nat where "MLX5_CQE_INVALID \<equiv> 15"

definition snap_dv_poll_cq :: "snap_hw_cq \<Rightarrow> (mlx5_cqe64 \<times> snap_hw_cq) option" where
  "snap_dv_poll_cq cq =
     (let cqe = snap_dv_get_cqe cq
      in if cqe_owner cqe = (cq_ci cq AND cq_cqe_cnt cq = 0) then None
         else if cqe_opcode cqe = MLX5_CQE_INVALID then None
         else Some (cqe, cq\<lparr>cq_ci := cq_ci cq + 1\<rparr>))"

section \<open>Posting work requests: snap_dma_dv.c\<close>

definition snap_dv_set_comp_payload :: "nat \<Rightarrow> u64 \<Rightarrow> snap_dv_qp \<Rightarrow> snap_dv_qp" where
  "snap_dv_set_comp_payload idx buf dv =
     dv\<lparr>dv_comps := (dv_comps dv)[idx := (dv_comps dv ! idx)\<lparr>c_read_payload := Some buf\<rparr>]\<rparr>"

text \<open>
  The end of every posting function: the producer index moves past the \<open>n_bb\<close> building blocks
  of the entry in \<open>m\<close>, the entry is submitted, and the completion slot of its first block is
  filled.
\<close>

definition dv_commit_wqe :: "nat \<Rightarrow> comp_id option \<Rightarrow> u8 \<Rightarrow> (nat \<Rightarrow> u8) \<Rightarrow> snap_dma_q \<Rightarrow> snap_dma_q" where
  "dv_commit_wqe n_bb cm fm_ce_se m q =
     (let dv = dq_dv q;
          pi = sq_index dv (sq_pi dv);
          ctrl = snap_dv_get_wqe_bb dv;
          q = q\<lparr>dq_dv := dv\<lparr>sq_mem := m, sq_pi := sq_pi dv + of_nat n_bb - 1\<rparr>\<rparr>;
          q = snap_dv_wqe_submit ctrl q
      in q\<lparr>dq_dv := snap_dv_set_comp pi cm fm_ce_se n_bb (dq_dv q)\<rparr>)"

definition dv_xfer_wqe ::
  "mlx5_api \<Rightarrow> snap_dv_qp \<Rightarrow> u8 \<Rightarrow> u64 \<Rightarrow> u64 \<Rightarrow> u32 \<Rightarrow> u64 \<Rightarrow> u32 \<Rightarrow> u8 \<Rightarrow> (nat \<Rightarrow> u8)"
where
  "dv_xfer_wqe api dv fm_ce_se buf len lkey raddr rkey opc =
     (let ctrl = snap_dv_get_wqe_bb dv;
          m = snap_set_ctrl_seg api ctrl (sq_pi dv) opc 0 (qp_num dv) fm_ce_se 3 0 0 (sq_mem dv);
          m = mem_put (ctrl + 16) (htobe64 raddr) m;
          m = mem_put (ctrl + 24) (htobe32 rkey) m
      in mem_put (ctrl + 32) (api_set_data_seg api (ucast len) lkey buf) m)"

definition do_dv_dma_xfer ::
  "mlx5_api \<Rightarrow> snap_dma_q \<Rightarrow> u64 \<Rightarrow> u64 \<Rightarrow> u32 \<Rightarrow> u64 \<Rightarrow> u32 \<Rightarrow> u8 \<Rightarrow> u8 \<Rightarrow> comp_id option \<Rightarrow> bool \<Rightarrow> int \<times> snap_dma_q"
where
  "do_dv_dma_xfer api q buf len lkey raddr rkey opc flags cm use_fence =
     (let dv = dq_dv q;
          fm_ce_se = flags OR snap_dv_get_cq_update dv cm OR
            (if use_fence then MLX5_WQE_CTRL_INITIATOR_SMALL_FENCE else 0);
          comp_idx = sq_index dv (sq_pi dv);
          q = dv_commit_wqe 1 cm fm_ce_se (dv_xfer_wqe api dv fm_ce_se buf len lkey raddr rkey opc) q
      in (0, if flags \<noteq> 0 then q\<lparr>dq_dv := snap_dv_set_comp_payload comp_idx buf (dq_dv q)\<rparr> else q))"

definition dv_dma_q_write ::
  "mlx5_api \<Rightarrow> snap_dma_q \<Rightarrow> u64 \<Rightarrow> u64 \<Rightarrow> u32 \<Rightarrow> u64 \<Rightarrow> u32 \<Rightarrow> comp_id option \<Rightarrow> int \<times> snap_dma_q"
where
  "dv_dma_q_write api q src_buf len lkey dstaddr rmkey cm =
     do_dv_dma_xfer api q src_buf len lkey dstaddr rmkey MLX5_OPCODE_RDMA_WRITE 0 cm False"

definition dv_dma_q_read ::
  "mlx5_api \<Rightarrow> snap_dma_q \<Rightarrow> u64 \<Rightarrow> u64 \<Rightarrow> u32 \<Rightarrow> u64 \<Rightarrow> u32 \<Rightarrow> comp_id option \<Rightarrow> int \<times> snap_dma_q"
where
  "dv_dma_q_read api q dst_buf len lkey srcaddr rmkey cm =
     (let flags = (if len \<le> 32 then MLX5_WQE_CTRL_CQ_UPDATE else 0)
      in do_dv_dma_xfer api q dst_buf len lkey srcaddr rmkey MLX5_OPCODE_RDMA_READ flags cm False)"

definition dv_dma_q_read_short ::
  "mlx5_api \<Rightarrow> snap_dma_q \<Rightarrow> u64 \<Rightarrow> u64 \<Rightarrow> u64 \<Rightarrow> u32 \<Rightarrow> comp_id option \<Rightarrow> int \<times> snap_dma_q"
where
  "dv_dma_q_read_short api q dst_buf len srcaddr rmkey cm =
     do_dv_dma_xfer api q dst_buf len 0 srcaddr rmkey MLX5_OPCODE_RDMA_READ
       MLX5_WQE_CTRL_CQ_UPDATE cm False"

text \<open>
  Vector transfers. The data segments of one request are written one after the other and wrap to
  the start of the ring when it is full; \<open>to_end\<close> is the number of bytes left before its end.
\<close>

fun v2v_data_segs :: "nat \<Rightarrow> nat \<Rightarrow> nat \<Rightarrow> ibv_sge list \<Rightarrow> (nat \<Rightarrow> u8) \<Rightarrow> (nat \<Rightarrow> u8)" where
  "v2v_data_segs ring dseg to_end [] m = m"
| "v2v_data_segs ring dseg to_end (s # sgl) m =
     (let m = mem_put dseg (htobe32 (sg_length s)) m;
          m = mem_put (dseg + 4) (htobe32 (sg_lkey s)) m;
          m = mem_put (dseg + 8) (htobe64 (sg_addr s)) m;
          to_end = to_end - 16
      in if to_end \<noteq> 0 then v2v_data_segs ring (dseg + 16) to_end sgl m
         else v2v_data_segs ring 0 ring sgl m)"

definition v2v_wqe :: "mlx5_api \<Rightarrow> snap_dv_qp \<Rightarrow> u8 \<Rightarrow> u8 \<Rightarrow> dma_wr \<Rightarrow> (nat \<Rightarrow> u8)" where
  "v2v_wqe api dv fm_ce_se opc wr =
     (let ring = unat (sq_wqe_cnt dv) * MLX5_SEND_WQE_BB;
          to_end = ring - sq_index dv (sq_pi dv) * MLX5_SEND_WQE_BB;
          ctrl = snap_dv_get_wqe_bb dv;
          m = snap_set_ctrl_seg api ctrl (sq_pi dv) opc 0 (qp_num dv) fm_ce_se
                (of_nat (2 + length (wr_l_sgl wr))) 0 0 (sq_mem dv);
          m = mem_put (ctrl + 16) (htobe64 (sg_addr (wr_r_sge wr))) m;
          m = mem_put (ctrl + 24) (htobe32 (sg_lkey (wr_r_sge wr))) m;
          m = mem_put (ctrl + 28) [0, 0, 0, 0] m
      in v2v_data_segs ring (ctrl + 32) (to_end - 32) (wr_l_sgl wr) m)"

definition v2v_post_wr :: "mlx5_api \<Rightarrow> u8 \<Rightarrow> comp_id option \<Rightarrow> dma_wr \<Rightarrow> snap_dma_q \<Rightarrow> snap_dma_q" where
  "v2v_post_wr api opc c_cm wr q =
     (let fm_ce_se = snap_dv_get_cq_update (dq_dv q) c_cm
      in dv_commit_wqe (wqe_bbs (length (wr_l_sgl wr))) c_cm fm_ce_se
           (v2v_wqe api (dq_dv q) fm_ce_se opc wr) q)"

fun do_dv_dma_xfer_v2v :: "mlx5_api \<Rightarrow> u8 \<Rightarrow> comp_id option \<Rightarrow> dma_wr list \<Rightarrow> snap_dma_q \<Rightarrow> snap_dma_q" where
  "do_dv_dma_xfer_v2v api opc cm [] q = q"
| "do_dv_dma_xfer_v2v api opc cm (wr # wrs) q =
     (let c_cm = (if wrs \<noteq> [] then None else cm)
      in do_dv_dma_xfer_v2v api opc cm wrs (v2v_post_wr api opc c_cm wr q))"

definition dv_dma_q_writev2v ::
  "mlx5_api \<Rightarrow> snap_dma_q \<Rightarrow> snap_dma_q_io_attr \<Rightarrow> comp_id option \<Rightarrow> int \<times> nat \<times> snap_dma_q"
where
  "dv_dma_q_writev2v api q io_attr cm =
     (case snap_dma_build_sgl io_attr of
        None \<Rightarrow> (- EINVAL, 0, q)
      | Some (wrs, n_bb) \<Rightarrow>
          if \<not> qp_can_tx q n_bb then (- EAGAIN, n_bb, q)
          else (0, n_bb, do_dv_dma_xfer_v2v api MLX5_OPCODE_RDMA_WRITE cm wrs q))"

text \<open>The read variant posts writes too; its caller exchanges source and destination.\<close>

definition dv_dma_q_readv2v ::
  "mlx5_api \<Rightarrow> snap_dma_q \<Rightarrow> snap_dma_q_io_attr \<Rightarrow> comp_id option \<Rightarrow> int \<times> nat \<times> snap_dma_q"
where
  "dv_dma_q_readv2v api q io_attr cm =
     (case snap_dma_build_sgl io_attr of
        None \<Rightarrow> (- EINVAL, 0, q)
      | Some (wrs, n_bb) \<Rightarrow>
          if \<not> qp_can_tx q n_bb then (- EAGAIN, n_bb, q)
          else (0, n_bb, do_dv_dma_xfer_v2v api MLX5_OPCODE_RDMA_WRITE cm wrs q))"

text \<open>
  Inline data. \<^verbatim>\<open>wqe_size\<close> is 16-bit. The data starts after the segment headers and wraps
  to the start of the ring when it does not fit before its end. With \<open>is_flush\<close> the source
  is empty.
\<close>

definition inline_hdr :: "u8 \<Rightarrow> nat" where
  "inline_hdr opc = (if opc = MLX5_OPCODE_RDMA_WRITE then 36 else 20)"

definition inline_wqe_size :: "u8 \<Rightarrow> nat \<Rightarrow> bool \<Rightarrow> u16" where
  "inline_wqe_size opc len is_flush =
     of_nat (16 + 4 + len) + (if opc = MLX5_OPCODE_RDMA_WRITE then 16 else 0) -
     (if is_flush then 4 else 0)"

definition inline_copy :: "nat \<Rightarrow> nat \<Rightarrow> nat \<Rightarrow> u8 list \<Rightarrow> (nat \<Rightarrow> u8) \<Rightarrow> (nat \<Rightarrow> u8)" where
  "inline_copy pdata to_end sq_addr src m =
     (if length src > to_end
      then mem_put sq_addr (drop to_end src) (mem_put pdata (take to_end src) m)
      else mem_put pdata src m)"

definition inline_wqe ::
  "mlx5_api \<Rightarrow> snap_dv_qp \<Rightarrow> u8 \<Rightarrow> u8 list \<Rightarrow> u8 \<Rightarrow> u64 \<Rightarrow> u32 \<Rightarrow> bool \<Rightarrow> (nat \<Rightarrow> u8)"
where
  "inline_wqe api dv fm_ce_se src_buf opc raddr rkey is_flush =
     (let wqe_size = inline_wqe_size opc (length src_buf) is_flush;
          ctrl = snap_dv_get_wqe_bb dv;
          m = snap_set_ctrl_seg api ctrl (sq_pi dv) opc 0 (qp_num dv) fm_ce_se
                (ucast (round_up wqe_size 16)) 0 0 (sq_mem dv);
          m = (if opc = MLX5_OPCODE_RDMA_WRITE
               then mem_put (ctrl + 24) (htobe32 rkey) (mem_put (ctrl + 16) (htobe64 raddr) m)
               else m);
          dseg = ctrl + (inline_hdr opc - 4);
          m = mem_put dseg (htobe32 (of_nat (length src_buf) OR MLX5_INLINE_SEG)) m;
          pdata = dseg + 4;
          pi = sq_index dv (sq_pi dv);
          to_end = (unat (sq_wqe_cnt dv) - pi) * MLX5_SEND_WQE_BB - inline_hdr opc
      in if \<not> is_flush then inline_copy pdata to_end 0 src_buf m else m)"

definition do_dv_xfer_inline ::
  "mlx5_api \<Rightarrow> snap_dma_q \<Rightarrow> u8 list \<Rightarrow> u8 \<Rightarrow> u64 \<Rightarrow> u32 \<Rightarrow> comp_id option \<Rightarrow> bool \<Rightarrow> int \<times> nat \<times> snap_dma_q"
where
  "do_dv_xfer_inline api q src_buf opc raddr rkey flush_cm is_flush =
     (let wqe_size = inline_wqe_size opc (length src_buf) is_flush;
          n_bb = unat (round_up wqe_size (of_nat MLX5_SEND_WQE_BB))
      in if \<not> qp_can_tx q n_bb then (- EAGAIN, n_bb, q)
         else
           let fm_ce_se = (if is_flush then MLX5_WQE_CTRL_CQ_UPDATE
                           else snap_dv_get_cq_update (dq_dv q) flush_cm)
           in (0, n_bb, dv_commit_wqe n_bb flush_cm fm_ce_se
                (inline_wqe api (dq_dv q) fm_ce_se src_buf opc raddr rkey is_flush) q))"

definition dv_dma_q_send_completion :: "mlx5_api \<Rightarrow> snap_dma_q \<Rightarrow> u8 list \<Rightarrow> int \<times> nat \<times> snap_dma_q" where
  "dv_dma_q_send_completion api q src_buf =
     do_dv_xfer_inline api q src_buf MLX5_OPCODE_SEND 0 0 None False"

definition dv_dma_q_write_short ::
  "mlx5_api \<Rightarrow> snap_dma_q \<Rightarrow> u8 list \<Rightarrow> u64 \<Rightarrow> u32 \<Rightarrow> int \<times> nat \<times> snap_dma_q"
where
  "dv_dma_q_write_short api q src_buf dstaddr rmkey =
     do_dv_xfer_inline api q src_buf MLX5_OPCODE_RDMA_WRITE dstaddr rmkey None False"

definition dv_dma_q_flush_nowait :: "mlx5_api \<Rightarrow> snap_dma_q \<Rightarrow> comp_id option \<Rightarrow> int \<times> nat \<times> snap_dma_q" where
  "dv_dma_q_flush_nowait api q cm =
     do_dv_xfer_inline api q [] MLX5_OPCODE_RDMA_WRITE 0 0 cm True"

text \<open>
  A send with an inline part followed by a pointer segment. \<^term>\<open>None\<close> is a run that reads past
  the inline buffer: when the ring ends inside the padding or the pointer segment, the first copy
  takes \<open>to_end\<close> bytes of a shorter buffer and the length of the second one underflows.
\<close>

definition send_complement :: "nat \<Rightarrow> nat" where
  "send_complement in_len = (if (4 + in_len) mod 16 \<noteq> 0 then 16 - (4 + in_len) mod 16 else 0)"

definition send_wqe ::
  "mlx5_api \<Rightarrow> snap_dv_qp \<Rightarrow> u8 \<Rightarrow> u8 list \<Rightarrow> u64 \<Rightarrow> u32 \<Rightarrow> u32 \<Rightarrow> u8 \<Rightarrow> u32 \<Rightarrow> u16 \<Rightarrow> (nat \<Rightarrow> u8) option"
where
  "send_wqe api dv fm_ce_se in_buf addr len key opc imm wqe_size =
     (let in_len = length in_buf;
          complement = send_complement in_len;
          ctrl = snap_dv_get_wqe_bb dv;
          m = snap_set_ctrl_seg api ctrl (sq_pi dv) opc 0 (qp_num dv) fm_ce_se
                (ucast (round_up wqe_size 16)) 0 imm (sq_mem dv);
          m = mem_put (ctrl + 16) (htobe32 (of_nat in_len OR MLX5_INLINE_SEG)) m;
          pdata = ctrl + 20;
          pi = sq_index dv (sq_pi dv);
          to_end = (unat (sq_wqe_cnt dv) - pi) * MLX5_SEND_WQE_BB - 16 - 4
      in if in_len + complement + 16 > to_end
         then if in_len < to_end then None
              else let m = mem_put 0 (drop to_end in_buf) (mem_put pdata (take to_end in_buf) m)
                   in Some (mem_put (in_len - to_end + complement) (api_set_data_seg api len key addr) m)
         else Some (mem_put (pdata + in_len + complement) (api_set_data_seg api len key addr)
                (mem_put pdata in_buf m)))"

definition do_dv_send ::
  "mlx5_api \<Rightarrow> snap_dma_q \<Rightarrow> u8 list \<Rightarrow> u64 \<Rightarrow> u32 \<Rightarrow> u32 \<Rightarrow> u8 \<Rightarrow> u32 \<Rightarrow> (int \<times> nat \<times> snap_dma_q) option"
where
  "do_dv_send api q in_buf addr len key opc imm =
     (let in_len = length in_buf;
          wqe_size = of_nat (16 + 16 + 4 + in_len + send_complement in_len) :: u16;
          n_bb = unat (round_up wqe_size (of_nat MLX5_SEND_WQE_BB))
      in if \<not> qp_can_tx q n_bb then Some (- EAGAIN, n_bb, q)
         else
           let fm_ce_se = snap_dv_get_cq_update (dq_dv q) None
           in map_option (\<lambda>m. (0, n_bb, dv_commit_wqe n_bb None fm_ce_se m q))
                (send_wqe api (dq_dv q) fm_ce_se in_buf addr len key opc imm wqe_size))"

definition dv_dma_q_send ::
  "mlx5_api \<Rightarrow> snap_dma_q \<Rightarrow> u8 list \<Rightarrow> u64 \<Rightarrow> u32 \<Rightarrow> u32 \<Rightarrow> u32 option \<Rightarrow> (int \<times> nat \<times> snap_dma_q) option"
where
  "dv_dma_q_send api q in_buf addr len key imm =
     (case imm of
        Some i \<Rightarrow> do_dv_send api q in_buf addr len key MLX5_OPCODE_SEND_IMM i
      | None \<Rightarrow> do_dv_send api q in_buf addr len key MLX5_OPCODE_SEND 0)"

definition gga_wqe ::
  "mlx5_api \<Rightarrow> snap_dv_qp \<Rightarrow> u8 \<Rightarrow> u64 \<Rightarrow> u64 \<Rightarrow> u32 \<Rightarrow> u64 \<Rightarrow> u32 \<Rightarrow> (nat \<Rightarrow> u8)"
where
  "gga_wqe api dv fm_ce_se saddr len s_lkey daddr d_lkey =
     (let ctrl = snap_dv_get_wqe_bb dv;
          m = snap_set_ctrl_seg api ctrl (sq_pi dv) MLX5_OPCODE_MMO MLX5_OPC_MOD_MMO_DMA (qp_num dv)
                fm_ce_se 4 0 0 (sq_mem dv);
          m = mem_put (ctrl + 16) [0, 0, 0, 0] m;
          m = mem_put (ctrl + 20) (le32 (dv_opaque_lkey dv)) m;
          m = mem_put (ctrl + 24) (htobe64 (dv_opaque_buf dv)) m;
          m = mem_put (ctrl + 32) (api_set_data_seg api (ucast len) s_lkey saddr) m
      in mem_put (ctrl + 48) (api_set_data_seg api (ucast len) d_lkey daddr) m)"

definition do_gga_dma_xfer ::
  "mlx5_api \<Rightarrow> snap_dma_q \<Rightarrow> u64 \<Rightarrow> u64 \<Rightarrow> u32 \<Rightarrow> u64 \<Rightarrow> u32 \<Rightarrow> comp_id option \<Rightarrow> bool \<Rightarrow> int \<times> snap_dma_q"
where
  "do_gga_dma_xfer api q saddr len s_lkey daddr d_lkey cm use_fence =
     (let fm_ce_se = snap_dv_get_cq_update (dq_dv q) cm OR
            (if use_fence then MLX5_WQE_CTRL_INITIATOR_SMALL_FENCE else 0)
      in (0, dv_commit_wqe 1 cm fm_ce_se
               (gga_wqe api (dq_dv q) fm_ce_se saddr len s_lkey daddr d_lkey) q))"

definition gga_dma_q_write ::
  "mlx5_api \<Rightarrow> snap_dma_q \<Rightarrow> u64 \<Rightarrow> u64 \<Rightarrow> u32 \<Rightarrow> u64 \<Rightarrow> u32 \<Rightarrow> comp_id option \<Rightarrow> int \<times> snap_dma_q"
where
  "gga_dma_q_write api q src_buf len lkey dstaddr rmkey cm =
     do_gga_dma_xfer api q src_buf len lkey dstaddr rmkey cm False"

definition gga_dma_q_read ::
  "mlx5_api \<Rightarrow> snap_dma_q \<Rightarrow> u64 \<Rightarrow> u64 \<Rightarrow> u32 \<Rightarrow> u64 \<Rightarrow> u32 \<Rightarrow> comp_id option \<Rightarrow> int \<times> snap_dma_q"
where
  "gga_dma_q_read api q dst_buf len lkey srcaddr rmkey cm =
     do_gga_dma_xfer api q srcaddr len rmkey dst_buf lkey cm False"

section \<open>Completions\<close>

text \<open>
  \<open>copies\<close> are the inline payloads copied to read buffers; the payload pointer is cleared.
\<close>

definition dv_dma_q_get_comp ::
  "snap_dma_q \<Rightarrow> mlx5_cqe64 \<Rightarrow> comp_id option \<times> (u64 \<times> u8 list) list \<times> snap_dma_q"
where
  "dv_dma_q_get_comp q cqe =
     (let dv = dq_dv q;
          comp_idx = sq_index dv (cqe_wqe_counter cqe);
          e = dv_comps dv ! comp_idx;
          q = q\<lparr>dq_tx_available := dq_tx_available q + c_n_outstanding e\<rparr>
      in case c_read_payload e of
           Some buf \<Rightarrow>
             if cqe_scatter32 cqe
             then (c_comp e, [(buf, take (unat (cqe_byte_cnt cqe)) (cqe_data cqe))],
                   q\<lparr>dq_dv := dv\<lparr>dv_comps := (dv_comps dv)[comp_idx := e\<lparr>c_read_payload := None\<rparr>]\<rparr>\<rparr>)
             else (c_comp e, [], q)
         | None \<Rightarrow> (c_comp e, [], q))"

text \<open>
  The polling loop of \<^verbatim>\<open>dv_dma_q_progress_tx\<close>. \<open>err_cb\<close> is the optional error
  callback; an error it handled returns the credits but is not counted, so the loop is bounded by
  fuel as well, see \<open>tx_poll_fuel\<close> below.
\<close>

abbreviation (input) SNAP_DMA_Q_ERR_HANDLED :: int where "SNAP_DMA_Q_ERR_HANDLED \<equiv> 0"

fun tx_poll_loop ::
  "(mlx5_cqe64 \<Rightarrow> int) option \<Rightarrow> nat \<Rightarrow> nat \<Rightarrow> snap_dma_q \<Rightarrow>
   (mlx5_cqe64 \<times> comp_id option) list \<times> (u64 \<times> u8 list) list \<times> snap_dma_q"
where
  "tx_poll_loop err_cb 0 max_n q = ([], [], q)"
| "tx_poll_loop err_cb (Suc fuel) max_n q =
     (if max_n = 0 then ([], [], q)
      else case snap_dv_poll_cq (dq_tx_cq q) of
        None \<Rightarrow> ([], [], q)
      | Some (cqe, cq) \<Rightarrow>
          let (cm, cps, q') = dv_dma_q_get_comp (q\<lparr>dq_tx_cq := cq\<rparr>) cqe
          in if cqe_opcode cqe \<noteq> MLX5_CQE_REQ \<and>
                (case err_cb of Some f \<Rightarrow> f cqe = SNAP_DMA_Q_ERR_HANDLED | None \<Rightarrow> False)
             then let (cs, cps', q'') = tx_poll_loop err_cb fuel max_n q' in (cs, cps @ cps', q'')
             else let (cs, cps', q'') = tx_poll_loop err_cb fuel (max_n - 1) q'
                  in ((cqe, cm) # cs, cps @ cps', q''))"

text \<open>The callback loop: \<open>counts\<close> are the completion counters, the events the calls made.\<close>

fun run_comps :: "(mlx5_cqe64 \<times> comp_id option) list \<Rightarrow> (comp_id \<Rightarrow> int) \<Rightarrow> (comp_id \<times> int) list \<times> (comp_id \<Rightarrow> int)" where
  "run_comps [] counts = ([], counts)"
| "run_comps ((cqe, None) # cs) counts = run_comps cs counts"
| "run_comps ((cqe, Some c) # cs) counts =
     (let counts = counts(c := counts c - 1);
          status = (if cqe_opcode cqe \<noteq> MLX5_CQE_REQ then cqe_syndrome cqe else 0);
          (evs, counts') = run_comps cs counts
      in (if counts c = 0 then (c, status) # evs else evs, counts'))"

definition tx_poll_fuel :: "snap_dma_q \<Rightarrow> nat \<Rightarrow> nat" where
  "tx_poll_fuel q max_n = unat (cq_cqe_cnt (dq_tx_cq q)) + max_n"

record tx_result =
  tr_n :: nat
  tr_events :: "(comp_id \<times> int) list"
  tr_copies :: "(u64 \<times> u8 list) list"
  tr_counts :: "comp_id \<Rightarrow> int"

definition dv_dma_q_progress_tx ::
  "(mlx5_cqe64 \<Rightarrow> int) option \<Rightarrow> (comp_id \<Rightarrow> int) \<Rightarrow> snap_dma_q \<Rightarrow> int \<Rightarrow> tx_result \<times> snap_dma_q"
where
  "dv_dma_q_progress_tx err_cb counts q max_tx_comp =
     (let max_n = (if max_tx_comp = - 1 then SNAP_DMA_MAX_TX_COMPLETIONS
                   else unat (of_int max_tx_comp :: u16));
          (cs, cps, q) = tx_poll_loop err_cb (tx_poll_fuel q max_n) max_n q;
          (evs, counts) = run_comps cs counts;
          dv = snap_dv_tx_complete (dq_dv q);
          dv = dv\<lparr>dv_tx_total_completed := dv_tx_total_completed dv + length cs\<rparr>
      in (\<lparr>tr_n = length cs, tr_events = evs, tr_copies = cps, tr_counts = counts\<rparr>, q\<lparr>dq_dv := dv\<rparr>))"

definition dv_dma_q_complete_tx :: "snap_dma_q \<Rightarrow> snap_dma_q" where
  "dv_dma_q_complete_tx q = q\<lparr>dq_dv := snap_dv_tx_complete (dq_dv q)\<rparr>"

text \<open>Received data is either in the entry itself or in the buffer of the receive ring.\<close>

datatype rx_data = RxInline "u8 list" | RxBuf u64

record snap_rx_completion =
  rx_payload :: rx_data
  rx_byte_len :: u32
  rx_imm :: u32

definition dv_dma_q_get_rx_comp :: "snap_dma_q \<Rightarrow> mlx5_cqe64 \<Rightarrow> snap_rx_completion" where
  "dv_dma_q_get_rx_comp q cqe =
     \<lparr>rx_payload = (if cqe_scatter64 cqe \<or> cqe_scatter32 cqe then RxInline (cqe_data cqe)
        else RxBuf (dq_rx_buf q +
          of_int (int (unat (ucast (cqe_wqe_counter cqe) AND (rq_wqe_cnt (dq_dv q) - 1))) * dq_rx_elem_size q))),
      rx_byte_len = cqe_byte_cnt cqe, rx_imm = cqe_imm cqe\<rparr>"

text \<open>
  The receive polling loop: the completions gathered, whether an error entry ended it, and the
  queue with the entries consumed.
\<close>

fun rx_poll_loop :: "nat \<Rightarrow> snap_dma_q \<Rightarrow> snap_rx_completion list \<times> bool \<times> snap_dma_q" where
  "rx_poll_loop 0 q = ([], False, q)"
| "rx_poll_loop (Suc n) q =
     (case snap_dv_poll_cq (dq_rx_cq q) of
        None \<Rightarrow> ([], False, q)
      | Some (cqe, cq) \<Rightarrow>
          let q' = q\<lparr>dq_rx_cq := cq\<rparr>
          in if cqe_opcode cqe \<noteq> MLX5_CQE_RESP_SEND \<and> cqe_opcode cqe \<noteq> MLX5_CQE_RESP_SEND_IMM
             then ([], True, q')
             else let (cs, err, q'') = rx_poll_loop n q' in (dv_dma_q_get_rx_comp q' cqe # cs, err, q''))"

text \<open>
  \<^verbatim>\<open>dv_dma_q_progress_rx\<close>: the result is the return value, the completions handed to the
  receive callback, and the queue. An error entry makes it return before any callback is made.
\<close>

definition dv_dma_q_progress_rx :: "snap_dma_q \<Rightarrow> nat \<times> snap_rx_completion list \<times> snap_dma_q" where
  "dv_dma_q_progress_rx q =
     (let (cs, err, q) = rx_poll_loop SNAP_DMA_MAX_RX_COMPLETIONS q; n = length cs
      in if err then (n, [], q)
         else if n = 0 then (0, [], q)
         else let dv = dq_dv q;
                  dv = snap_dv_ring_rx_db (dv\<lparr>rq_ci := rq_ci dv + of_nat n\<rparr>);
                  dv = dv\<lparr>dv_rx_total_completed := dv_rx_total_completed dv + n\<rparr>
              in (n, cs, q\<lparr>dq_dv := dv\<rparr>))"

definition dv_dma_q_poll_rx :: "snap_dma_q \<Rightarrow> nat \<Rightarrow> nat \<times> snap_rx_completion list \<times> snap_dma_q" where
  "dv_dma_q_poll_rx q max_completions =
     (let (cs, err, q) = rx_poll_loop (max 1 max_completions) q; n = length cs
      in if err then (n, cs, q)
         else if n = 0 then (0, [], q)
         else let dv = dq_dv q
              in (n, cs, q\<lparr>dq_dv := snap_dv_ring_rx_db (dv\<lparr>rq_ci := rq_ci dv + of_nat n\<rparr>)\<rparr>))"

text \<open>
  \<^verbatim>\<open>dv_dma_q_poll_tx\<close> counts only the completions whose counter reaches zero, so its loop
  is bounded by fuel like the one above.
\<close>

fun poll_tx_loop ::
  "nat \<Rightarrow> nat \<Rightarrow> (comp_id \<Rightarrow> int) \<Rightarrow> snap_dma_q \<Rightarrow> comp_id list \<times> (comp_id \<Rightarrow> int) \<times> snap_dma_q"
where
  "poll_tx_loop 0 max_n counts q = ([], counts, q)"
| "poll_tx_loop (Suc fuel) max_n counts q =
     (case snap_dv_poll_cq (dq_tx_cq q) of
        None \<Rightarrow> ([], counts, q)
      | Some (cqe, cq) \<Rightarrow>
          let (cm, _, q') = dv_dma_q_get_comp (q\<lparr>dq_tx_cq := cq\<rparr>) cqe
          in case cm of
               Some c \<Rightarrow>
                 let counts = counts(c := counts c - 1)
                 in if counts c = 0
                    then if max_n \<le> 1 then ([c], counts, q')
                         else let (cs, counts, q'') = poll_tx_loop fuel (max_n - 1) counts q'
                              in (c # cs, counts, q'')
                    else if max_n = 0 then ([], counts, q')
                    else poll_tx_loop fuel max_n counts q'
             | None \<Rightarrow> if max_n = 0 then ([], counts, q') else poll_tx_loop fuel max_n counts q')"

definition dv_dma_q_poll_tx ::
  "(comp_id \<Rightarrow> int) \<Rightarrow> snap_dma_q \<Rightarrow> nat \<Rightarrow> comp_id list \<times> (comp_id \<Rightarrow> int) \<times> snap_dma_q"
where
  "dv_dma_q_poll_tx counts q max_completions =
     (let q = q\<lparr>dq_dv := snap_dv_tx_complete (dq_dv q)\<rparr>
      in poll_tx_loop (tx_poll_fuel q 1) max_completions counts q)"

definition dv_dma_q_arm :: "snap_dma_q \<Rightarrow> int \<times> snap_dma_q" where
  "dv_dma_q_arm q =
     (0, q\<lparr>dq_dv := (snap_dv_tx_complete (dq_dv q))\<lparr>dv_db_flag := SNAP_DB_RING_IMM\<rparr>,
           dq_tx_cq := (if cq_cqe_cnt (dq_tx_cq q) \<noteq> 0 then snap_dv_arm_cq (dq_tx_cq q) else dq_tx_cq q),
           dq_rx_cq := (if cq_cqe_cnt (dq_rx_cq q) \<noteq> 0 then snap_dv_arm_cq (dq_rx_cq q) else dq_rx_cq q)\<rparr>)"

definition snap_dma_q_dv_get_tx_avail_max :: "snap_dma_q \<Rightarrow> int" where
  "snap_dma_q_dv_get_tx_avail_max q =
     min (int (unat (sq_wqe_cnt (dq_dv q)))) (int (unat (cq_cqe_cnt (dq_tx_cq q))))"

definition dv_dma_q_empty :: "snap_dma_q \<Rightarrow> bool" where
  "dv_dma_q_empty q \<longleftrightarrow> dq_tx_available q = snap_dma_q_dv_get_tx_avail_max q"

text \<open>
  Waiting for the hardware. \<open>hw\<close> is what the device does to the completion ring between two
  progress calls; a wait that the device never satisfies is \<^term>\<open>None\<close>.
\<close>

partial_function (option) wait_tx ::
  "(snap_dma_q \<Rightarrow> snap_dma_q) \<Rightarrow> (mlx5_cqe64 \<Rightarrow> int) option \<Rightarrow> int \<Rightarrow> int \<Rightarrow> (comp_id \<Rightarrow> int) \<Rightarrow>
   snap_dma_q \<Rightarrow> (int \<times> (comp_id \<Rightarrow> int) \<times> snap_dma_q) option"
where
  "wait_tx hw err_cb want n counts q =
     (if dq_tx_available q < want
      then let (r, q') = dv_dma_q_progress_tx err_cb counts (hw q) (- 1)
           in wait_tx hw err_cb want (n + int (tr_n r)) (tr_counts r) q'
      else Some (n, counts, q))"

declare wait_tx.simps [code]

definition dv_dma_q_flush ::
  "mlx5_api \<Rightarrow> (snap_dma_q \<Rightarrow> snap_dma_q) \<Rightarrow> (mlx5_cqe64 \<Rightarrow> int) option \<Rightarrow> (comp_id \<Rightarrow> int) \<Rightarrow>
   snap_dma_q \<Rightarrow> (int \<times> (comp_id \<Rightarrow> int) \<times> snap_dma_q) option"
where
  "dv_dma_q_flush api hw err_cb counts q =
     (case wait_tx hw err_cb 1 0 counts q of
        None \<Rightarrow> None
      | Some (n, counts, q) \<Rightarrow>
          let n_out = dv_n_outstanding (dq_dv q);
              (n, q) = (if n_out \<noteq> 0
                 then let (_, n_bb, q) = do_dv_xfer_inline api q [] MLX5_OPCODE_RDMA_WRITE 0 0 None True
                      in (n - 1, q\<lparr>dq_tx_available := dq_tx_available q - int n_bb\<rparr>)
                 else (n, q))
          in case wait_tx hw err_cb (snap_dma_q_dv_get_tx_avail_max q) n counts q of
               None \<Rightarrow> None
             | Some (n, counts, q) \<Rightarrow> Some (n_out + n, counts, q))"

section \<open>The queue interface: snap_dma.c\<close>

text \<open>
  The operation tables \<^verbatim>\<open>dv_ops\<close> and \<^verbatim>\<open>gga_ops\<close> differ in \<^verbatim>\<open>write\<close>
  and \<^verbatim>\<open>read\<close> (and in the encrypting operations, which are not modelled).
\<close>

definition ops_write ::
  "mlx5_api \<Rightarrow> snap_dma_q \<Rightarrow> u64 \<Rightarrow> u64 \<Rightarrow> u32 \<Rightarrow> u64 \<Rightarrow> u32 \<Rightarrow> comp_id option \<Rightarrow> int \<times> snap_dma_q"
where
  "ops_write api q =
     (case dq_mode q of SNAP_DMA_Q_MODE_DV \<Rightarrow> dv_dma_q_write api q | SNAP_DMA_Q_MODE_GGA \<Rightarrow> gga_dma_q_write api q)"

definition ops_read ::
  "mlx5_api \<Rightarrow> snap_dma_q \<Rightarrow> u64 \<Rightarrow> u64 \<Rightarrow> u32 \<Rightarrow> u64 \<Rightarrow> u32 \<Rightarrow> comp_id option \<Rightarrow> int \<times> snap_dma_q"
where
  "ops_read api q =
     (case dq_mode q of SNAP_DMA_Q_MODE_DV \<Rightarrow> dv_dma_q_read api q | SNAP_DMA_Q_MODE_GGA \<Rightarrow> gga_dma_q_read api q)"

definition take_credits :: "int \<times> nat \<times> snap_dma_q \<Rightarrow> int \<times> snap_dma_q" where
  "take_credits r =
     (let (rc, n_bb, q) = r
      in if rc \<noteq> 0 then (rc, q) else (0, q\<lparr>dq_tx_available := dq_tx_available q - int n_bb\<rparr>))"

definition snap_dma_q_write ::
  "mlx5_api \<Rightarrow> snap_dma_q \<Rightarrow> u64 \<Rightarrow> u64 \<Rightarrow> u32 \<Rightarrow> u64 \<Rightarrow> u32 \<Rightarrow> comp_id option \<Rightarrow> int \<times> snap_dma_q"
where
  "snap_dma_q_write api q src_buf len lkey dstaddr rmkey cm =
     (if \<not> qp_can_tx q 1 then (- EAGAIN, q)
      else let (rc, q) = ops_write api q src_buf len lkey dstaddr rmkey cm
           in if rc \<noteq> 0 then (rc, q) else (0, q\<lparr>dq_tx_available := dq_tx_available q - 1\<rparr>))"

definition snap_dma_q_read ::
  "mlx5_api \<Rightarrow> snap_dma_q \<Rightarrow> u64 \<Rightarrow> u64 \<Rightarrow> u32 \<Rightarrow> u64 \<Rightarrow> u32 \<Rightarrow> comp_id option \<Rightarrow> int \<times> snap_dma_q"
where
  "snap_dma_q_read api q dst_buf len lkey srcaddr rmkey cm =
     (if \<not> qp_can_tx q 1 then (- EAGAIN, q)
      else let (rc, q) = ops_read api q dst_buf len lkey srcaddr rmkey cm
           in if rc \<noteq> 0 then (rc, q) else (0, q\<lparr>dq_tx_available := dq_tx_available q - 1\<rparr>))"

definition snap_dma_q_read_short ::
  "mlx5_api \<Rightarrow> snap_dma_q \<Rightarrow> u64 \<Rightarrow> u64 \<Rightarrow> u64 \<Rightarrow> u32 \<Rightarrow> comp_id option \<Rightarrow> int \<times> snap_dma_q"
where
  "snap_dma_q_read_short api q dst_buf len srcaddr rmkey cm =
     (if len > 32 then (- EINVAL, q)
      else if \<not> qp_can_tx q 1 then (- EAGAIN, q)
      else let (rc, q) = dv_dma_q_read_short api q dst_buf len srcaddr rmkey cm
           in if rc \<noteq> 0 then (rc, q) else (0, q\<lparr>dq_tx_available := dq_tx_available q - 1\<rparr>))"

definition share_keys :: "bool \<Rightarrow> u32 list \<Rightarrow> nat \<Rightarrow> u32 list" where
  "share_keys share mkey cnt = (if share then replicate cnt (hd mkey) else mkey)"

definition snap_dma_q_writev2v ::
  "mlx5_api \<Rightarrow> snap_dma_q \<Rightarrow> u32 list \<Rightarrow> iovec list \<Rightarrow> u32 list \<Rightarrow> iovec list \<Rightarrow> bool \<Rightarrow> bool \<Rightarrow>
   comp_id option \<Rightarrow> int \<times> snap_dma_q"
where
  "snap_dma_q_writev2v api q src_mkey src_iov dst_mkey dst_iov share_src_mkey share_dst_mkey cm =
     take_credits (dv_dma_q_writev2v api q
       \<lparr>ia_lkey = share_keys share_src_mkey src_mkey (length src_iov), ia_liov = src_iov,
        ia_rkey = share_keys share_dst_mkey dst_mkey (length dst_iov), ia_riov = dst_iov\<rparr> cm)"

definition snap_dma_q_readv2v ::
  "mlx5_api \<Rightarrow> snap_dma_q \<Rightarrow> u32 list \<Rightarrow> iovec list \<Rightarrow> u32 list \<Rightarrow> iovec list \<Rightarrow> bool \<Rightarrow> bool \<Rightarrow>
   comp_id option \<Rightarrow> int \<times> snap_dma_q"
where
  "snap_dma_q_readv2v api q dst_mkey dst_iov src_mkey src_iov share_dst_mkey share_src_mkey cm =
     take_credits (dv_dma_q_readv2v api q
       \<lparr>ia_lkey = share_keys share_src_mkey src_mkey (length src_iov), ia_liov = src_iov,
        ia_rkey = share_keys share_dst_mkey dst_mkey (length dst_iov), ia_riov = dst_iov\<rparr> cm)"

definition snap_dma_q_write_short ::
  "mlx5_api \<Rightarrow> snap_dma_q \<Rightarrow> u8 list \<Rightarrow> u64 \<Rightarrow> u32 \<Rightarrow> int \<times> snap_dma_q"
where
  "snap_dma_q_write_short api q src_buf dstaddr rmkey =
     (if int (length src_buf) > dq_tx_elem_size q then (- EINVAL, q)
      else take_credits (dv_dma_q_write_short api q src_buf dstaddr rmkey))"

definition snap_dma_q_send_completion :: "mlx5_api \<Rightarrow> snap_dma_q \<Rightarrow> u8 list \<Rightarrow> int \<times> snap_dma_q" where
  "snap_dma_q_send_completion api q src_buf =
     (if int (length src_buf) > dq_tx_elem_size q then (- EINVAL, q)
      else take_credits (dv_dma_q_send_completion api q src_buf))"

definition snap_dma_q_flush_nowait :: "mlx5_api \<Rightarrow> snap_dma_q \<Rightarrow> comp_id option \<Rightarrow> int \<times> snap_dma_q" where
  "snap_dma_q_flush_nowait api q cm = take_credits (dv_dma_q_flush_nowait api q cm)"

definition snap_dma_q_send ::
  "mlx5_api \<Rightarrow> snap_dma_q \<Rightarrow> u8 list \<Rightarrow> u64 \<Rightarrow> u32 \<Rightarrow> u32 \<Rightarrow> u32 option \<Rightarrow> (int \<times> snap_dma_q) option"
where
  "snap_dma_q_send api q in_buf addr len key imm =
     map_option take_credits (dv_dma_q_send api q in_buf addr len key imm)"

definition snap_dma_q_progress ::
  "(mlx5_cqe64 \<Rightarrow> int) option \<Rightarrow> (comp_id \<Rightarrow> int) \<Rightarrow> snap_dma_q \<Rightarrow>
   nat \<times> tx_result \<times> snap_rx_completion list \<times> snap_dma_q"
where
  "snap_dma_q_progress err_cb counts q =
     (let (r, q) = dv_dma_q_progress_tx err_cb counts q (- 1);
          (n, rx, q) = dv_dma_q_progress_rx q
      in (tr_n r + n, r, rx, q))"

end
