(* ===== verification/Dma_Credits.thy ===== *)
theory Dma_Credits
  imports Dma_Dv
begin

text \<open>
  Credit accounting of the DMA queue. Every interface call that succeeds posts a sequence of
  requests whose effect on the producer index, the moderation counter and the completion slots is
  \<open>posted1\<close>; every completion returns the credits recorded in its slot. The invariant
  \<open>credit_inv\<close> relates the free credits, the moderation counter and the signalled requests in
  flight.
\<close>


text \<open>The completion slots: the credits a completion returns and the completion object it is for.\<close>

definition slots :: "snap_dv_qp \<Rightarrow> (int \<times> comp_id option) list" where
  "slots dv = map (\<lambda>e. (c_n_outstanding e, c_comp e)) (dv_comps dv)"

definition credits :: "snap_dv_qp \<Rightarrow> int list" where
  "credits dv = map c_n_outstanding (dv_comps dv)"

lemma credits_slots: "credits dv = map fst (slots dv)"
  by (simp add: credits_def slots_def)

text \<open>A posted request: its building blocks, whether it is signalled and its completion object.\<close>

type_synonym posted_wqe = "nat \<times> bool \<times> comp_id option"

text \<open>Every posted entry is announced: by the doorbell record or by the pending-doorbell flag.\<close>

definition db_inv :: "snap_dma_q \<Rightarrow> bool" where
  "db_inv q \<longleftrightarrow> dv_tx_need_ring_db (dq_dv q) \<or> sq_dbr (dq_dv q) = sq_pi (dq_dv q)"

definition posted1 :: "snap_dma_q \<Rightarrow> posted_wqe \<Rightarrow> snap_dma_q \<Rightarrow> bool" where
  "posted1 q w q' =
     (let dv = dq_dv q; dv' = dq_dv q'; n = fst w; sig = fst (snd w); cm = snd (snd w); out = dv_n_outstanding dv
      in 1 \<le> n \<and> (\<not> sig \<longrightarrow> out + 1 < SNAP_DMA_Q_TX_MOD_COUNT) \<and>
         sq_pi dv' = sq_pi dv + of_nat n \<and> sq_wqe_cnt dv' = sq_wqe_cnt dv \<and>
         dq_tx_cq q' = dq_tx_cq q \<and> db_inv q' \<and>
         dq_tx_available q' = dq_tx_available q \<and>
         dv_n_outstanding dv' = (if sig then 0 else out + int n) \<and>
         slots dv' = (slots dv)[sq_index dv (sq_pi dv) := (if sig then out + int n else 0, cm)])"

lemma posted1_credits:
  "posted1 q (n, sig, cm) q' \<Longrightarrow> credits (dq_dv q') =
     (credits (dq_dv q))[sq_index (dq_dv q) (sq_pi (dq_dv q)) := (if sig then dv_n_outstanding (dq_dv q) + int n else 0)]"
  by (simp add: posted1_def Let_def credits_slots map_update)

lemma submit_simps [simp]:
  "dq_tx_available (snap_dv_wqe_submit c q) = dq_tx_available q"
  "dq_tx_cq (snap_dv_wqe_submit c q) = dq_tx_cq q"
  "sq_pi (dq_dv (snap_dv_wqe_submit c q)) = sq_pi (dq_dv q) + 1"
  "sq_wqe_cnt (dq_dv (snap_dv_wqe_submit c q)) = sq_wqe_cnt (dq_dv q)"
  "dv_n_outstanding (dq_dv (snap_dv_wqe_submit c q)) = dv_n_outstanding (dq_dv q)"
  "dv_comps (dq_dv (snap_dv_wqe_submit c q)) = dv_comps (dq_dv q)"
  "sq_mem (dq_dv (snap_dv_wqe_submit c q)) = sq_mem (dq_dv q)"
  by (simp_all add: snap_dv_wqe_submit_def Let_def snap_dv_ring_tx_db_def snap_dv_flush_tx_db_def
      snap_dv_update_tx_db_def)

lemma submit_db: "db_inv (snap_dv_wqe_submit c q)"
  by (simp add: db_inv_def snap_dv_wqe_submit_def Let_def snap_dv_ring_tx_db_def snap_dv_flush_tx_db_def
      snap_dv_update_tx_db_def)

lemma db_inv_set_comp: "db_inv (q\<lparr>dq_dv := snap_dv_set_comp i c f n (dq_dv q)\<rparr>) = db_inv q"
  "db_inv (q\<lparr>dq_dv := snap_dv_set_comp_payload i b (dq_dv q)\<rparr>) = db_inv q"
  by (simp_all add: db_inv_def snap_dv_set_comp_def snap_dv_set_comp_payload_def)

lemma set_comp_simps [simp]:
  "sq_pi (snap_dv_set_comp i c f n dv) = sq_pi dv"
  "sq_wqe_cnt (snap_dv_set_comp i c f n dv) = sq_wqe_cnt dv"
  "sq_mem (snap_dv_set_comp i c f n dv) = sq_mem dv"
  by (simp_all add: snap_dv_set_comp_def)

lemma set_comp_payload_simps [simp]:
  "sq_pi (snap_dv_set_comp_payload i b dv) = sq_pi dv"
  "sq_wqe_cnt (snap_dv_set_comp_payload i b dv) = sq_wqe_cnt dv"
  "dv_n_outstanding (snap_dv_set_comp_payload i b dv) = dv_n_outstanding dv"
  "slots (snap_dv_set_comp_payload i b dv) = slots dv"
  by (simp_all add: snap_dv_set_comp_payload_def slots_def
      map_list_update_same)

lemma set_comp_out:
  "dv_n_outstanding (snap_dv_set_comp i c f n dv) =
     (if f AND MLX5_WQE_CTRL_CQ_UPDATE = MLX5_WQE_CTRL_CQ_UPDATE then 0 else dv_n_outstanding dv + int n)"
  "slots (snap_dv_set_comp i c f n dv) = (slots dv)[i :=
     (if f AND MLX5_WQE_CTRL_CQ_UPDATE = MLX5_WQE_CTRL_CQ_UPDATE then dv_n_outstanding dv + int n else 0, c)]"
  by (simp_all add: snap_dv_set_comp_def slots_def map_update)

lemma sq_index_cong: "sq_wqe_cnt dv' = sq_wqe_cnt dv \<Longrightarrow> sq_index dv' pi = sq_index dv pi"
  by (simp add: sq_index_def)

lemma and_pow2_eq: "w AND 2 ^ k = 2 ^ k \<longleftrightarrow> bit w k" if "k < LENGTH('a)" for w :: "'a::len word"
proof
  assume "w AND 2 ^ k = 2 ^ k"
  then have "bit (w AND 2 ^ k) k" using that by (simp add: bit_simps)
  then show "bit w k" by (simp add: bit_simps)
next
  assume "bit w k"
  then show "w AND 2 ^ k = 2 ^ k" by (intro bit_word_eqI) (auto simp: bit_simps)
qed

lemma cq_flag_bit: "w AND MLX5_WQE_CTRL_CQ_UPDATE = MLX5_WQE_CTRL_CQ_UPDATE \<longleftrightarrow> bit w 3"
  using and_pow2_eq [of 3, where 'a = 8] by simp

lemma cq_update_flag:
  "(flags OR snap_dv_get_cq_update dv cm OR (if fence then MLX5_WQE_CTRL_INITIATOR_SMALL_FENCE else 0)) AND
     MLX5_WQE_CTRL_CQ_UPDATE = MLX5_WQE_CTRL_CQ_UPDATE \<longleftrightarrow>
   flags AND MLX5_WQE_CTRL_CQ_UPDATE = MLX5_WQE_CTRL_CQ_UPDATE \<or> cm \<noteq> None \<or>
   dv_n_outstanding dv + 1 \<ge> SNAP_DMA_Q_TX_MOD_COUNT"
  unfolding cq_flag_bit by (auto simp: snap_dv_get_cq_update_def bit_simps)

lemma cq_update_set: "bit MLX5_WQE_CTRL_CQ_UPDATE 3"
  by (simp add: cq_flag_bit [symmetric])

lemma commit_posted:
  assumes "1 \<le> n" and "\<not> bit fm 3 \<Longrightarrow> dv_n_outstanding (dq_dv q) + 1 < SNAP_DMA_Q_TX_MOD_COUNT"
  shows "posted1 q (n, bit fm 3, cm) (dv_commit_wqe n cm fm m q)"
proof -
  let ?q1 = "q\<lparr>dq_dv := (dq_dv q)\<lparr>sq_mem := m, sq_pi := sq_pi (dq_dv q) + of_nat n - 1\<rparr>\<rparr>"
  have c: "slots (dq_dv (snap_dv_wqe_submit c ?q1)) = slots (dq_dv q)" for c
    by (simp add: slots_def)
  show ?thesis
    unfolding posted1_def dv_commit_wqe_def Let_def
    using assms by (simp add: set_comp_out c cq_flag_bit db_inv_set_comp submit_db)
qed

lemma cq_update_bit:
  "bit (snap_dv_get_cq_update dv cm) 3 \<longleftrightarrow> cm \<noteq> None \<or> dv_n_outstanding dv + 1 \<ge> SNAP_DMA_Q_TX_MOD_COUNT"
  by (auto simp: snap_dv_get_cq_update_def cq_flag_bit [symmetric])

lemma fence_bit: "\<not> bit (if fence then MLX5_WQE_CTRL_INITIATOR_SMALL_FENCE else 0 :: u8) 3"
  by (simp add: cq_flag_bit [symmetric])

lemma posted1_payload:
  "posted1 q w q' \<Longrightarrow> posted1 q w (q'\<lparr>dq_dv := snap_dv_set_comp_payload i b (dq_dv q')\<rparr>)"
  by (simp add: posted1_def Let_def db_inv_set_comp)

lemma do_dv_dma_xfer_posted:
  assumes "do_dv_dma_xfer api q buf len lkey raddr rkey opc flags cm fence = (rc, q')"
  shows "rc = 0 \<and> posted1 q (1, flags AND MLX5_WQE_CTRL_CQ_UPDATE = MLX5_WQE_CTRL_CQ_UPDATE \<or> cm \<noteq> None \<or> dv_n_outstanding (dq_dv q) + 1 \<ge> SNAP_DMA_Q_TX_MOD_COUNT, cm) q'"
proof -
  let ?fm = "flags OR snap_dv_get_cq_update (dq_dv q) cm OR
    (if fence then MLX5_WQE_CTRL_INITIATOR_SMALL_FENCE else 0)"
  let ?q1 = "dv_commit_wqe 1 cm ?fm (dv_xfer_wqe api (dq_dv q) ?fm buf len lkey raddr rkey opc) q"
  have b: "bit ?fm 3 \<longleftrightarrow> flags AND MLX5_WQE_CTRL_CQ_UPDATE = MLX5_WQE_CTRL_CQ_UPDATE \<or> cm \<noteq> None \<or> dv_n_outstanding (dq_dv q) + 1 \<ge> SNAP_DMA_Q_TX_MOD_COUNT"
    unfolding cq_flag_bit by (simp add: cq_update_bit bit_or_iff fence_bit)
  have "posted1 q (1, bit ?fm 3, cm) ?q1"
    by (rule commit_posted) (auto simp: cq_update_bit bit_or_iff)
  moreover from this have "posted1 q (1, bit ?fm 3, cm)
      (?q1\<lparr>dq_dv := snap_dv_set_comp_payload (sq_index (dq_dv q) (sq_pi (dq_dv q))) buf (dq_dv ?q1)\<rparr>)"
    by (rule posted1_payload)
  ultimately show ?thesis
    using assms unfolding do_dv_dma_xfer_def Let_def b by (cases "flags = 0") auto
qed

lemma do_gga_dma_xfer_posted:
  assumes "do_gga_dma_xfer api q saddr len s_lkey daddr d_lkey cm fence = (rc, q')"
  shows "rc = 0 \<and> posted1 q (1, cm \<noteq> None \<or> dv_n_outstanding (dq_dv q) + 1 \<ge> SNAP_DMA_Q_TX_MOD_COUNT, cm) q'"
proof -
  let ?fm = "snap_dv_get_cq_update (dq_dv q) cm OR
    (if fence then MLX5_WQE_CTRL_INITIATOR_SMALL_FENCE else 0)"
  have b: "bit ?fm 3 \<longleftrightarrow> cm \<noteq> None \<or> dv_n_outstanding (dq_dv q) + 1 \<ge> SNAP_DMA_Q_TX_MOD_COUNT"
    by (simp add: cq_update_bit bit_or_iff fence_bit)
  have "posted1 q (1, bit ?fm 3, cm) (dv_commit_wqe 1 cm ?fm (gga_wqe api (dq_dv q) ?fm saddr len s_lkey daddr d_lkey) q)"
    by (rule commit_posted) (auto simp: cq_update_bit bit_or_iff)
  then show ?thesis using assms unfolding do_gga_dma_xfer_def Let_def b by auto
qed

inductive posts :: "snap_dma_q \<Rightarrow> posted_wqe list \<Rightarrow> snap_dma_q \<Rightarrow> bool" where
  posts_nil: "posts q [] q"
| posts_cons: "posted1 q w q1 \<Longrightarrow> posts q1 ws q2 \<Longrightarrow> posts q (w # ws) q2"

definition wqe_total :: "posted_wqe list \<Rightarrow> nat" where
  "wqe_total ws = sum_list (map fst ws)"

text \<open>
  The requests a caller asks for, given the building blocks of each, the completion object of the last
  one and whether it is signalled anyway: moderation signals every request that would make sixteen
  unsignalled ones.
\<close>

fun moderate :: "int \<Rightarrow> bool \<Rightarrow> comp_id option \<Rightarrow> nat list \<Rightarrow> posted_wqe list" where
  "moderate out force cm [] = []"
| "moderate out force cm (n # ns) =
     (let sig = (ns = [] \<and> (force \<or> cm \<noteq> None) \<or> out + 1 \<ge> SNAP_DMA_Q_TX_MOD_COUNT)
      in (n, sig, if ns = [] then cm else None) # moderate (if sig then 0 else out + int n) force cm ns)"

lemma moderate_total [simp]: "wqe_total (moderate out force cm ns) = sum_list ns"
  by (induction ns arbitrary: out) (simp_all add: wqe_total_def Let_def)

lemma moderate_sizes [simp]: "map fst (moderate out force cm ns) = ns"
  by (induction ns arbitrary: out) (simp_all add: Let_def)

lemma wqe_bbs_pos: "1 \<le> wqe_bbs n"
  by (simp add: wqe_bbs_def)

lemma v2v_posts:
  "posts q (moderate (dv_n_outstanding (dq_dv q)) False cm (map (\<lambda>w. wqe_bbs (length (wr_l_sgl w))) wrs))
     (do_dv_dma_xfer_v2v api opc cm wrs q)"
proof (induction wrs arbitrary: q)
  case Nil
  then show ?case by (simp add: posts_nil)
next
  case (Cons wr wrs)
  let ?c = "if wrs \<noteq> [] then None else cm"
  let ?fm = "snap_dv_get_cq_update (dq_dv q) ?c" and ?n = "wqe_bbs (length (wr_l_sgl wr))"
  let ?q1 = "v2v_post_wr api opc ?c wr q"
  have p: "posted1 q (?n, bit ?fm 3, ?c) ?q1"
    unfolding v2v_post_wr_def Let_def
    by (rule commit_posted [OF wqe_bbs_pos]) (auto simp: cq_update_bit)
  then have o: "dv_n_outstanding (dq_dv ?q1) = (if bit ?fm 3 then 0 else dv_n_outstanding (dq_dv q) + int ?n)"
    by (simp add: posted1_def Let_def)
  from posts_cons [OF p Cons.IH [of ?q1]] show ?case
    unfolding o by (cases "wrs = []") (simp_all add: cq_update_bit Let_def)
qed

text \<open>
  The effect of an interface call that asks for the requests \<open>ws\<close>: it either takes their credits and
  posts exactly these requests, or returns an error and changes nothing.
\<close>

definition took_credits :: "nat \<Rightarrow> posted_wqe list \<Rightarrow> snap_dma_q \<Rightarrow> int \<Rightarrow> snap_dma_q \<Rightarrow> bool" where
  "took_credits N ws q rc q' \<longleftrightarrow>
     (if rc = 0
      then \<exists>q1. posts q ws q1 \<and> list_all (\<lambda>w. fst w \<le> N) ws \<and> int (wqe_total ws) \<le> dq_tx_available q \<and>
             q' = q1\<lparr>dq_tx_available := dq_tx_available q - int (wqe_total ws)\<rparr>
      else q' = q \<and> (rc = - EINVAL \<or> rc = - EAGAIN \<and> dq_tx_available q < int (wqe_total ws)))"

lemma took_credits_invalid: "took_credits N ws q (- EINVAL) q"
  by (simp add: took_credits_def)

lemma took_credits_again: "\<not> qp_can_tx q (wqe_total ws) \<Longrightarrow> took_credits N ws q (- EAGAIN) q"
  by (simp add: took_credits_def qp_can_tx_def)

lemma posts_one: "posted1 q w q1 \<Longrightarrow> posts q [w] q1"
  by (auto intro: posts.intros)

lemma posts_tx_available: "posts q ws q1 \<Longrightarrow> dq_tx_available q1 = dq_tx_available q"
  by (induction rule: posts.induct) (auto simp: posted1_def Let_def)

lemma took_credits_one:
  assumes "posted1 q (n, sig, cm) q1" and "qp_can_tx q n" and "n \<le> N"
  shows "took_credits N [(n, sig, cm)] q 0 (q1\<lparr>dq_tx_available := dq_tx_available q1 - int n\<rparr>)"
  unfolding took_credits_def using assms posts_one [OF assms(1)] posts_tx_available [OF posts_one [OF assms(1)]]
  by (auto simp: wqe_total_def qp_can_tx_def intro!: exI [of _ q1])

lemma take_credits_refused: "rc \<noteq> 0 \<Longrightarrow> take_credits (rc, n, q) = (rc, q)"
  by (simp add: take_credits_def)

abbreviation (input) one_wqe :: "snap_dma_q \<Rightarrow> bool \<Rightarrow> comp_id option \<Rightarrow> nat \<Rightarrow> posted_wqe list" where
  "one_wqe q force cm n \<equiv> moderate (dv_n_outstanding (dq_dv q)) force cm [n]"

lemma one_wqe_took:
  assumes "1 \<le> N" and "(if \<not> qp_can_tx q 1 then (- EAGAIN, q)
      else let (rc, q) = f in if rc \<noteq> 0 then (rc, q) else (0, q\<lparr>dq_tx_available := dq_tx_available q - 1\<rparr>)) = (rc, q')"
    and "\<And>rc1 q1. f = (rc1, q1) \<Longrightarrow>
      rc1 = 0 \<and> posted1 q (1, force \<or> cm \<noteq> None \<or> dv_n_outstanding (dq_dv q) + 1 \<ge> SNAP_DMA_Q_TX_MOD_COUNT, cm) q1"
  shows "took_credits N (one_wqe q force cm 1) q rc q'"
proof (cases "qp_can_tx q 1")
  case False
  with assms(2) show ?thesis by (auto simp: wqe_total_def intro!: took_credits_again)
next
  case True
  obtain rc1 q1 where f: "f = (rc1, q1)" by (cases f)
  let ?s = "force \<or> cm \<noteq> None \<or> dv_n_outstanding (dq_dv q) + 1 \<ge> SNAP_DMA_Q_TX_MOD_COUNT"
  from assms(3) [OF f] have p: "rc1 = 0" "posted1 q (1, ?s, cm) q1" by simp_all
  have m: "one_wqe q force cm 1 = [(1, ?s, cm)]" by (simp add: Let_def)
  show ?thesis
    unfolding m using assms(1,2) f p(1) True took_credits_one [OF p(2) True assms(1)] by auto
qed

definition read_scatters :: "snap_dma_q \<Rightarrow> u64 \<Rightarrow> bool" where
  "read_scatters q l \<longleftrightarrow> dq_mode q = SNAP_DMA_Q_MODE_DV \<and> l \<le> 32"

lemma write_took:
  "1 \<le> N \<Longrightarrow> snap_dma_q_write api q b l k a r cm = (rc, q') \<Longrightarrow> took_credits N (one_wqe q False cm 1) q rc q'"
  unfolding snap_dma_q_write_def
  by (erule (1) one_wqe_took) (auto simp: ops_write_def dv_dma_q_write_def gga_dma_q_write_def
      dest: do_dv_dma_xfer_posted do_gga_dma_xfer_posted simp del: One_nat_def split: snap_dma_q_mode.splits)

lemma read_took:
  "1 \<le> N \<Longrightarrow> snap_dma_q_read api q b l k a r cm = (rc, q') \<Longrightarrow>
    took_credits N (one_wqe q (read_scatters q l) cm 1) q rc q'"
  unfolding snap_dma_q_read_def
  by (erule (1) one_wqe_took) (auto simp: ops_read_def dv_dma_q_read_def gga_dma_q_read_def read_scatters_def Let_def
      dest!: do_dv_dma_xfer_posted do_gga_dma_xfer_posted simp del: One_nat_def split: snap_dma_q_mode.splits if_splits)

lemma read_short_took:
  assumes "1 \<le> N" and "snap_dma_q_read_short api q b l a r cm = (rc, q')"
  shows "took_credits N (one_wqe q True cm 1) q rc q'"
proof (cases "l > 32")
  case True
  with assms(2) show ?thesis by (auto simp: snap_dma_q_read_short_def took_credits_invalid)
next
  case False
  with assms(2) show ?thesis unfolding snap_dma_q_read_short_def
    by (simp only: if_False) (rule one_wqe_took [OF assms(1)], assumption,
      auto simp: dv_dma_q_read_short_def dest!: do_dv_dma_xfer_posted simp del: One_nat_def)
qed

definition bb_sum :: "'a sgl_state_scheme \<Rightarrow> bool" where
  "bb_sum s \<longleftrightarrow> sl_n_bb s = sum_list (map (\<lambda>w. wqe_bbs (length (wr_l_sgl w))) (sl_wrs s)) \<and>
     list_all (\<lambda>w. length (wr_l_sgl w) \<le> SNAP_DMA_Q_MAX_SGE_NUM) (sl_wrs s)"

lemma take_local_fields:
  "length (ws_l_sge (take_local a s)) = Suc (length (ws_l_sge s))"
  "sl_n_bb (take_local a s) = sl_n_bb s" "sl_wrs (take_local a s) = sl_wrs s"
  by (simp_all add: take_local_def add_sge_def Let_def)

lemma sgl_while_bb_sum:
  assumes "bb_sum s" and "sge_room s" and "length (ws_l_sge s) \<le> SNAP_DMA_Q_MAX_SGE_NUM"
    and "sgl_while a i s = Some s'"
  shows "bb_sum s' \<and> length (ws_l_sge s') \<le> SNAP_DMA_Q_MAX_SGE_NUM"
  using assms
proof (induction a i s rule: sgl_while.induct)
  case (1 a i s)
  let ?s1 = "take_local a s" and ?s2 = "close_wr a i (take_local a s)"
  let ?s3 = "?s2\<lparr>ws_wr_consumed_len := ws_wr_consumed_len ?s2 + ws_sge_total_len ?s2,
                  ws_l_sge := [], ws_sge_total_len := 0\<rparr>"
  show ?case
  proof (cases "sl_j s < length (ia_liov a) \<and> ws_len_to_handle s > 0")
    case False
    then have "sgl_while a i s = Some s" by (subst sgl_while.simps, subst if_not_P) auto
    with 1(3,5,6) show ?thesis by simp
  next
    case True
    then have l1: "length (ws_l_sge ?s1) \<le> SNAP_DMA_Q_MAX_SGE_NUM" "bb_sum ?s1"
      using 1(3,4) by (auto simp: sge_room_def take_local_fields bb_sum_def)
    show ?thesis
    proof (cases "length (ws_l_sge ?s1) = SNAP_DMA_Q_MAX_SGE_NUM \<and> ws_len_to_handle ?s1 > 0")
      case full: True
      then have w: "\<not> length (sl_wrs ?s2) \<ge> SNAP_DMA_Q_MAX_WR_CNT" "sgl_while a i ?s3 = Some s'"
        using 1(6) True unfolding sgl_while.simps [of a i s] by (simp_all add: Let_def split: if_splits)
      have "bb_sum ?s3" "sge_room ?s3" "length (ws_l_sge ?s3) \<le> SNAP_DMA_Q_MAX_SGE_NUM"
        using l1 full by (auto simp: bb_sum_def close_wr_def sge_room_def)
      from 1(1) [OF True refl full refl w(1) this w(2)] show ?thesis .
    next
      case nf: False
      then have w: "sgl_while a i ?s1 = Some s'"
        using 1(6) True unfolding sgl_while.simps [of a i s] by (auto simp: Let_def split: if_splits)
      have "sge_room ?s1" using nf l1(1) by (auto simp: sge_room_def)
      from 1(2) [OF True refl nf l1(2) this l1(1) w] show ?thesis .
    qed
  qed
qed

lemma sgl_for_bb_sum: "bb_sum s \<Longrightarrow> sgl_for a i riovs s = Some s' \<Longrightarrow> bb_sum s'"
proof (induction riovs arbitrary: i s)
  case (Cons r riovs)
  let ?s0 = "sgl_state.extend s \<lparr>ws_len_to_handle = iov_len r, ws_sge_total_len = 0,
              ws_wr_consumed_len = 0, ws_l_sge = []\<rparr>"
  have "bb_sum ?s0" "sge_room ?s0" "length (ws_l_sge ?s0) \<le> SNAP_DMA_Q_MAX_SGE_NUM"
    using Cons.prems(1) by (simp_all add: bb_sum_def sge_room_def sgl_state.defs)
  moreover obtain s1 where s1: "sgl_while a i ?s0 = Some s1"
    "sgl_for a (Suc i) riovs (sgl_state.truncate (close_wr a i s1)) = Some s'"
    using Cons.prems(2) by (auto split: if_splits option.splits)
  ultimately have "bb_sum s1 \<and> length (ws_l_sge s1) \<le> SNAP_DMA_Q_MAX_SGE_NUM"
    using sgl_while_bb_sum by blast
  then have "bb_sum (sgl_state.truncate (close_wr a i s1))"
    by (simp add: bb_sum_def close_wr_def sgl_state.defs)
  with Cons.IH s1(2) show ?case by blast
qed simp

lemma build_sgl_n_bb:
  assumes "snap_dma_build_sgl a = Some (wrs, n_bb)"
  shows "n_bb = sum_list (map (\<lambda>w. wqe_bbs (length (wr_l_sgl w))) wrs)"
    and "list_all (\<lambda>w. length (wr_l_sgl w) \<le> SNAP_DMA_Q_MAX_SGE_NUM) wrs"
proof -
  obtain s where s: "sgl_for a 0 (ia_riov a) \<lparr>sl_j = 0, sl_left = 0, sl_offset = 0, sl_wrs = [], sl_n_bb = 0\<rparr> = Some s"
    "sl_wrs s = wrs" "sl_n_bb s = n_bb"
    using assms by (auto simp: snap_dma_build_sgl_def)
  have "bb_sum \<lparr>sl_j = 0, sl_left = 0, sl_offset = 0, sl_wrs = [], sl_n_bb = 0\<rparr>"
    by (simp add: bb_sum_def)
  from sgl_for_bb_sum [OF this s(1)] s(2,3)
  show "n_bb = sum_list (map (\<lambda>w. wqe_bbs (length (wr_l_sgl w))) wrs)"
    and "list_all (\<lambda>w. length (wr_l_sgl w) \<le> SNAP_DMA_Q_MAX_SGE_NUM) wrs"
    by (auto simp: bb_sum_def)
qed

lemma wqe_bbs_le: "n \<le> SNAP_DMA_Q_MAX_SGE_NUM \<Longrightarrow> wqe_bbs n \<le> 6"
proof (cases "n \<le> 2")
  case False
  assume "n \<le> SNAP_DMA_Q_MAX_SGE_NUM"
  with False obtain m where m: "n = m + 2" "m \<le> 18" by (auto intro: that [of "n - 2"])
  have "unat (of_nat m :: u16) = m" using m by (intro unat_of_nat_small) simp
  moreover have "unat (of_nat ((3 + m) div 4) :: u16) = (3 + m) div 4"
    using m by (intro unat_of_nat_small) simp
  moreover have "(3 + m) div 4 \<le> 21 div 4" using m by (intro div_le_mono) simp
  ultimately show ?thesis using m by (simp add: wqe_bbs_def round_up_def)
qed (simp add: wqe_bbs_def)

definition v2v_bbs :: "snap_dma_q_io_attr \<Rightarrow> nat list" where
  "v2v_bbs io = (case snap_dma_build_sgl io of
     None \<Rightarrow> [] | Some (wrs, _) \<Rightarrow> map (\<lambda>w. wqe_bbs (length (wr_l_sgl w))) wrs)"

lemma v2v_took:
  assumes "snap_dma_build_sgl io = Some (wrs, n_bb)" and "6 \<le> N"
  shows "qp_can_tx q n_bb \<Longrightarrow> took_credits N (moderate (dv_n_outstanding (dq_dv q)) False cm (v2v_bbs io)) q 0
      ((do_dv_dma_xfer_v2v api opc cm wrs q)
        \<lparr>dq_tx_available := dq_tx_available (do_dv_dma_xfer_v2v api opc cm wrs q) - int n_bb\<rparr>)"
    and "\<not> qp_can_tx q n_bb \<Longrightarrow> took_credits N (moderate (dv_n_outstanding (dq_dv q)) False cm (v2v_bbs io)) q (- EAGAIN) q"
proof -
  let ?ws = "moderate (dv_n_outstanding (dq_dv q)) False cm (v2v_bbs io)"
  have b: "v2v_bbs io = map (\<lambda>w. wqe_bbs (length (wr_l_sgl w))) wrs" using assms(1) by (simp add: v2v_bbs_def)
  have ws: "posts q ?ws (do_dv_dma_xfer_v2v api opc cm wrs q)" unfolding b by (rule v2v_posts)
  have t: "wqe_total ?ws = n_bb" unfolding moderate_total b using build_sgl_n_bb(1) [OF assms(1)] by simp
  have "list_all (\<lambda>n. n \<le> N) (map fst ?ws)"
    unfolding moderate_sizes b using build_sgl_n_bb(2) [OF assms(1)] wqe_bbs_le assms(2)
    by (fastforce simp: list_all_iff)
  then have "list_all (\<lambda>w. fst w \<le> N) ?ws" by (simp only: list.pred_map comp_def)
  then show "qp_can_tx q n_bb \<Longrightarrow> took_credits N ?ws q 0 ((do_dv_dma_xfer_v2v api opc cm wrs q)
        \<lparr>dq_tx_available := dq_tx_available (do_dv_dma_xfer_v2v api opc cm wrs q) - int n_bb\<rparr>)"
    "\<not> qp_can_tx q n_bb \<Longrightarrow> took_credits N ?ws q (- EAGAIN) q"
    using ws t posts_tx_available [OF ws] unfolding took_credits_def qp_can_tx_def by auto
qed

lemma writev2v_took:
  assumes "6 \<le> N" and "snap_dma_q_writev2v api q sk si dk di ss sd cm = (rc, q')"
  shows "took_credits N (moderate (dv_n_outstanding (dq_dv q)) False cm (v2v_bbs
     \<lparr>ia_lkey = share_keys ss sk (length si), ia_liov = si, ia_rkey = share_keys sd dk (length di), ia_riov = di\<rparr>)) q rc q'"
  using assms
  unfolding snap_dma_q_writev2v_def dv_dma_q_writev2v_def take_credits_def
  by (auto simp: took_credits_invalid v2v_took split: option.splits if_splits)

lemma readv2v_took:
  assumes "6 \<le> N" and "snap_dma_q_readv2v api q dk di sk si sd ss cm = (rc, q')"
  shows "took_credits N (moderate (dv_n_outstanding (dq_dv q)) False cm (v2v_bbs
     \<lparr>ia_lkey = share_keys ss sk (length si), ia_liov = si, ia_rkey = share_keys sd dk (length di), ia_riov = di\<rparr>)) q rc q'"
  using assms
  unfolding snap_dma_q_readv2v_def dv_dma_q_readv2v_def take_credits_def
  by (auto simp: took_credits_invalid v2v_took split: option.splits if_splits)

lemma round_up_64: "unat (round_up w 64) = (unat w + 63) div 64"
proof -
  have "unat w < 2 ^ 16" using unsigned_less [of w, where 'a = nat] by simp
  then show ?thesis by (simp add: round_up_def unat_of_nat)
qed

definition inline_bbs :: "nat \<Rightarrow> nat" where
  "inline_bbs n = (n + 63) div 64"

lemma inline_took:
  assumes "length src < 2 ^ 15" and "is_flush \<longrightarrow> opc = MLX5_OPCODE_RDMA_WRITE \<and> src = []" and "\<not> is_flush \<longrightarrow> cm = None"
    and "take_credits (do_dv_xfer_inline api q src opc raddr rkey cm is_flush) = (rc, q')"
    and "(length src + 114) div 64 \<le> N"
  shows "took_credits N (one_wqe q is_flush cm (inline_bbs (inline_hdr opc + length src))) q rc q'"
proof -
  let ?n = "unat (round_up (inline_wqe_size opc (length src) is_flush) 64)"
  have sz: "unat (inline_wqe_size opc (length src) is_flush) = inline_hdr opc + length src - (if is_flush then 4 else 0)"
    using assms(1,2) by (auto simp: inline_wqe_size_def inline_hdr_def unat_of_nat unat_word_ariths)
  then have e: "?n = inline_bbs (inline_hdr opc + length src)"
    unfolding round_up_64 inline_bbs_def using assms(2) by (auto simp: inline_hdr_def)
  have "64 div 64 \<le> ?n" unfolding e inline_bbs_def by (intro div_le_mono) (simp add: inline_hdr_def)
  then have n: "1 \<le> ?n" by simp
  have "?n \<le> (length src + 114) div 64" unfolding e inline_bbs_def by (intro div_le_mono) (simp add: inline_hdr_def)
  then have N: "?n \<le> N" using assms(5) by (rule le_trans)
  let ?fm = "if is_flush then MLX5_WQE_CTRL_CQ_UPDATE else snap_dv_get_cq_update (dq_dv q) cm"
  let ?m = "inline_wqe api (dq_dv q) ?fm src opc raddr rkey is_flush"
  have m: "one_wqe q is_flush cm (inline_bbs (inline_hdr opc + length src)) = [(?n, bit ?fm 3, cm)]"
    unfolding e by (cases is_flush) (simp_all add: Let_def cq_update_set cq_update_bit)
  show ?thesis
  proof (cases "qp_can_tx q ?n")
    case False
    then have "rc = - EAGAIN \<and> q' = q" using assms(4)
      by (auto simp: do_dv_xfer_inline_def take_credits_def Let_def)
    with False show ?thesis unfolding m by (auto simp: wqe_total_def intro!: took_credits_again)
  next
    case True
    have "posted1 q (?n, bit ?fm 3, cm) (dv_commit_wqe ?n cm ?fm ?m q)"
      using n by (rule commit_posted) (auto simp: cq_update_bit cq_update_set split: if_splits)
    from took_credits_one [OF this True N] True assms(4) show ?thesis
      unfolding m by (auto simp: do_dv_xfer_inline_def take_credits_def Let_def)
  qed
qed

lemma send_took:
  assumes "length in_buf < 2 ^ 15" and "snap_dma_q_send api q in_buf addr len key imm = Some (rc, q')"
    and "(length in_buf + 114) div 64 \<le> N"
  shows "took_credits N (one_wqe q False None (inline_bbs (36 + length in_buf + send_complement (length in_buf)))) q rc q'"
proof -
  let ?sz = "of_nat (16 + 16 + 4 + length in_buf + send_complement (length in_buf)) :: u16"
  let ?n = "unat (round_up ?sz 64)"
  have c: "send_complement (length in_buf) \<le> 15"
    by (cases "(4 + length in_buf) mod 16") (simp_all add: send_complement_def)
  then have sz: "unat ?sz = 16 + 16 + 4 + length in_buf + send_complement (length in_buf)"
    using assms(1) by (intro unat_of_nat_small) simp
  have e: "?n = inline_bbs (36 + length in_buf + send_complement (length in_buf))"
    unfolding round_up_64 sz inline_bbs_def by (simp add: add.commute add.left_commute)
  have n: "1 \<le> ?n" unfolding e inline_bbs_def by simp
  have "?n \<le> (length in_buf + 114) div 64" unfolding round_up_64 sz using c by (intro div_le_mono) simp
  then have N: "?n \<le> N" using assms(3) by (rule le_trans)
  obtain opc im where r: "map_option take_credits (do_dv_send api q in_buf addr len key opc im) = Some (rc, q')"
    using assms(2) by (auto simp: snap_dma_q_send_def dv_dma_q_send_def split: option.splits)
  let ?fm = "snap_dv_get_cq_update (dq_dv q) None"
  have m: "one_wqe q False None (inline_bbs (36 + length in_buf + send_complement (length in_buf))) = [(?n, bit ?fm 3, None)]"
    unfolding e by (simp add: Let_def cq_update_bit)
  show ?thesis
  proof (cases "qp_can_tx q ?n")
    case False
    then have "rc = - EAGAIN \<and> q' = q" using r by (auto simp: do_dv_send_def take_credits_def Let_def)
    with False show ?thesis unfolding m by (auto simp: wqe_total_def intro!: took_credits_again)
  next
    case True
    have "posted1 q (?n, bit ?fm 3, None) (dv_commit_wqe ?n None ?fm m q)" for m
      using n by (rule commit_posted) (auto simp: cq_update_bit)
    from took_credits_one [OF this True N] True r show ?thesis
      unfolding m by (auto simp: do_dv_send_def take_credits_def Let_def)
  qed
qed

datatype dma_call =
    DmaWrite u64 u64 u32 u64 u32 "comp_id option"
  | DmaRead u64 u64 u32 u64 u32 "comp_id option"
  | DmaReadShort u64 u64 u64 u32 "comp_id option"
  | DmaWriteV2V "u32 list" "iovec list" "u32 list" "iovec list" bool bool "comp_id option"
  | DmaReadV2V "u32 list" "iovec list" "u32 list" "iovec list" bool bool "comp_id option"
  | DmaWriteShort "u8 list" u64 u32
  | DmaSendCompletion "u8 list"
  | DmaFlushNowait "comp_id option"
  | DmaSend "u8 list" u64 u32 u32 "u32 option"

fun dma_exec :: "mlx5_api \<Rightarrow> dma_call \<Rightarrow> snap_dma_q \<Rightarrow> (int \<times> snap_dma_q) option" where
  "dma_exec api (DmaWrite b l k a r cm) q = Some (snap_dma_q_write api q b l k a r cm)"
| "dma_exec api (DmaRead b l k a r cm) q = Some (snap_dma_q_read api q b l k a r cm)"
| "dma_exec api (DmaReadShort b l a r cm) q = Some (snap_dma_q_read_short api q b l a r cm)"
| "dma_exec api (DmaWriteV2V sk si dk di ss sd cm) q = Some (snap_dma_q_writev2v api q sk si dk di ss sd cm)"
| "dma_exec api (DmaReadV2V dk di sk si sd ss cm) q = Some (snap_dma_q_readv2v api q dk di sk si sd ss cm)"
| "dma_exec api (DmaWriteShort src a r) q = Some (snap_dma_q_write_short api q src a r)"
| "dma_exec api (DmaSendCompletion src) q = Some (snap_dma_q_send_completion api q src)"
| "dma_exec api (DmaFlushNowait cm) q = Some (snap_dma_q_flush_nowait api q cm)"
| "dma_exec api (DmaSend b a l k i) q = snap_dma_q_send api q b a l k i"

fun inline_len :: "dma_call \<Rightarrow> nat" where
  "inline_len (DmaWriteShort src _ _) = length src"
| "inline_len (DmaSendCompletion src) = length src"
| "inline_len (DmaSend src _ _ _ _) = length src"
| "inline_len _ = 0"

definition max_wqe_bbs :: "nat \<Rightarrow> nat" where
  "max_wqe_bbs max_inline = max 6 ((max_inline + 114) div 64)"

text \<open>
  The requests a call stands for, from its arguments alone: the building blocks of each, and what
  the last one is to report. A plain or vector transfer takes a completion object, a flush and a short
  read are always signalled.
\<close>

fun call_bbs :: "dma_call \<Rightarrow> nat list" where
  "call_bbs (DmaWriteV2V sk si dk di ss sd _) = v2v_bbs
     \<lparr>ia_lkey = share_keys ss sk (length si), ia_liov = si, ia_rkey = share_keys sd dk (length di), ia_riov = di\<rparr>"
| "call_bbs (DmaReadV2V dk di sk si sd ss _) = v2v_bbs
     \<lparr>ia_lkey = share_keys ss sk (length si), ia_liov = si, ia_rkey = share_keys sd dk (length di), ia_riov = di\<rparr>"
| "call_bbs (DmaWriteShort src _ _) = [inline_bbs (36 + length src)]"
| "call_bbs (DmaSendCompletion src) = [inline_bbs (20 + length src)]"
| "call_bbs (DmaSend src _ _ _ _) = [inline_bbs (36 + length src + send_complement (length src))]"
| "call_bbs _ = [1]"

fun call_comp :: "dma_call \<Rightarrow> comp_id option" where
  "call_comp (DmaWrite _ _ _ _ _ cm) = cm"
| "call_comp (DmaRead _ _ _ _ _ cm) = cm"
| "call_comp (DmaReadShort _ _ _ _ cm) = cm"
| "call_comp (DmaWriteV2V _ _ _ _ _ _ cm) = cm"
| "call_comp (DmaReadV2V _ _ _ _ _ _ cm) = cm"
| "call_comp (DmaFlushNowait cm) = cm"
| "call_comp _ = None"

fun call_signalled :: "snap_dma_q \<Rightarrow> dma_call \<Rightarrow> bool" where
  "call_signalled q (DmaRead _ l _ _ _ _) = read_scatters q l"
| "call_signalled q (DmaReadShort _ _ _ _ _) = True"
| "call_signalled q (DmaFlushNowait _) = True"
| "call_signalled q _ = False"

definition call_wqes :: "snap_dma_q \<Rightarrow> dma_call \<Rightarrow> posted_wqe list" where
  "call_wqes q c = moderate (dv_n_outstanding (dq_dv q)) (call_signalled q c) (call_comp c) (call_bbs c)"

lemma dma_exec_took:
  assumes "inline_len c \<le> L" and "L < 2 ^ 15" and "dma_exec api c q = Some (rc, q')"
  shows "took_credits (max_wqe_bbs L) (call_wqes q c) q rc q'"
proof -
  have l: "inline_len c < 2 ^ 15" "(inline_len c + 114) div 64 \<le> max_wqe_bbs L"
    using assms(1,2) by (auto simp: max_wqe_bbs_def div_le_mono le_max_iff_disj)
  have N: "6 \<le> max_wqe_bbs L" "1 \<le> max_wqe_bbs L" by (auto simp: max_wqe_bbs_def)
  have h: "inline_hdr MLX5_OPCODE_RDMA_WRITE = 36" "inline_hdr MLX5_OPCODE_SEND = 20" by (simp_all add: inline_hdr_def)
  show ?thesis
  proof (cases c)
    case (DmaWriteShort src a r)
    with l assms(3) inline_took [of src False MLX5_OPCODE_RDMA_WRITE None api q a r rc q' "max_wqe_bbs L"] h(1) show ?thesis
      by (auto simp: snap_dma_q_write_short_def dv_dma_q_write_short_def took_credits_invalid call_wqes_def
          simp del: moderate.simps split: if_splits)
  next
    case (DmaSendCompletion src)
    with l assms(3) inline_took [of src False MLX5_OPCODE_SEND None api q 0 0 rc q' "max_wqe_bbs L"] h(2) show ?thesis
      by (auto simp: snap_dma_q_send_completion_def dv_dma_q_send_completion_def took_credits_invalid call_wqes_def
          simp del: moderate.simps split: if_splits)
  next
    case (DmaFlushNowait cm)
    have "inline_bbs (inline_hdr MLX5_OPCODE_RDMA_WRITE + length ([] :: u8 list)) = 1" by (simp add: h inline_bbs_def)
    with DmaFlushNowait assms(3) N inline_took [of "[]" True MLX5_OPCODE_RDMA_WRITE cm api q 0 0 rc q' "max_wqe_bbs L"] show ?thesis
      by (simp add: snap_dma_q_flush_nowait_def dv_dma_q_flush_nowait_def call_wqes_def del: moderate.simps)
  next
    case (DmaSend b a len k i)
    with l assms(3) send_took [of b api q a len k i rc q' "max_wqe_bbs L"] show ?thesis
      by (simp add: call_wqes_def del: moderate.simps)
  qed (use assms(3) N in \<open>simp_all add: call_wqes_def write_took read_took read_short_took writev2v_took readv2v_took del: moderate.simps One_nat_def\<close>)
qed

text \<open>
  Requests in flight. A signalled request at absolute position \<open>s\<close> returns \<open>n\<close> credits:
  its own building blocks and those of the unsignalled requests before it. The blocks of
  successive signalled requests are adjacent.
\<close>

fun chain :: "nat \<Rightarrow> (nat \<times> nat) list \<Rightarrow> nat \<Rightarrow> bool" where
  "chain b [] e \<longleftrightarrow> b = e"
| "chain b ((s, n) # bs) e \<longleftrightarrow> b \<le> s \<and> s < b + n \<and> chain (b + n) bs e"

definition credit_inv :: "snap_dma_q \<Rightarrow> int \<Rightarrow> nat \<Rightarrow> (nat \<times> nat) list \<Rightarrow> bool" where
  "credit_inv q avail P bs \<longleftrightarrow>
     (let dv = dq_dv q; out = dv_n_outstanding dv; size = unat (sq_wqe_cnt dv)
      in SNAP_IS_POW2 (sq_wqe_cnt dv) \<and> size \<le> 2 ^ 16 \<and> length (dv_comps dv) = size \<and>
         sq_pi dv = of_nat P \<and> 0 \<le> avail \<and> 0 \<le> out \<and>
         avail + out + int (sum_list (map snd bs)) = snap_dma_q_dv_get_tx_avail_max q \<and>
         (\<exists>b. chain b bs (P - nat out) \<and> nat out \<le> P) \<and>
         (\<forall>(s, n) \<in> set bs. credits dv ! (s mod size) = int n))"

lemma chain_append: "chain b (bs @ bs') e \<longleftrightarrow> (\<exists>m. chain b bs m \<and> chain m bs' e)"
  by (induction b bs e arbitrary: rule: chain.induct) auto

lemma chain_total: "chain b bs e \<Longrightarrow> e = b + sum_list (map snd bs)"
  by (induction b bs e rule: chain.induct) auto

lemma chain_bounds: "chain b bs e \<Longrightarrow> (s, n) \<in> set bs \<Longrightarrow> b \<le> s \<and> s < e"
proof (induction b bs e rule: chain.induct)
  case (2 b s' n' bs e)
  then show ?case using chain_total [of "b + n'" bs e] by fastforce
qed simp

lemma pow2_mod_u16:
  assumes "SNAP_IS_POW2 (cnt :: u32)" and "unat cnt \<le> 2 ^ 16"
  shows "unat (ucast (of_nat P :: u16) AND (cnt - 1)) = P mod unat cnt"
proof -
  obtain k where k: "k < 32" "cnt = 2 ^ k" using assms(1) by (auto simp: SNAP_IS_POW2_iff)
  then have c: "unat cnt = 2 ^ k" by (simp add: unat_pow2)
  then have k16: "k \<le> 16" using assms(2) by (metis one_less_numeral_iff power_le_imp_le_exp semiring_norm(76))
  have "ucast (of_nat P :: u16) AND (cnt - 1) = take_bit k (ucast (of_nat P :: u16))"
    using k by (simp add: take_bit_eq_mask mask_eq_exp_minus_1)
  then have "unat (ucast (of_nat P :: u16) AND (cnt - 1)) = unat (ucast (of_nat P :: u16) :: u32) mod 2 ^ k"
    by (simp add: unsigned_take_bit_eq) (simp add: take_bit_eq_mod)
  also have "unat (ucast (of_nat P :: u16) :: u32) = P mod 2 ^ 16"
    by (simp add: unsigned_ucast_eq unat_of_nat take_bit_nat_eq_self)
  also have "P mod 2 ^ 16 mod 2 ^ k = P mod 2 ^ k"
    using le_imp_power_dvd [OF k16, of "2::nat"] by (rule mod_mod_cancel)
  finally show ?thesis using c by simp
qed

text \<open>The slot of the next request is not the slot of a request in flight.\<close>

lemma slot_free:
  assumes "chain b bs (P - out)" and "out \<le> P" and "(s, n) \<in> set bs"
    and "sum_list (map snd bs) + out < sz"
  shows "s mod sz \<noteq> P mod sz"
proof
  assume eq: "s mod sz = P mod sz"
  from chain_bounds [OF assms(1,3)] chain_total [OF assms(1)] assms(2)
  have "s < P" "P - s \<le> sum_list (map snd bs) + out" by auto
  moreover have "sz dvd P - s" using eq \<open>s < P\<close> by (metis mod_eq_dvd_iff_nat nat_less_le)
  ultimately show False using assms(4) by (auto dest!: dvd_imp_le)
qed

lemma posted1_inv:
  assumes inv: "credit_inv q avail P bs" and p: "posted1 q (n, sig, cm) q'" and fit: "int n \<le> avail"
  shows "credit_inv q' (avail - int n) (P + n)
    (bs @ (if sig then [(P, nat (dv_n_outstanding (dq_dv q)) + n)] else []))"
proof -
  let ?dv = "dq_dv q" and ?dv' = "dq_dv q'"
  let ?out = "nat (dv_n_outstanding ?dv)" and ?sz = "unat (sq_wqe_cnt ?dv)"
  have n1: "1 \<le> n" using p by (simp add: posted1_def Let_def)
  from inv obtain b where ch: "chain b bs (P - ?out)" "?out \<le> P" and out: "0 \<le> dv_n_outstanding ?dv"
    and sum: "avail + dv_n_outstanding ?dv + int (sum_list (map snd bs)) = snap_dma_q_dv_get_tx_avail_max q"
    and pow: "SNAP_IS_POW2 (sq_wqe_cnt ?dv)" "?sz \<le> 2 ^ 16"
    and pi: "sq_pi ?dv = of_nat P" and len: "length (credits ?dv) = ?sz"
    and cr: "\<forall>(s, n) \<in> set bs. credits ?dv ! (s mod ?sz) = int n"
    by (auto simp: credit_inv_def Let_def credits_def)
  have idx: "sq_index ?dv (sq_pi ?dv) = P mod ?sz"
    unfolding sq_index_def pi using pow by (rule pow2_mod_u16)
  have sz: "0 < ?sz" using pow(1) by (simp add: SNAP_IS_POW2_def word_less_nat_alt)
  have "snap_dma_q_dv_get_tx_avail_max q \<le> int ?sz" by (simp add: snap_dma_q_dv_get_tx_avail_max_def)
  then have room: "sum_list (map snd bs) + ?out < ?sz" using sum fit n1 out by linarith
  have cr': "credits ?dv' = (credits ?dv)[P mod ?sz := (if sig then dv_n_outstanding ?dv + int n else 0)]"
    using posted1_credits [OF p] unfolding idx .
  have eqs: "sq_pi ?dv' = of_nat (P + n)" "sq_wqe_cnt ?dv' = sq_wqe_cnt ?dv"
      "dv_n_outstanding ?dv' = (if sig then 0 else dv_n_outstanding ?dv + int n)"
      "snap_dma_q_dv_get_tx_avail_max q' = snap_dma_q_dv_get_tx_avail_max q"
    using p idx pi by (simp_all add: posted1_def Let_def snap_dma_q_dv_get_tx_avail_max_def)
  have old: "credits ?dv' ! (s mod ?sz) = int m" if "(s, m) \<in> set bs" for s m
    using slot_free [OF ch that room] cr that unfolding cr' by (auto simp: nth_list_update)
  have new: "credits ?dv' ! (P mod ?sz) = dv_n_outstanding ?dv + int n" if sig
    using that sz len unfolding cr' by simp
  have chain': "\<exists>b. chain b (bs @ (if sig then [(P, ?out + n)] else [])) (P + n - nat (dv_n_outstanding ?dv'))
      \<and> nat (dv_n_outstanding ?dv') \<le> P + n"
  proof (cases sig)
    case True
    have "chain b (bs @ [(P, ?out + n)]) (P + n)"
      unfolding chain_append using ch n1 by (intro exI [of _ "P - ?out"]) auto
    with True eqs(3) show ?thesis by auto
  next
    case False
    with ch out eqs(3) show ?thesis by (auto simp: nat_add_distrib)
  qed
  have "length (dv_comps ?dv') = ?sz" using cr' len by (metis credits_def length_list_update length_map)
  then show ?thesis
    using pow sum fit out old new chain' unfolding credit_inv_def Let_def eqs
    by (auto split: if_splits)
qed

fun inflight :: "nat \<Rightarrow> int \<Rightarrow> posted_wqe list \<Rightarrow> (nat \<times> nat) list" where
  "inflight P out [] = []"
| "inflight P out ((n, sig, cm) # ws) =
     (if sig then (P, nat out + n) # inflight (P + n) 0 ws else inflight (P + n) (out + int n) ws)"

lemma posts_inv:
  assumes "posts q ws q'" and "credit_inv q avail P bs" and "int (wqe_total ws) \<le> avail"
  shows "credit_inv q' (avail - int (wqe_total ws)) (P + wqe_total ws)
    (bs @ inflight P (dv_n_outstanding (dq_dv q)) ws)"
  using assms
proof (induction arbitrary: avail P bs rule: posts.induct)
  case (posts_nil q)
  then show ?case by (simp add: wqe_total_def)
next
  case (posts_cons q w q1 ws q2)
  obtain n sig cm where w: "w = (n, sig, cm)" by (cases w)
  have tot: "wqe_total (w # ws) = n + wqe_total ws" by (simp add: wqe_total_def w)
  let ?out = "dv_n_outstanding (dq_dv q)"
  have out1: "dv_n_outstanding (dq_dv q1) = (if sig then 0 else ?out + int n)"
    using posts_cons.hyps(1) by (simp add: posted1_def Let_def w)
  have "credit_inv q1 (avail - int n) (P + n) (bs @ (if sig then [(P, nat ?out + n)] else []))"
    using posts_cons.prems posts_cons.hyps(1) tot by (intro posted1_inv) (auto simp: w)
  from posts_cons.IH [OF this] posts_cons.prems(2) tot out1 show ?case
    by (auto simp: w algebra_simps)
qed

text \<open>A completion returns the credits of the oldest signalled request.\<close>

lemma get_comp_inv:
  assumes inv: "credit_inv q (dq_tx_available q) P ((s, n) # bs)" and c: "cqe_wqe_counter cqe = of_nat s"
    and g: "dv_dma_q_get_comp q cqe = (cm, copies, q')"
  shows "credit_inv q' (dq_tx_available q') P bs \<and> dq_tx_available q' = dq_tx_available q + int n"
proof -
  let ?dv = "dq_dv q"
  have idx: "sq_index ?dv (cqe_wqe_counter cqe) = s mod unat (sq_wqe_cnt ?dv)"
    unfolding sq_index_def c using inv by (intro pow2_mod_u16) (auto simp: credit_inv_def Let_def)
  have sz: "0 < unat (sq_wqe_cnt ?dv)" "length (dv_comps ?dv) = unat (sq_wqe_cnt ?dv)"
    using inv by (auto simp: credit_inv_def Let_def SNAP_IS_POW2_def word_less_nat_alt)
  have n: "c_n_outstanding (dv_comps ?dv ! sq_index ?dv (cqe_wqe_counter cqe)) = int n"
    using inv sz unfolding idx by (auto simp: credit_inv_def Let_def credits_def)
  have f: "dq_tx_available q' = dq_tx_available q + int n" "sq_wqe_cnt (dq_dv q') = sq_wqe_cnt ?dv"
    "sq_pi (dq_dv q') = sq_pi ?dv" "dv_n_outstanding (dq_dv q') = dv_n_outstanding ?dv"
    "dq_tx_cq q' = dq_tx_cq q" "credits (dq_dv q') = credits ?dv"
    using g n unfolding dv_dma_q_get_comp_def Let_def
    by (auto split: option.splits if_splits simp: credits_def
        map_list_update_same)
  have len: "length (dv_comps (dq_dv q')) = length (dv_comps ?dv)" using f(6) by (metis credits_def length_map)
  have mx: "snap_dma_q_dv_get_tx_avail_max q' = snap_dma_q_dv_get_tx_avail_max q"
    using f by (simp add: snap_dma_q_dv_get_tx_avail_max_def)
  show ?thesis
    using inv unfolding credit_inv_def Let_def f mx len by auto
qed

text \<open>Moderation bounds the credits that no completion will return.\<close>

lemma posts_out_bound:
  assumes "posts q ws q'" and "list_all (\<lambda>w. fst w \<le> N) ws" and "dv_n_outstanding (dq_dv q) \<le> 14 + int N"
  shows "dv_n_outstanding (dq_dv q') \<le> 14 + int N"
  using assms by (induction rule: posts.induct) (auto simp: posted1_def Let_def split: if_splits)

end
