(* ===== verification/Dma_Cq.thy ===== *)
theory Dma_Cq
  imports Dma_Dv
begin

text \<open>
  Completion rings (\<^verbatim>\<open>snap_dv_get_cqe\<close>, \<^verbatim>\<open>snap_dv_poll_cq\<close>) as
  first-in-first-out queues: the interface that the polling loops rely on, and its implementation
  by the owner-bit protocol.
\<close>


section \<open>Interface\<close>

locale completion_fifo =
  fixes holds :: "'q \<Rightarrow> 'e list \<Rightarrow> bool"
    and pop :: "'q \<Rightarrow> ('e \<times> 'q) option"
  assumes pop_empty: "holds q [] \<Longrightarrow> pop q = None"
    and pop_cons: "holds q (e # es) \<Longrightarrow> \<exists>q'. pop q = Some (e, q') \<and> holds q' es"
begin

lemma pop_None_iff: "holds q es \<Longrightarrow> pop q = None \<longleftrightarrow> es = []"
  using pop_empty pop_cons by (cases es) fastforce+

lemma pop_SomeD: "holds q es \<Longrightarrow> pop q = Some (e, q') \<Longrightarrow> \<exists>es'. es = e # es' \<and> holds q' es'"
  using pop_empty pop_cons by (cases es) fastforce+

lemma pop_unique:
  assumes "holds q es" and "holds q es'"
  shows "es = es'"
  using assms
proof (induction es arbitrary: q es')
  case Nil
  then show ?case by (metis pop_None_iff)
next
  case (Cons e es)
  from pop_cons [OF Cons.prems(1)] obtain q' where q': "pop q = Some (e, q')" "holds q' es" by blast
  from pop_SomeD [OF Cons.prems(2) q'(1)] obtain es'' where "es' = e # es''" "holds q' es''" by blast
  with Cons.IH [OF q'(2)] show ?case by blast
qed

end

text \<open>
  A completion ring with consumer index \<open>C\<close> and device index \<open>H\<close>. Entries between them
  carry the owner bit of their lap; the others still carry that of the previous lap, or are
  invalid.
\<close>

definition cqe_ready :: "nat \<Rightarrow> nat \<Rightarrow> mlx5_cqe64 \<Rightarrow> bool" where
  "cqe_ready cnt i e \<longleftrightarrow> cqe_owner e = odd (i div cnt) \<and> cqe_opcode e \<noteq> MLX5_CQE_INVALID"

definition cq_inv :: "snap_hw_cq \<Rightarrow> nat \<Rightarrow> mlx5_cqe64 list \<Rightarrow> bool" where
  "cq_inv cq C es \<longleftrightarrow>
     (let cnt = unat (cq_cqe_cnt cq)
      in SNAP_IS_POW2 (cq_cqe_cnt cq) \<and> cq_ci cq = of_nat C \<and> length es \<le> cnt \<and>
         (\<forall>k < length es. cq_ring cq ((C + k) mod cnt) = es ! k \<and> cqe_ready cnt (C + k) (es ! k)) \<and>
         (\<forall>k. length es \<le> k \<longrightarrow> k < cnt \<longrightarrow> \<not> cqe_ready cnt (C + k) (cq_ring cq ((C + k) mod cnt))))"

definition cq_holds :: "snap_hw_cq \<Rightarrow> mlx5_cqe64 list \<Rightarrow> bool" where
  "cq_holds cq es \<longleftrightarrow> (\<exists>C. cq_inv cq C es)"

lemma cq_index:
  assumes "SNAP_IS_POW2 (cnt :: u32)"
  shows "unat ((of_nat C :: u32) AND (cnt - 1)) = C mod unat cnt"
    and "(of_nat C :: u32) AND cnt = 0 \<longleftrightarrow> even (C div unat cnt)"
proof -
  obtain k where k: "k < 32" "cnt = 2 ^ k" using assms by (auto simp: SNAP_IS_POW2_iff)
  then have c: "unat cnt = 2 ^ k" by (simp add: unat_pow2)
  have "(of_nat C :: u32) AND (cnt - 1) = take_bit k (of_nat C)"
    using k by (simp add: take_bit_eq_mask mask_eq_exp_minus_1)
  then have "unat ((of_nat C :: u32) AND (cnt - 1)) = take_bit k (unat (of_nat C :: u32))"
    by (simp add: unsigned_take_bit_eq)
  also have "\<dots> = C mod 2 ^ 32 mod 2 ^ k" by (simp add: take_bit_eq_mod unat_of_nat)
  also have "\<dots> = C mod 2 ^ k"
    using le_imp_power_dvd [of k 32 "2::nat"] k by (intro mod_mod_cancel) simp
  finally show "unat ((of_nat C :: u32) AND (cnt - 1)) = C mod unat cnt" using c by simp
  have "(of_nat C :: u32) AND cnt = 0 \<longleftrightarrow> \<not> bit (of_nat C :: u32) k"
    unfolding k(2) by (rule and_exp_eq_0_iff_not_bit)
  also have "bit (of_nat C :: u32) k \<longleftrightarrow> bit C k" using k by (simp add: bit_simps)
  also have "bit C k \<longleftrightarrow> odd (C div 2 ^ k)" by (simp add: bit_iff_odd)
  finally show "(of_nat C :: u32) AND cnt = 0 \<longleftrightarrow> even (C div unat cnt)" using c by simp
qed

lemma cq_inv_poll:
  assumes "cq_inv cq C es"
  shows "snap_dv_poll_cq cq = (case es of [] \<Rightarrow> None | e # _ \<Rightarrow> Some (e, cq\<lparr>cq_ci := cq_ci cq + 1\<rparr>))"
proof -
  let ?cnt = "unat (cq_cqe_cnt cq)"
  have pow: "SNAP_IS_POW2 (cq_cqe_cnt cq)" and ci: "cq_ci cq = of_nat C" and pos: "0 < ?cnt"
    using assms by (auto simp: cq_inv_def Let_def SNAP_IS_POW2_def word_less_nat_alt)
  have get: "snap_dv_get_cqe cq = cq_ring cq (C mod ?cnt)"
    unfolding snap_dv_get_cqe_def ci cq_index(1) [OF pow] by (rule refl)
  have ready: "snap_dv_poll_cq cq = (if cqe_ready ?cnt C (cq_ring cq (C mod ?cnt))
      then Some (cq_ring cq (C mod ?cnt), cq\<lparr>cq_ci := cq_ci cq + 1\<rparr>) else None)"
    unfolding snap_dv_poll_cq_def get Let_def ci cq_index(2) [OF pow] cqe_ready_def by auto
  show ?thesis
  proof (cases es)
    case Nil
    with assms pos have "\<not> cqe_ready ?cnt C (cq_ring cq (C mod ?cnt))"
      by (auto simp: cq_inv_def Let_def dest: spec [of _ 0])
    with ready Nil show ?thesis by simp
  next
    case (Cons e es')
    with assms have "cq_ring cq (C mod ?cnt) = e \<and> cqe_ready ?cnt C e"
      by (auto simp: cq_inv_def Let_def dest: spec [of _ 0])
    with ready Cons show ?thesis by simp
  qed
qed

lemma cq_inv_next:
  assumes "cq_inv cq C (e # es)"
  shows "cq_inv (cq\<lparr>cq_ci := cq_ci cq + 1\<rparr>) (Suc C) es"
proof -
  let ?cnt = "unat (cq_cqe_cnt cq)"
  have l: "length es < ?cnt" and e: "cq_ring cq (C mod ?cnt) = e" "cqe_ready ?cnt C e"
    and r: "\<And>k. k < length es \<Longrightarrow> cq_ring cq ((C + Suc k) mod ?cnt) = es ! k \<and> cqe_ready ?cnt (C + Suc k) (es ! k)"
    and st: "\<And>k. Suc (length es) \<le> k \<Longrightarrow> k < ?cnt \<Longrightarrow> \<not> cqe_ready ?cnt (C + k) (cq_ring cq ((C + k) mod ?cnt))"
    using assms by (auto simp: cq_inv_def Let_def dest: spec [of _ 0] spec [of _ "Suc k" for k])
  have "\<not> cqe_ready ?cnt (Suc C + k) (cq_ring cq ((Suc C + k) mod ?cnt))"
    if "length es \<le> k" "k < ?cnt" for k
  proof (cases "Suc k < ?cnt")
    case True
    with that st [of "Suc k"] show ?thesis by simp
  next
    case False
    then have k: "Suc C + k = C + ?cnt" using that by simp
    have "(C + ?cnt) div ?cnt = Suc (C div ?cnt)" using l by (simp add: div_add_self2)
    with e show ?thesis unfolding k by (auto simp: cqe_ready_def)
  qed
  with r l assms show ?thesis by (auto simp: cq_inv_def Let_def)
qed

interpretation dv_cq: completion_fifo cq_holds snap_dv_poll_cq
proof
  show "snap_dv_poll_cq cq = None" if "cq_holds cq []" for cq
    using that cq_inv_poll by (fastforce simp: cq_holds_def)
  show "\<exists>cq'. snap_dv_poll_cq cq = Some (e, cq') \<and> cq_holds cq' es" if "cq_holds cq (e # es)" for cq e es
    using that cq_inv_poll cq_inv_next by (fastforce simp: cq_holds_def)
qed

text \<open>The device writes the next entry with the owner bit of its lap.\<close>

definition cq_device_write :: "nat \<Rightarrow> mlx5_cqe64 \<Rightarrow> snap_hw_cq \<Rightarrow> snap_hw_cq" where
  "cq_device_write i e cq = cq\<lparr>cq_ring := (cq_ring cq)(i mod unat (cq_cqe_cnt cq) := e)\<rparr>"

lemma cq_inv_write:
  assumes "cq_inv cq C es" and "length es < unat (cq_cqe_cnt cq)"
    and "cqe_ready (unat (cq_cqe_cnt cq)) (C + length es) e"
  shows "cq_inv (cq_device_write (C + length es) e cq) C (es @ [e])"
proof -
  let ?cnt = "unat (cq_cqe_cnt cq)"
  have d: "(C + k) mod ?cnt = (C + length es) mod ?cnt \<longleftrightarrow> k = length es" if "k < ?cnt" for k
    using mod_window_inj [OF that assms(2)] by auto
  show ?thesis
    using assms d unfolding cq_inv_def cq_device_write_def Let_def
    by (auto simp: nth_append less_Suc_eq)
qed

end
