(* ===== verification/Dma_Sys.thy ===== *)
theory Dma_Sys
  imports Dma_Credits Dma_Cq
begin

text \<open>
  The DMA queue together with the device: interface calls, completions written by the device and
  progress calls in any order. The reachable states keep every credit accounted for, never hand a
  completion slot to two requests in flight and never overrun the completion ring.
\<close>


text \<open>
  \<open>P\<close> is the absolute producer position, \<open>C\<close> the absolute consumer position of the
  completion ring, \<open>es\<close> its unread entries, \<open>rep\<close> the signalled requests these report, and
  \<open>dev\<close> the signalled requests the device has not completed yet.
\<close>

definition cqes_match :: "mlx5_cqe64 list \<Rightarrow> (nat \<times> nat) list \<Rightarrow> bool" where
  "cqes_match es bs \<longleftrightarrow> list_all2 (\<lambda>e b. cqe_wqe_counter e = of_nat (fst b)) es bs"

definition dma_inv :: "nat \<Rightarrow> snap_dma_q \<Rightarrow> nat \<Rightarrow> nat \<Rightarrow> mlx5_cqe64 list \<Rightarrow>
  (nat \<times> nat) list \<Rightarrow> (nat \<times> nat) list \<Rightarrow> bool"
where
  "dma_inv N q P C es rep dev \<longleftrightarrow>
     credit_inv q (dq_tx_available q) P (rep @ dev) \<and> cq_inv (dq_tx_cq q) C es \<and> cqes_match es rep \<and>
     dv_n_outstanding (dq_dv q) \<le> 14 + int N \<and> 32 \<le> snap_dma_q_dv_get_tx_avail_max q"

lemma credit_inv_cong:
  assumes "credit_inv q a P bs" and "dq_dv q' = dq_dv q" and "cq_cqe_cnt (dq_tx_cq q') = cq_cqe_cnt (dq_tx_cq q)"
  shows "credit_inv q' a P bs"
  using assms by (simp add: credit_inv_def Let_def snap_dma_q_dv_get_tx_avail_max_def)

lemma get_comp_frame:
  assumes "dv_dma_q_get_comp q cqe = (cm, copies, q')"
  shows "dq_tx_cq q' = dq_tx_cq q" "dv_n_outstanding (dq_dv q') = dv_n_outstanding (dq_dv q)"
    "sq_wqe_cnt (dq_dv q') = sq_wqe_cnt (dq_dv q)"
  using assms unfolding dv_dma_q_get_comp_def Let_def by (auto split: option.splits if_splits)

definition err_handled :: "(mlx5_cqe64 \<Rightarrow> int) option \<Rightarrow> mlx5_cqe64 \<Rightarrow> bool" where
  "err_handled err_cb cqe \<longleftrightarrow> cqe_opcode cqe \<noteq> MLX5_CQE_REQ \<and>
     (case err_cb of Some f \<Rightarrow> f cqe = SNAP_DMA_Q_ERR_HANDLED | None \<Rightarrow> False)"

lemma poll_get_comp_inv:
  assumes inv: "dma_inv N q P C (e # es) ((s, n) # rep) dev"
    and g: "dv_dma_q_get_comp (q\<lparr>dq_tx_cq := (dq_tx_cq q)\<lparr>cq_ci := cq_ci (dq_tx_cq q) + 1\<rparr>\<rparr>) e = (cm, cps, q')"
  shows "dma_inv N q' P (Suc C) es rep dev" "dq_tx_available q' = dq_tx_available q + int n"
proof -
  let ?q = "q\<lparr>dq_tx_cq := (dq_tx_cq q)\<lparr>cq_ci := cq_ci (dq_tx_cq q) + 1\<rparr>\<rparr>"
  have c: "cqe_wqe_counter e = of_nat s" using inv by (simp add: dma_inv_def cqes_match_def)
  have "credit_inv ?q (dq_tx_available ?q) P ((s, n) # rep @ dev)"
    using inv by (auto simp: dma_inv_def intro: credit_inv_cong)
  from get_comp_inv [OF this c g] get_comp_frame [OF g] cq_inv_next [of "dq_tx_cq q" C e es] inv
  show "dma_inv N q' P (Suc C) es rep dev" "dq_tx_available q' = dq_tx_available q + int n"
    by (auto simp: dma_inv_def cqes_match_def snap_dma_q_dv_get_tx_avail_max_def)
qed

lemma tx_poll_loop_inv:
  assumes "dma_inv N q P C es rep dev" and "length es \<le> fuel"
    and "tx_poll_loop err_cb fuel max_n q = (cs, copies, q')"
  shows "\<exists>k \<le> length es. dma_inv N q' P (C + k) (drop k es) (drop k rep) dev \<and>
     dq_tx_available q' = dq_tx_available q + int (sum_list (map snd (take k rep))) \<and>
     map fst cs = filter (\<lambda>e. \<not> err_handled err_cb e) (take k es) \<and>
     (k = length es \<or> length cs = max_n)"
  using assms
proof (induction err_cb fuel max_n q arbitrary: C es rep cs copies rule: tx_poll_loop.induct)
  case (1 err_cb max_n q)
  then show ?case by (intro exI [of _ 0]) auto
next
  case (2 err_cb fuel max_n q)
  show ?case
  proof (cases "max_n = 0 \<or> es = []")
    case True
    have "snap_dv_poll_cq (dq_tx_cq q) = None" if "es = []"
      using 2(3) that cq_inv_poll [of "dq_tx_cq q" C es] by (simp add: dma_inv_def)
    with True 2(5) have "cs = []" "q' = q" by (auto split: if_splits)
    with True 2(3) show ?thesis by (intro exI [of _ 0]) auto
  next
    case False
    then obtain e es1 where es: "es = e # es1" by (cases es) auto
    with 2(3) obtain s n rep1 where rep: "rep = (s, n) # rep1"
      by (auto simp: dma_inv_def cqes_match_def list_all2_Cons1)
    let ?cq = "(dq_tx_cq q)\<lparr>cq_ci := cq_ci (dq_tx_cq q) + 1\<rparr>"
    have poll: "snap_dv_poll_cq (dq_tx_cq q) = Some (e, ?cq)"
      using 2(3) cq_inv_poll [of "dq_tx_cq q" C es] es by (simp add: dma_inv_def)
    obtain cm cps q1 where g: "dv_dma_q_get_comp (q\<lparr>dq_tx_cq := ?cq\<rparr>) e = (cm, cps, q1)"
      by (cases "dv_dma_q_get_comp (q\<lparr>dq_tx_cq := ?cq\<rparr>) e")
    note step = poll_get_comp_inv [OF 2(3) [unfolded es rep] g]
    have len: "length es1 \<le> fuel" using 2(4) es by simp
    show ?thesis
    proof (cases "err_handled err_cb e")
      case True
      obtain cs1 cps1 where r: "tx_poll_loop err_cb fuel max_n q1 = (cs1, cps1, q')" "cs = cs1"
        using 2(5) False True poll g by (auto simp: err_handled_def Let_def split: prod.splits)
      from 2(1) [OF _ poll refl g [symmetric] refl refl _ step(1) len r(1)] False True
      obtain k where "k \<le> length es1" "dma_inv N q' P (Suc C + k) (drop k es1) (drop k rep1) dev"
        "dq_tx_available q' = dq_tx_available q1 + int (sum_list (map snd (take k rep1)))"
        "map fst cs1 = filter (\<lambda>e. \<not> err_handled err_cb e) (take k es1)"
        "k = length es1 \<or> length cs1 = max_n"
        by (auto simp: err_handled_def)
      with r True step(2) es rep show ?thesis by (intro exI [of _ "Suc k"]) auto
    next
      case nh: False
      obtain cs1 cps1 where r: "tx_poll_loop err_cb fuel (max_n - 1) q1 = (cs1, cps1, q')" "cs = (e, cm) # cs1"
        using 2(5) False nh poll g by (auto simp: err_handled_def Let_def split: prod.splits)
      from 2(2) [OF _ poll refl g [symmetric] refl refl _ step(1) len r(1)] False nh
      obtain k where "k \<le> length es1" "dma_inv N q' P (Suc C + k) (drop k es1) (drop k rep1) dev"
        "dq_tx_available q' = dq_tx_available q1 + int (sum_list (map snd (take k rep1)))"
        "map fst cs1 = filter (\<lambda>e. \<not> err_handled err_cb e) (take k es1)"
        "k = length es1 \<or> length cs1 = max_n - 1"
        by (auto simp: err_handled_def)
      with r nh False step(2) es rep show ?thesis by (intro exI [of _ "Suc k"]) auto
    qed
  qed
qed

lemma tx_complete_frame [simp]:
  "sq_wqe_cnt (snap_dv_tx_complete dv) = sq_wqe_cnt dv" "sq_pi (snap_dv_tx_complete dv) = sq_pi dv"
  "dv_comps (snap_dv_tx_complete dv) = dv_comps dv"
  "dv_n_outstanding (snap_dv_tx_complete dv) = dv_n_outstanding dv"
  by (simp_all add: snap_dv_tx_complete_def snap_dv_ring_tx_db_def snap_dv_flush_tx_db_def
      snap_dv_update_tx_db_def)

lemma credit_inv_dv:
  assumes "credit_inv q a P bs" and "sq_wqe_cnt (dq_dv q') = sq_wqe_cnt (dq_dv q)"
    and "sq_pi (dq_dv q') = sq_pi (dq_dv q)" and "dv_comps (dq_dv q') = dv_comps (dq_dv q)"
    and "dv_n_outstanding (dq_dv q') = dv_n_outstanding (dq_dv q)"
    and "cq_cqe_cnt (dq_tx_cq q') = cq_cqe_cnt (dq_tx_cq q)"
  shows "credit_inv q' a P bs"
  using assms by (simp add: credit_inv_def Let_def snap_dma_q_dv_get_tx_avail_max_def credits_def)

text \<open>Fuel is enough: the ring never holds more unread entries than it has slots.\<close>

lemma progress_tx_inv:
  assumes inv: "dma_inv N q P C es rep dev"
    and p: "dv_dma_q_progress_tx err_cb counts q max_tx = (r, q')"
  shows "\<exists>k \<le> length es. dma_inv N q' P (C + k) (drop k es) (drop k rep) dev \<and>
     dq_tx_available q' = dq_tx_available q + int (sum_list (map snd (take k rep))) \<and>
     tr_n r = length (filter (\<lambda>e. \<not> err_handled err_cb e) (take k es)) \<and>
     (k = length es \<or> tr_n r = (if max_tx = - 1 then SNAP_DMA_MAX_TX_COMPLETIONS else unat (of_int max_tx :: u16)))"
proof -
  let ?max = "if max_tx = - 1 then SNAP_DMA_MAX_TX_COMPLETIONS else unat (of_int max_tx :: u16)"
  obtain cs cps q1 where l: "tx_poll_loop err_cb (tx_poll_fuel q ?max) ?max q = (cs, cps, q1)"
    by (cases "tx_poll_loop err_cb (tx_poll_fuel q ?max) ?max q")
  have "length es \<le> tx_poll_fuel q ?max"
    using inv by (simp add: dma_inv_def cq_inv_def Let_def tx_poll_fuel_def)
  from tx_poll_loop_inv [OF inv this l] obtain k where k: "k \<le> length es"
    "dma_inv N q1 P (C + k) (drop k es) (drop k rep) dev"
    "dq_tx_available q1 = dq_tx_available q + int (sum_list (map snd (take k rep)))"
    "map fst cs = filter (\<lambda>e. \<not> err_handled err_cb e) (take k es)" "k = length es \<or> length cs = ?max"
    by blast
  have q': "q' = q1\<lparr>dq_dv := (snap_dv_tx_complete (dq_dv q1))
      \<lparr>dv_tx_total_completed := dv_tx_total_completed (snap_dv_tx_complete (dq_dv q1)) + length cs\<rparr>\<rparr>"
    and n: "tr_n r = length cs"
    using p l unfolding dv_dma_q_progress_tx_def Let_def by (auto split: prod.splits)
  have "credit_inv q1 (dq_tx_available q1) P (drop k rep @ dev)" using k(2) by (simp add: dma_inv_def)
  then have "credit_inv q' (dq_tx_available q') P (drop k rep @ dev)"
    unfolding q' by simp (erule credit_inv_dv, simp_all)
  then have "dma_inv N q' P (C + k) (drop k es) (drop k rep) dev"
    using k(2) by (simp add: dma_inv_def q' snap_dma_q_dv_get_tx_avail_max_def)
  with k n show ?thesis by (intro exI [of _ k]) (auto simp: q' simp flip: k(4))
qed

section \<open>Reachable states\<close>

text \<open>
  The send queue size of a new DV or GGA queue, from \<^verbatim>\<open>snap_qp_attr_helper\<close>: small sizes are raised
  so that completion moderation cannot use up the queue. The device creates rings of at least that
  size, each a power of two.
\<close>

definition sw_tx_qsize :: "u32 \<Rightarrow> u32" where
  "sw_tx_qsize tx_qsize =
     (if tx_qsize \<le> of_int SNAP_DMA_Q_TX_MOD_COUNT \<and> tx_qsize > 0
      then of_int (SNAP_DMA_Q_TX_MOD_COUNT + 8) else tx_qsize)"

text \<open>
  A queue that was created empty, under any interleaving of interface calls, device completions
  and progress calls. \<open>L\<close> bounds the inline data of a call. The device completes signalled
  requests in order and writes an entry with the owner bit of its lap. The steps run the code; \<open>P\<close>
  and \<open>dev\<close> follow the requests that the successful calls ask for, \<open>C\<close>, \<open>es\<close> and \<open>rep\<close> the entries by
  which a progress call moves the consumer index.
\<close>

inductive dma_reach :: "mlx5_api \<Rightarrow> nat \<Rightarrow> snap_dma_q \<Rightarrow> nat \<Rightarrow> nat \<Rightarrow> mlx5_cqe64 list \<Rightarrow>
  (nat \<times> nat) list \<Rightarrow> (nat \<times> nat) list \<Rightarrow> bool"
  for api :: mlx5_api and L :: nat
where
  reach_init: "SNAP_IS_POW2 (sq_wqe_cnt (dq_dv q)) \<Longrightarrow> unat (sq_wqe_cnt (dq_dv q)) \<le> 2 ^ 16 \<Longrightarrow>
     0 < tx_qsize \<Longrightarrow> sw_tx_qsize tx_qsize \<le> sq_wqe_cnt (dq_dv q) \<Longrightarrow> sw_tx_qsize tx_qsize \<le> cq_cqe_cnt (dq_tx_cq q) \<Longrightarrow>
     length (dv_comps (dq_dv q)) = unat (sq_wqe_cnt (dq_dv q)) \<Longrightarrow> sq_pi (dq_dv q) = 0 \<Longrightarrow>
     dv_n_outstanding (dq_dv q) = 0 \<Longrightarrow> dq_tx_available q = snap_dma_q_dv_get_tx_avail_max q \<Longrightarrow>
     cq_inv (dq_tx_cq q) 0 [] \<Longrightarrow> L < 2 ^ 15 \<Longrightarrow> dma_reach api L q 0 0 [] [] []"
| reach_call: "dma_reach api L q P C es rep dev \<Longrightarrow> inline_len c \<le> L \<Longrightarrow> dma_exec api c q = Some (rc, q') \<Longrightarrow>
     ws = (if rc = 0 then call_wqes q c else []) \<Longrightarrow>
     dma_reach api L q' (P + wqe_total ws) C es rep (dev @ inflight P (dv_n_outstanding (dq_dv q)) ws)"
| reach_device: "dma_reach api L q P C es rep ((s, n) # dev) \<Longrightarrow> cqe_wqe_counter e = of_nat s \<Longrightarrow>
     cqe_ready (unat (cq_cqe_cnt (dq_tx_cq q))) (C + length es) e \<Longrightarrow>
     dma_reach api L (q\<lparr>dq_tx_cq := cq_device_write (C + length es) e (dq_tx_cq q)\<rparr>) P C
       (es @ [e]) (rep @ [(s, n)]) dev"
| reach_progress: "dma_reach api L q P C es rep dev \<Longrightarrow>
     dv_dma_q_progress_tx err_cb counts q max_tx = (r, q') \<Longrightarrow> k = unat (cq_ci (dq_tx_cq q') - cq_ci (dq_tx_cq q)) \<Longrightarrow>
     dma_reach api L q' P (C + k) (drop k es) (drop k rep) dev"

lemma posts_tx_cq: "posts q ws q1 \<Longrightarrow> dq_tx_cq q1 = dq_tx_cq q"
  by (induction rule: posts.induct) (auto simp: posted1_def Let_def)

lemma posts_max: "posts q ws q1 \<Longrightarrow> snap_dma_q_dv_get_tx_avail_max q1 = snap_dma_q_dv_get_tx_avail_max q"
  by (induction rule: posts.induct) (auto simp: posted1_def Let_def snap_dma_q_dv_get_tx_avail_max_def)

lemma call_inv:
  assumes inv: "dma_inv N q P C es rep dev" and p: "posts q ws q1"
    and "int (wqe_total ws) \<le> dq_tx_available q" and "list_all (\<lambda>w. fst w \<le> N) ws"
  shows "dma_inv N (q1\<lparr>dq_tx_available := dq_tx_available q - int (wqe_total ws)\<rparr>) (P + wqe_total ws) C es rep
     (dev @ inflight P (dv_n_outstanding (dq_dv q)) ws)"
proof -
  let ?q = "q1\<lparr>dq_tx_available := dq_tx_available q - int (wqe_total ws)\<rparr>"
  have "credit_inv q (dq_tx_available q) P (rep @ dev)" using inv by (simp add: dma_inv_def)
  from posts_inv [OF p this assms(3)]
  have "credit_inv ?q (dq_tx_available ?q) (P + wqe_total ws)
      (rep @ dev @ inflight P (dv_n_outstanding (dq_dv q)) ws)"
    by (auto intro: credit_inv_cong)
  then show ?thesis
    using inv posts_tx_cq [OF p] posts_out_bound [OF p assms(4)] posts_max [OF p]
    by (simp add: dma_inv_def snap_dma_q_dv_get_tx_avail_max_def)
qed

lemma chain_length: "chain b bs e \<Longrightarrow> length bs \<le> sum_list (map snd bs)"
  by (induction b bs e rule: chain.induct) fastforce+

lemma credit_inv_length:
  assumes "credit_inv q a P bs"
  shows "int (length bs) + a + dv_n_outstanding (dq_dv q) \<le> snap_dma_q_dv_get_tx_avail_max q"
proof -
  have "length bs \<le> sum_list (map snd bs)" using assms by (auto simp: credit_inv_def Let_def dest: chain_length)
  then show ?thesis using assms by (auto simp: credit_inv_def Let_def)
qed

text \<open>The completion ring has a free slot whenever the device has something to report.\<close>

lemma device_room:
  assumes inv: "dma_inv N q P C es rep dev" and "dev \<noteq> []"
  shows "length es < unat (cq_cqe_cnt (dq_tx_cq q))"
proof -
  have "length es = length rep" using inv by (auto simp: dma_inv_def cqes_match_def dest: list_all2_lengthD)
  moreover have "int (length (rep @ dev)) \<le> snap_dma_q_dv_get_tx_avail_max q"
    using inv credit_inv_length [of q "dq_tx_available q" P "rep @ dev"]
    by (auto simp: dma_inv_def credit_inv_def Let_def)
  moreover have "snap_dma_q_dv_get_tx_avail_max q \<le> int (unat (cq_cqe_cnt (dq_tx_cq q)))"
    unfolding snap_dma_q_dv_get_tx_avail_max_def by (rule min.cobounded2)
  ultimately have "int (length es) + int (length dev) \<le> int (unat (cq_cqe_cnt (dq_tx_cq q)))"
    unfolding length_append by linarith
  then show ?thesis using assms(2) unfolding length_greater_0_conv [symmetric] by linarith
qed

lemma device_inv:
  assumes inv: "dma_inv N q P C es rep ((s, n) # dev)" and "cqe_wqe_counter e = of_nat s"
    and "cqe_ready (unat (cq_cqe_cnt (dq_tx_cq q))) (C + length es) e"
  shows "dma_inv N (q\<lparr>dq_tx_cq := cq_device_write (C + length es) e (dq_tx_cq q)\<rparr>) P C
    (es @ [e]) (rep @ [(s, n)]) dev"
proof -
  have room: "length es < unat (cq_cqe_cnt (dq_tx_cq q))" using device_room [OF inv] by simp
  have "cq_inv (cq_device_write (C + length es) e (dq_tx_cq q)) C (es @ [e])"
    using inv room assms(3) by (intro cq_inv_write) (auto simp: dma_inv_def)
  moreover have "credit_inv (q\<lparr>dq_tx_cq := cq_device_write (C + length es) e (dq_tx_cq q)\<rparr>)
      (dq_tx_available q) P (rep @ (s, n) # dev)"
    using inv by (auto simp: dma_inv_def cq_device_write_def intro: credit_inv_cong)
  ultimately show ?thesis
    using inv assms(2)
    by (auto simp: dma_inv_def cqes_match_def snap_dma_q_dv_get_tx_avail_max_def cq_device_write_def
        intro: list_all2_appendI)
qed

lemma pow2_above_16:
  assumes "SNAP_IS_POW2 (w :: u32)" and "0 < t" and "sw_tx_qsize t \<le> w"
  shows "32 \<le> unat w"
proof -
  have "17 \<le> sw_tx_qsize t" using assms(2) by (auto simp: sw_tx_qsize_def word_le_nat_alt word_less_nat_alt)
  with assms(3) have "(17 :: u32) \<le> w" by (rule order_trans [rotated])
  then have "17 \<le> unat w" by (simp add: word_le_nat_alt)
  moreover obtain k where k: "k < 32" "w = 2 ^ k" using assms(1) by (auto simp: SNAP_IS_POW2_iff)
  then have c: "unat w = 2 ^ k" by (simp add: unat_pow2)
  ultimately have "(2 :: nat) ^ 4 < 2 ^ k" by simp
  then have "5 \<le> k" by (metis Suc_leI eval_nat_numeral(3) one_less_numeral_iff power_strict_increasing_iff semiring_norm(76))
  then have "(2 :: nat) ^ 5 \<le> 2 ^ k" by (intro power_increasing) simp_all
  then show ?thesis using c by simp
qed

lemma dma_reach_L: "dma_reach api L q P C es rep dev \<Longrightarrow> L < 2 ^ 15"
  by (induction rule: dma_reach.induct) simp_all

lemma cq_distance:
  assumes "cq_inv cq C es" and "cq_inv cq' (C + k) es'" and "k \<le> length es"
  shows "unat (cq_ci cq' - cq_ci cq) = k"
proof -
  have "k < 2 ^ 32"
    using assms(1,3) unsigned_less [of "cq_cqe_cnt cq", where 'a = nat] by (auto simp: cq_inv_def Let_def)
  moreover have "cq_ci cq' - cq_ci cq = of_nat k" using assms(1,2) by (simp add: cq_inv_def Let_def)
  ultimately show ?thesis by (simp add: unat_of_nat_small)
qed

lemma dma_reach_inv:
  assumes "dma_reach api L q P C es rep dev"
  shows "dma_inv (max_wqe_bbs L) q P C es rep dev"
  using assms
proof (induction rule: dma_reach.induct)
  case (reach_init q tx_qsize)
  have "SNAP_IS_POW2 (cq_cqe_cnt (dq_tx_cq q))" using reach_init by (simp add: cq_inv_def Let_def)
  from pow2_above_16 [OF this reach_init(3,5)] pow2_above_16 [OF reach_init(1,3,4)]
  have "32 \<le> snap_dma_q_dv_get_tx_avail_max q" unfolding snap_dma_q_dv_get_tx_avail_max_def by linarith
  with reach_init show ?case
    by (auto simp: dma_inv_def credit_inv_def Let_def cqes_match_def)
next
  case (reach_call q P C es rep dev c rc q' ws)
  from dma_exec_took [OF reach_call.hyps(2) dma_reach_L [OF reach_call.hyps(1)] reach_call.hyps(3)]
  show ?case
    using reach_call.IH reach_call.hyps(4) call_inv [OF reach_call.IH, of ws]
    by (cases "rc = 0") (auto simp: took_credits_def wqe_total_def)
next
  case (reach_device q P C es rep s n dev e)
  then show ?case by (auto intro: device_inv)
next
  case (reach_progress q P C es rep dev err_cb counts max_tx r q' k)
  from progress_tx_inv [OF reach_progress.IH reach_progress.hyps(2)] obtain k' where
    k': "k' \<le> length es" "dma_inv (max_wqe_bbs L) q' P (C + k') (drop k' es) (drop k' rep) dev" by blast
  have "k = k'"
    using reach_progress.IH reach_progress.hyps(3) k'
      cq_distance [of "dq_tx_cq q" C es "dq_tx_cq q'" k' "drop k' es"] by (simp add: dma_inv_def)
  with k'(2) show ?case by simp
qed

lemma chain_distinct:
  assumes "chain b bs e" and "e - b \<le> sz"
  shows "distinct (map (\<lambda>x. fst x mod sz) bs)"
  using assms
proof (induction b bs e rule: chain.induct)
  case (2 b s n bs e)
  have tot: "e = b + n + sum_list (map snd bs)" using 2(2) chain_total [of "b + n" bs e] by simp
  have "s mod sz \<noteq> fst x mod sz" if "x \<in> set bs" for x
  proof
    assume eq: "s mod sz = fst x mod sz"
    have x: "b + n \<le> fst x" "fst x < e" using chain_bounds [of "b + n" bs e "fst x" "snd x"] 2(2) that by auto
    then have "sz dvd fst x - s" using 2(2) eq mod_eq_dvd_iff_nat [of s "fst x" sz] by auto
    then show False using x 2(2,3) by (auto dest!: dvd_imp_le)
  qed
  with 2 tot show ?case by auto
qed simp

text \<open>C22. In every state that data-path calls, device completions and progress calls can
  reach, the credits available, those of unsignalled requests not yet covered by a completion and those
  of the signalled requests in flight add up to the size of the queue; no two requests in flight share a
  slot of the completion array, and their completions fit the completion ring.\<close>

theorem dma_queue_credits:
  assumes "dma_reach api L q P C es rep dev"
  shows "0 \<le> dq_tx_available q \<and>
     dq_tx_available q + dv_n_outstanding (dq_dv q) + int (sum_list (map snd (rep @ dev))) =
       snap_dma_q_dv_get_tx_avail_max q \<and>
     distinct (map (\<lambda>x. fst x mod unat (sq_wqe_cnt (dq_dv q))) (rep @ dev)) \<and>
     length es = length rep \<and> length (rep @ dev) \<le> unat (cq_cqe_cnt (dq_tx_cq q))"
proof -
  have inv: "dma_inv (max_wqe_bbs L) q P C es rep dev" using assms by (rule dma_reach_inv)
  then have ci: "credit_inv q (dq_tx_available q) P (rep @ dev)" and le: "length es = length rep"
    by (auto simp: dma_inv_def cqes_match_def dest: list_all2_lengthD)
  let ?sz = "unat (sq_wqe_cnt (dq_dv q))" and ?out = "dv_n_outstanding (dq_dv q)"
  have mx: "snap_dma_q_dv_get_tx_avail_max q \<le> int ?sz"
    "snap_dma_q_dv_get_tx_avail_max q \<le> int (unat (cq_cqe_cnt (dq_tx_cq q)))"
    unfolding snap_dma_q_dv_get_tx_avail_max_def by (rule min.cobounded1, rule min.cobounded2)
  from ci obtain b where b: "chain b (rep @ dev) (P - nat ?out)" and s: "0 \<le> dq_tx_available q" "0 \<le> ?out"
    "dq_tx_available q + ?out + int (sum_list (map snd (rep @ dev))) = snap_dma_q_dv_get_tx_avail_max q"
    by (auto simp: credit_inv_def Let_def)
  have "P - nat ?out - b \<le> ?sz" using chain_total [OF b] s mx(1) by linarith
  moreover have "length (rep @ dev) \<le> unat (cq_cqe_cnt (dq_tx_cq q))"
    using credit_inv_length [OF ci] mx(2) s(1,2) by linarith
  ultimately show ?thesis using chain_distinct [OF b] s le by auto
qed

lemma dma_reach_exec:
  assumes "dma_reach api L q P C es rep dev" and "inline_len c \<le> L" and "dma_exec api c q = Some (rc, q')"
  shows "\<exists>P' dev'. P \<le> P' \<and> dma_reach api L q' P' C es rep (dev @ dev')"
  using reach_call [OF assms refl] by (metis le_add1)

text \<open>
  The completion slots and the count of unsignalled blocks after the requests \<open>ws\<close> are posted from
  position \<open>P\<close> on, in a ring of \<open>sz\<close> entries.
\<close>

fun fill_slots :: "nat \<Rightarrow> nat \<Rightarrow> int \<Rightarrow> posted_wqe list \<Rightarrow> (int \<times> comp_id option) list \<Rightarrow> (int \<times> comp_id option) list" where
  "fill_slots sz P out [] sl = sl"
| "fill_slots sz P out ((n, sig, cm) # ws) sl =
     fill_slots sz (P + n) (if sig then 0 else out + int n) ws (sl[P mod sz := (if sig then out + int n else 0, cm)])"

fun unsignalled :: "int \<Rightarrow> posted_wqe list \<Rightarrow> int" where
  "unsignalled out [] = out"
| "unsignalled out ((n, sig, cm) # ws) = unsignalled (if sig then 0 else out + int n) ws"

lemma posts_exact:
  assumes "posts q ws q'" and "sq_pi (dq_dv q) = of_nat P"
    and "SNAP_IS_POW2 (sq_wqe_cnt (dq_dv q))" and "unat (sq_wqe_cnt (dq_dv q)) \<le> 2 ^ 16"
  shows "sq_pi (dq_dv q') = sq_pi (dq_dv q) + of_nat (wqe_total ws) \<and>
    slots (dq_dv q') = fill_slots (unat (sq_wqe_cnt (dq_dv q))) P (dv_n_outstanding (dq_dv q)) ws (slots (dq_dv q)) \<and>
    dv_n_outstanding (dq_dv q') = unsignalled (dv_n_outstanding (dq_dv q)) ws"
  using assms
proof (induction arbitrary: P rule: posts.induct)
  case (posts_nil q)
  then show ?case by (simp add: wqe_total_def)
next
  case (posts_cons q w q1 ws q2)
  obtain n sig cm where w: "w = (n, sig, cm)" by (cases w)
  have idx: "sq_index (dq_dv q) (sq_pi (dq_dv q)) = P mod unat (sq_wqe_cnt (dq_dv q))"
    unfolding sq_index_def posts_cons.prems(1) using posts_cons.prems(2,3) by (rule pow2_mod_u16)
  have p: "sq_pi (dq_dv q1) = of_nat (P + n)" "sq_wqe_cnt (dq_dv q1) = sq_wqe_cnt (dq_dv q)"
    "dv_n_outstanding (dq_dv q1) = (if sig then 0 else dv_n_outstanding (dq_dv q) + int n)"
    "slots (dq_dv q1) = (slots (dq_dv q))[P mod unat (sq_wqe_cnt (dq_dv q)) :=
       (if sig then dv_n_outstanding (dq_dv q) + int n else 0, cm)]"
    using posts_cons.hyps(1) posts_cons.prems(1) unfolding posted1_def Let_def w idx by simp_all
  from posts_cons.IH [OF p(1)] posts_cons.prems(2,3) show ?case
    unfolding p posts_cons.prems(1) by (simp add: w wqe_total_def)
qed

text \<open>C25. A data-path call on a reachable queue either returns an error and changes nothing, for
  want of credits or because it is invalid, or it returns 0, takes the credits of exactly the requests
  that its arguments ask for, advances the producer index by their building blocks, records for
  each of them in its completion slot the completion object and the credits to return, and leaves the
  queue in the reachable state in which these requests follow those the device already holds.\<close>

theorem dma_call_effect:
  assumes "dma_reach api L q P C es rep dev" and "inline_len c \<le> L" and "dma_exec api c q = Some (rc, q')"
    and "ws = call_wqes q c" and "n = wqe_total ws" and "out = dv_n_outstanding (dq_dv q)"
  shows "rc \<noteq> 0 \<and> q' = q \<and> (rc = - EINVAL \<or> rc = - EAGAIN \<and> dq_tx_available q < int n) \<or>
     rc = 0 \<and> map fst ws = call_bbs c \<and> int n \<le> dq_tx_available q \<and> dq_tx_available q' = dq_tx_available q - int n \<and>
       sq_pi (dq_dv q') = sq_pi (dq_dv q) + of_nat n \<and> dv_n_outstanding (dq_dv q') = unsignalled out ws \<and>
       slots (dq_dv q') = fill_slots (unat (sq_wqe_cnt (dq_dv q))) P out ws (slots (dq_dv q)) \<and>
       dma_reach api L q' (P + n) C es rep (dev @ inflight P out ws)"
proof (cases "rc = 0")
  case True
  from dma_exec_took [OF assms(2) dma_reach_L [OF assms(1)] assms(3)] True obtain q1 where
    q1: "posts q ws q1" "int n \<le> dq_tx_available q" "q' = q1\<lparr>dq_tx_available := dq_tx_available q - int n\<rparr>"
    unfolding assms(4,5) by (auto simp: took_credits_def)
  have "credit_inv q (dq_tx_available q) P (rep @ dev)" using dma_reach_inv [OF assms(1)] by (simp add: dma_inv_def)
  with posts_exact [OF q1(1), of P] q1 reach_call [OF assms(1-3) refl] True assms(4-6) show ?thesis
    by (simp add: credit_inv_def Let_def call_wqes_def)
next
  case False
  with dma_exec_took [OF assms(2) dma_reach_L [OF assms(1)] assms(3)] assms(4,5) show ?thesis
    by (simp add: took_credits_def)
qed

text \<open>C26. When at most 128 completions are ready, one call of the transmit progress function
  without an error callback polls all of them, gives back the credits of exactly the requests they
  cover, and leads to a reachable state with none ready.\<close>

theorem dma_progress_returns_credits:
  assumes "dma_reach api L q P C es rep dev" and "length es \<le> SNAP_DMA_MAX_TX_COMPLETIONS"
    and "dv_dma_q_progress_tx None counts q (- 1) = (r, q')"
  shows "tr_n r = length es \<and> dq_tx_available q' = dq_tx_available q + int (sum_list (map snd rep)) \<and>
     dma_reach api L q' P (C + length es) [] [] dev"
proof -
  have inv: "dma_inv (max_wqe_bbs L) q P C es rep dev" using assms(1) by (rule dma_reach_inv)
  have le: "length rep = length es" using inv by (auto simp: dma_inv_def cqes_match_def dest: list_all2_lengthD)
  have nh: "filter (\<lambda>e. \<not> err_handled None e) xs = xs" for xs by (simp add: err_handled_def)
  from progress_tx_inv [OF inv assms(3)] obtain k where k: "k \<le> length es"
    "dma_inv (max_wqe_bbs L) q' P (C + k) (drop k es) (drop k rep) dev"
    "dq_tx_available q' = dq_tx_available q + int (sum_list (map snd (take k rep)))"
    "tr_n r = k" "k = length es \<or> tr_n r = SNAP_DMA_MAX_TX_COMPLETIONS" unfolding nh by auto
  then have kl: "k = length es" using assms(2) by auto
  have "unat (cq_ci (dq_tx_cq q') - cq_ci (dq_tx_cq q)) = k"
    using inv k(1,2) by (intro cq_distance) (auto simp: dma_inv_def)
  from reach_progress [OF assms(1,3) refl] this k kl le show ?thesis by simp
qed

text \<open>C29. Unsignalled requests cannot use up a queue: when nothing is in flight and every completion
  has been polled, at most 14 blocks plus one longest request are unavailable, and a queue of any size that
  the library creates has the credits for a longest request of calls with at most 525 inline bytes.\<close>

theorem dma_no_starvation:
  assumes "dma_reach api L q P C [] [] []"
  shows "snap_dma_q_dv_get_tx_avail_max q \<le> dq_tx_available q + 14 + int (max_wqe_bbs L) \<and>
    (L \<le> 525 \<longrightarrow> qp_can_tx q (max_wqe_bbs L))"
proof -
  note inv = dma_reach_inv [OF assms]
  have "max_wqe_bbs L \<le> 9" if "L \<le> 525"
    using div_le_mono [of "L + 114" 639 64] that by (simp add: max_wqe_bbs_def)
  with inv show ?thesis by (fastforce simp: dma_inv_def credit_inv_def Let_def qp_can_tx_def)
qed

text \<open>A plain write without a completion object is unsignalled until the moderation count is reached.\<close>

lemma write_reach:
  assumes r: "dma_reach api L q P C es rep dev" and "qp_can_tx q 1"
    and sig: "sig \<longleftrightarrow> cm \<noteq> None \<or> dv_n_outstanding (dq_dv q) + 1 \<ge> SNAP_DMA_Q_TX_MOD_COUNT"
  shows "\<exists>q'. snap_dma_q_write api q b l k a rk cm = (0, q') \<and>
    dma_reach api L q' (Suc P) C es rep
      (dev @ (if sig then [(P, nat (dv_n_outstanding (dq_dv q)) + 1)] else [])) \<and>
    dv_n_outstanding (dq_dv q') = (if sig then 0 else dv_n_outstanding (dq_dv q) + 1) \<and>
    dq_tx_available q' = dq_tx_available q - 1 \<and> dq_tx_cq q' = dq_tx_cq q"
proof -
  obtain rc q' where w: "snap_dma_q_write api q b l k a rk cm = (rc, q')"
    by (cases "snap_dma_q_write api q b l k a rk cm")
  let ?c = "DmaWrite b l k a rk cm"
  have e: "dma_exec api ?c q = Some (rc, q')" and i: "inline_len ?c \<le> L" using w by simp_all
  have ws: "call_wqes q ?c = [(1, sig, cm)]" using sig by (auto simp: call_wqes_def Let_def)
  have t: "took_credits (max_wqe_bbs L) [(1, sig, cm)] q rc q'"
    using dma_exec_took [OF i dma_reach_L [OF r] e] unfolding ws .
  have "rc \<noteq> - EINVAL" using w assms(2)
    by (cases "dq_mode q") (auto simp: snap_dma_q_write_def ops_write_def dv_dma_q_write_def gga_dma_q_write_def
        do_dv_dma_xfer_def do_gga_dma_xfer_def Let_def)
  with t assms(2) have rc: "rc = 0" by (auto simp: took_credits_def qp_can_tx_def wqe_total_def split: if_splits)
  with t have "posted1 q (1, sig, cm) (q'\<lparr>dq_tx_available := dq_tx_available q\<rparr>)" "dq_tx_available q' = dq_tx_available q - 1"
    by (auto simp: took_credits_def wqe_total_def posted1_def Let_def db_inv_def elim!: posts.cases)
  moreover have "dma_reach api L q' (Suc P) C es rep
      (dev @ (if sig then [(P, nat (dv_n_outstanding (dq_dv q)) + 1)] else []))"
    using reach_call [OF r i e refl] rc ws by (cases sig) (simp_all add: wqe_total_def)
  ultimately show ?thesis using w rc by (simp add: posted1_def Let_def)
qed

section \<open>Witnesses\<close>

definition api0 :: mlx5_api where
  "api0 = \<lparr>api_set_ctrl_seg = (\<lambda>old pi opc opmod qpn fm ds sig imm. htobe32 (ucast pi) @ htobe32 qpn @ drop 8 old),
     api_set_data_seg = (\<lambda>len key addr. htobe32 len @ htobe32 key @ htobe64 addr)\<rparr>"

definition cq0 :: snap_hw_cq where
  "cq0 = \<lparr>cq_ring = (\<lambda>_. \<lparr>cqe_owner = False, cqe_opcode = MLX5_CQE_INVALID, cqe_scatter32 = False, cqe_scatter64 = False,
       cqe_wqe_counter = 0, cqe_byte_cnt = 0, cqe_srqn_uidx = 0, cqe_imm = 0, cqe_syndrome = 0, cqe_data = []\<rparr>),
     cq_cqe_cnt = 64, cq_ci = 0, cq_num = 1, cq_sn = 0, cq_arm_dbrec = 0, cq_doorbell = 0\<rparr>"

definition dma_q0 :: "nat \<Rightarrow> snap_dma_q" where
  "dma_q0 cnt = \<lparr>dq_dv = \<lparr>sq_mem = (\<lambda>_. 0), sq_wqe_cnt = of_nat cnt, sq_pi = 0, sq_dbr = 0, rq_wqe_cnt = 4, rq_ci = 0,
       rq_dbr = 0, qp_num = 7, dv_n_outstanding = 0, dv_opaque_lkey = 0, dv_opaque_buf = 0,
       dv_comps = replicate cnt \<lparr>c_n_outstanding = 0, c_read_payload = None, c_comp = None\<rparr>,
       dv_db_flag = SNAP_DB_RING_BATCH, dv_tx_need_ring_db = False, dv_ctrl = 0, dv_tx_total_dbs = 0,
       dv_tx_total_completed = 0, dv_rx_total_dbs = 0, dv_rx_total_completed = 0\<rparr>,
     dq_tx_cq = cq0, dq_rx_cq = cq0, dq_tx_available = min (int cnt) 64, dq_tx_elem_size = 64, dq_rx_elem_size = 64,
     dq_rx_buf = 0, dq_mode = SNAP_DMA_Q_MODE_DV, dq_worker = None\<rparr>"

lemma cq0_inv: "cq_inv cq0 0 []"
proof -
  have "SNAP_IS_POW2 (64 :: u32)" by code_simp
  then show ?thesis by (simp add: cq_inv_def cq0_def cqe_ready_def)
qed

lemma dma_q0_reach: "dma_reach api0 64 (dma_q0 64) 0 0 [] [] []"
proof -
  have p: "SNAP_IS_POW2 (64 :: u32)" by code_simp
  show ?thesis
    by (rule reach_init [where tx_qsize = 64];
        (use p in \<open>simp add: dma_q0_def cq0_inv snap_dma_q_dv_get_tx_avail_max_def sw_tx_qsize_def\<close>)?;
        (simp add: dma_q0_def cq0_def sw_tx_qsize_def)?)
qed

definition cqe0 :: mlx5_cqe64 where
  "cqe0 = \<lparr>cqe_owner = False, cqe_opcode = MLX5_CQE_REQ, cqe_scatter32 = False, cqe_scatter64 = False,
     cqe_wqe_counter = 0, cqe_byte_cnt = 0, cqe_srqn_uidx = 0, cqe_imm = 0, cqe_syndrome = 0, cqe_data = []\<rparr>"

text \<open>One signalled write that the device has completed.\<close>

lemma one_write_reach:
  "\<exists>q. dma_reach api0 64 q 1 0 [cqe0] [(0, 1)] [] \<and> dq_tx_available q = 63 \<and> dv_n_outstanding (dq_dv q) = 0"
proof -
  have "qp_can_tx (dma_q0 64) 1" by (simp add: qp_can_tx_def dma_q0_def)
  from write_reach [OF dma_q0_reach this, of True "Some 5" 0 0 0 0 0] obtain q where
    q: "dma_reach api0 64 q 1 0 [] [] [(0, 1)]" "dq_tx_available q = 63" "dv_n_outstanding (dq_dv q) = 0"
    "dq_tx_cq q = cq0"
    by (auto simp: dma_q0_def)
  have "cqe_ready (unat (cq_cqe_cnt (dq_tx_cq q))) (0 + length ([] :: mlx5_cqe64 list)) cqe0"
    by (simp add: cqe_ready_def cqe0_def q(4) cq0_def)
  from reach_device [OF q(1) _ this] have
    "dma_reach api0 64 (q\<lparr>dq_tx_cq := cq_device_write 0 cqe0 (dq_tx_cq q)\<rparr>) 1 0 [cqe0] [(0, 1)] []"
    by (simp add: cqe0_def)
  with q show ?thesis by fastforce
qed

theorem dma_queue_credits_witness:
  "\<exists>q. dma_reach api0 64 q 1 0 [cqe0] [(0, 1)] [] \<and> dq_tx_available q = 63 \<and> snap_dma_q_dv_get_tx_avail_max q = 64 \<and>
     1 \<le> unat (cq_cqe_cnt (dq_tx_cq q))"
proof -
  obtain q where q: "dma_reach api0 64 q 1 0 [cqe0] [(0, 1)] []" "dq_tx_available q = 63"
    "dv_n_outstanding (dq_dv q) = 0" using one_write_reach by blast
  from dma_queue_credits [OF q(1)] q show ?thesis by (intro exI [of _ q]) auto
qed

theorem dma_call_effect_witness:
  "\<exists>q'. dma_exec api0 (DmaWrite 0x1000 512 1 0x2000 2 (Some 5)) (dma_q0 64) = Some (0, q') \<and>
     dq_tx_available q' = 63 \<and> sq_pi (dq_dv q') = 1 \<and> slots (dq_dv q') ! 0 = (1, Some 5) \<and>
     dma_reach api0 64 q' 1 0 [] [] [(0, 1)]"
proof -
  let ?c = "DmaWrite 0x1000 512 1 0x2000 2 (Some 5)"
  have "qp_can_tx (dma_q0 64) 1" by (simp add: qp_can_tx_def dma_q0_def)
  from write_reach [OF dma_q0_reach this refl, of "0x1000" 512 1 "0x2000" 2 "Some 5"] obtain q' where
    q': "dma_exec api0 ?c (dma_q0 64) = Some (0, q')" by auto
  have z: "dv_n_outstanding (dq_dv (dma_q0 64)) = 0" "dq_tx_available (dma_q0 64) = 64" "sq_pi (dq_dv (dma_q0 64)) = 0"
    "unat (sq_wqe_cnt (dq_dv (dma_q0 64))) = 64" "length (slots (dq_dv (dma_q0 64))) = 64"
    by (simp_all add: dma_q0_def slots_def)
  have ws: "call_wqes (dma_q0 64) ?c = [(1, True, Some 5)]" by (simp add: call_wqes_def Let_def)
  from dma_call_effect [OF dma_q0_reach _ q' refl refl refl] q' show ?thesis
    unfolding ws z by (auto simp: wqe_total_def z)
qed

theorem dma_progress_witness:
  "\<exists>q r q'. dq_tx_available q = 63 \<and> dv_dma_q_progress_tx None (\<lambda>_. 1) q (- 1) = (r, q') \<and>
     tr_n r = 1 \<and> dq_tx_available q' = 64"
proof -
  obtain q where q: "dma_reach api0 64 q 1 0 [cqe0] [(0, 1)] []" "dq_tx_available q = 63"
    using one_write_reach by blast
  obtain r q' where p: "dv_dma_q_progress_tx None (\<lambda>_. 1) q (- 1) = (r, q')"
    by (cases "dv_dma_q_progress_tx None (\<lambda>_. 1) q (- 1)")
  from dma_progress_returns_credits [OF q(1) _ p] q(2) p show ?thesis by auto
qed

theorem dma_no_starvation_witness: "qp_can_tx (dma_q0 64) (max_wqe_bbs 64)"
  using dma_no_starvation [OF dma_q0_reach] by simp

end
