(* ===== verification/Dma_Ring.thy ===== *)
theory Dma_Ring
  imports Dma_Sys
begin

text \<open>
  The two shared memories of the DMA queue: the bytes of the send ring (an inline message lies in
  the building blocks of its request, wrapped around the end of the ring, and nothing else of the
  ring changes), the doorbell record (a request is visible to the device after the next
  progress call), and the receive ring (messages are delivered in the order of their entries).
\<close>

definition api_ok :: "mlx5_api \<Rightarrow> bool" where
  "api_ok api \<longleftrightarrow>
     (\<forall>old pi opc opmod qpn fm ds sig imm. length old = 16 \<longrightarrow>
        length (api_set_ctrl_seg api old pi opc opmod qpn fm ds sig imm) = 16) \<and>
     (\<forall>len key addr. length (api_set_data_seg api len key addr) = 16)"

lemma length_htobe [simp]: "length (htobe32 w) = 4" "length (htobe64 v) = 8"
  by (simp_all add: htobe32_def htobe64_def)

text \<open>The bytes of the building blocks of an entry that starts at block \<open>idx\<close> of a ring.\<close>

definition wqe_bytes :: "nat \<Rightarrow> nat \<Rightarrow> nat \<Rightarrow> nat set" where
  "wqe_bytes ring off n_bb = (\<lambda>i. (off + i) mod ring) ` {..<n_bb * MLX5_SEND_WQE_BB}"

lemma inline_copy_spec:
  assumes "off + hdr + to_end = ring" and "hdr + length src \<le> ring"
  shows "i < length src \<Longrightarrow> inline_copy (off + hdr) to_end 0 src m ((off + hdr + i) mod ring) = src ! i"
    and "(\<And>i. i < length src \<Longrightarrow> x \<noteq> (off + hdr + i) mod ring) \<Longrightarrow> inline_copy (off + hdr) to_end 0 src m x = m x"
proof -
  have wrap: "(off + hdr + i) mod ring = i - to_end" if "to_end \<le> i" "i < length src" for i
  proof -
    have "off + hdr + i = ring + (i - to_end)" "i - to_end < ring" using that assms by linarith+
    then show ?thesis by simp
  qed
  have nowrap: "(off + hdr + i) mod ring = off + hdr + i" if "i < to_end" for i
    using that assms(1) by simp
  show "inline_copy (off + hdr) to_end 0 src m ((off + hdr + i) mod ring) = src ! i" if "i < length src"
  proof (cases "i < to_end")
    case True
    then show ?thesis unfolding nowrap [OF True] using assms that
      by (auto simp: inline_copy_def mem_put_def)
  next
    case False
    then show ?thesis using wrap [of i] that assms by (auto simp: inline_copy_def mem_put_def)
  qed
  show "inline_copy (off + hdr) to_end 0 src m x = m x" if n: "\<And>i. i < length src \<Longrightarrow> x \<noteq> (off + hdr + i) mod ring"
  proof (cases "length src > to_end")
    case True
    have "\<not> x < length src - to_end"
      using n [of "x + to_end"] wrap [of "x + to_end"] by (metis add_diff_cancel_right' le_add2 less_diff_conv)
    moreover have "\<not> (off + hdr \<le> x \<and> x < off + hdr + to_end)"
    proof
      assume "off + hdr \<le> x \<and> x < off + hdr + to_end"
      then have "x - (off + hdr) < to_end" "off + hdr + (x - (off + hdr)) = x" by linarith+
      with n [of "x - (off + hdr)"] nowrap [of "x - (off + hdr)"] True show False by simp
    qed
    ultimately show ?thesis using True by (auto simp: inline_copy_def mem_put_def)
  next
    case False
    have "\<not> (off + hdr \<le> x \<and> x < off + hdr + length src)"
    proof
      assume "off + hdr \<le> x \<and> x < off + hdr + length src"
      then have "x - (off + hdr) < length src" "off + hdr + (x - (off + hdr)) = x" by linarith+
      with n [of "x - (off + hdr)"] nowrap [of "x - (off + hdr)"] False show False by simp
    qed
    with False show ?thesis by (auto simp: inline_copy_def mem_put_def)
  qed
qed

lemma set_ctrl_seg_out:
  "api_ok api \<Longrightarrow> x < c \<or> c + 16 \<le> x \<Longrightarrow> snap_set_ctrl_seg api c pi opc om qpn fm ds sg imm m x = m x"
  by (auto simp: snap_set_ctrl_seg_def mem_put_out api_ok_def Let_def)

definition ctrl_seg_bytes ::
  "mlx5_api \<Rightarrow> snap_dv_qp \<Rightarrow> u8 \<Rightarrow> u8 \<Rightarrow> u8 \<Rightarrow> u32 \<Rightarrow> u8 list"
where
  "ctrl_seg_bytes api dv opc fm ds imm =
     (let off = snap_dv_get_wqe_bb dv
      in api_set_ctrl_seg api (mem_get off 16 (mem_put (off + 8) [0, 0, 0, 0] (sq_mem dv))) (sq_pi dv) opc 0
           (qp_num dv) fm ds 0 imm)"

lemma sq_index_less:
  assumes "SNAP_IS_POW2 (sq_wqe_cnt dv)"
  shows "sq_index dv pi < unat (sq_wqe_cnt dv)"
proof -
  obtain k where k: "k < 32" "sq_wqe_cnt dv = 2 ^ k" using assms by (auto simp: SNAP_IS_POW2_iff)
  have "(ucast pi :: u32) AND (sq_wqe_cnt dv - 1) = take_bit k (ucast pi)"
    using k by (simp add: take_bit_eq_mask mask_eq_exp_minus_1)
  then have "sq_index dv pi = take_bit k (unat (ucast pi :: u32))"
    by (simp add: sq_index_def unsigned_take_bit_eq)
  then show ?thesis using k by (simp add: unat_pow2)
qed

definition inline_headers ::
  "mlx5_api \<Rightarrow> snap_dv_qp \<Rightarrow> u8 \<Rightarrow> nat \<Rightarrow> u8 \<Rightarrow> u64 \<Rightarrow> u32 \<Rightarrow> (nat \<Rightarrow> u8)"
where
  "inline_headers api dv fm len opc raddr rkey =
     (let ctrl = snap_dv_get_wqe_bb dv;
          m = snap_set_ctrl_seg api ctrl (sq_pi dv) opc 0 (qp_num dv) fm
                (ucast (round_up (inline_wqe_size opc len False) 16)) 0 0 (sq_mem dv);
          m = (if opc = MLX5_OPCODE_RDMA_WRITE
               then mem_put (ctrl + 24) (htobe32 rkey) (mem_put (ctrl + 16) (htobe64 raddr) m)
               else m)
      in mem_put (ctrl + (inline_hdr opc - 4)) (htobe32 (of_nat len OR MLX5_INLINE_SEG)) m)"

lemma inline_wqe_split:
  "inline_wqe api dv fm src opc raddr rkey False =
     inline_copy (snap_dv_get_wqe_bb dv + inline_hdr opc)
       ((unat (sq_wqe_cnt dv) - sq_index dv (sq_pi dv)) * MLX5_SEND_WQE_BB - inline_hdr opc) 0 src
       (inline_headers api dv fm (length src) opc raddr rkey)"
proof -
  have "4 \<le> inline_hdr opc" by (simp add: inline_hdr_def)
  then have "snap_dv_get_wqe_bb dv + (inline_hdr opc - 4) + 4 = snap_dv_get_wqe_bb dv + inline_hdr opc" by simp
  then show ?thesis by (simp only: inline_wqe_def inline_headers_def Let_def simp_thms if_True)
qed

lemma inline_headers_out:
  assumes "api_ok api" and "x < snap_dv_get_wqe_bb dv \<or> snap_dv_get_wqe_bb dv + inline_hdr opc \<le> x"
  shows "inline_headers api dv fm len opc raddr rkey x = sq_mem dv x"
  using assms by (auto simp: inline_headers_def Let_def inline_hdr_def mem_put_out set_ctrl_seg_out split: if_splits)

lemma inline_headers_ctrl:
  assumes "api_ok api"
  shows "mem_get (snap_dv_get_wqe_bb dv) 16 (inline_headers api dv fm len opc raddr rkey) =
    ctrl_seg_bytes api dv opc fm (ucast (round_up (inline_wqe_size opc len False) 16)) 0"
  using assms
  by (simp add: inline_headers_def Let_def inline_hdr_def mem_get_put_out snap_set_ctrl_seg_def
      mem_get_put_same api_ok_def ctrl_seg_bytes_def)

lemma inline_wqe_written:
  fixes raddr :: u64 and rkey :: u32 and fm :: u8
  assumes ok: "api_ok api" and pow: "SNAP_IS_POW2 (sq_wqe_cnt dv)"
    and fit: "inline_hdr opc + length src \<le> n_bb * MLX5_SEND_WQE_BB" and nb: "n_bb \<le> unat (sq_wqe_cnt dv)"
  defines "ring \<equiv> unat (sq_wqe_cnt dv) * MLX5_SEND_WQE_BB" and "off \<equiv> snap_dv_get_wqe_bb dv"
    and "m \<equiv> inline_wqe api dv fm src opc raddr rkey False"
  shows "(\<forall>i < length src. m ((off + inline_hdr opc + i) mod ring) = src ! i) \<and>
     mem_get off 16 m = ctrl_seg_bytes api dv opc fm (ucast (round_up (inline_wqe_size opc (length src) False) 16)) 0 \<and>
     (\<forall>x. x \<notin> wqe_bytes ring off n_bb \<longrightarrow> m x = sq_mem dv x)"
proof -
  let ?h = "inline_hdr opc" and ?pi = "sq_index dv (sq_pi dv)" and ?cnt = "unat (sq_wqe_cnt dv)"
  let ?te = "(?cnt - ?pi) * MLX5_SEND_WQE_BB - ?h"
  let ?m0 = "inline_headers api dv fm (length src) opc raddr rkey"
  have h: "16 < ?h" "?h \<le> 64" by (auto simp: inline_hdr_def)
  have pi: "?pi < ?cnt" using pow by (rule sq_index_less)
  have off: "off = ?pi * 64" by (simp add: off_def snap_dv_get_wqe_bb_def)
  have e1: "off + ?h + ?te = ring"
  proof -
    have "64 \<le> (?cnt - ?pi) * 64" using pi by simp
    then show ?thesis using h pi by (simp add: off ring_def diff_mult_distrib)
  qed
  have nb64: "n_bb * 64 \<le> ring" using nb by (simp add: ring_def)
  with fit have e2: "?h + length src \<le> ring" by simp
  have m: "m = inline_copy (off + ?h) ?te 0 src ?m0" by (simp add: m_def off_def inline_wqe_split)
  note copy = inline_copy_spec [OF e1 e2, where m = ?m0, folded m]
  have hit: "(off + ?h + i) mod ring \<noteq> (off + j) mod ring" if "i < length src" "j < ?h" for i j
    using mod_window_inj [of "?h + i" ring j off] that e2 by (auto simp: add.assoc)
  have in_ring: "(off + j) mod ring = off + j" if "j < 64" for j
  proof -
    have "off + 64 \<le> ring" using pi by (simp add: off ring_def)
    then show ?thesis using that by simp
  qed
  have "mem_get off 16 m = mem_get off 16 ?m0"
  proof -
    have "m (off + j) = ?m0 (off + j)" if "j < 16" for j
    proof (rule copy(2))
      show "off + j \<noteq> (off + ?h + i) mod ring" if "i < length src" for i
        using hit [OF that, of j] in_ring [of j] \<open>j < 16\<close> h by auto
    qed
    then show ?thesis by (rule mem_get_cong)
  qed
  moreover have "m x = sq_mem dv x" if x: "x \<notin> wqe_bytes ring off n_bb" for x
  proof -
    have all: "x \<noteq> (off + j) mod ring" if "j < n_bb * 64" for j using x that by (auto simp: wqe_bytes_def)
    have "m x = ?m0 x" using all [of "?h + i" for i] fit by (intro copy(2)) (auto simp: add.assoc)
    moreover have "x < off \<or> off + ?h \<le> x"
    proof (rule ccontr)
      assume "\<not> ?thesis"
      then have "x = (off + (x - off)) mod ring" "x - off < ?h" using in_ring [of "x - off"] h by auto
      moreover have "?h \<le> n_bb * 64" using fit by simp
      ultimately show False using all [of "x - off"] by auto
    qed
    ultimately show ?thesis using inline_headers_out [OF ok, of x dv opc] by (simp add: off_def)
  qed
  ultimately show ?thesis
    using copy(1) inline_headers_ctrl [OF ok, of dv fm "length src" opc raddr rkey] by (auto simp: off_def)
qed

lemma commit_mem [simp]: "sq_mem (dq_dv (dv_commit_wqe n cm fm m q)) = m"
  by (simp add: dv_commit_wqe_def Let_def)

text \<open>C24. An inline transfer that succeeds leaves the message bytes, in order and wrapped around the end of the send ring, behind the headers of the request, and changes no byte of the ring outside the building blocks it claims.\<close>

theorem do_dv_xfer_inline_ring:
  fixes q q' :: snap_dma_q
  assumes "api_ok api" and "SNAP_IS_POW2 (sq_wqe_cnt (dq_dv q))"
    and "dq_tx_available q \<le> int (unat (sq_wqe_cnt (dq_dv q)))" and len: "length src < 2 ^ 15"
    and x: "do_dv_xfer_inline api q src opc raddr rkey cm False = (0, n_bb, q')"
  defines "ring \<equiv> unat (sq_wqe_cnt (dq_dv q)) * MLX5_SEND_WQE_BB" and "off \<equiv> snap_dv_get_wqe_bb (dq_dv q)"
  shows "(\<forall>i < length src. sq_mem (dq_dv q') ((off + inline_hdr opc + i) mod ring) = src ! i) \<and>
     (\<forall>x. x \<notin> wqe_bytes ring off n_bb \<longrightarrow> sq_mem (dq_dv q') x = sq_mem (dq_dv q) x)"
proof -
  have can: "qp_can_tx q n_bb" and nbb: "n_bb = unat (round_up (inline_wqe_size opc (length src) False) 64)"
    and m: "\<exists>fm. sq_mem (dq_dv q') = inline_wqe api (dq_dv q) fm src opc raddr rkey False"
    using x unfolding do_dv_xfer_inline_def Let_def by (auto split: if_splits)
  have "unat (inline_wqe_size opc (length src) False) = inline_hdr opc + length src"
    using len by (auto simp: inline_wqe_size_def inline_hdr_def unat_of_nat unat_word_ariths)
  then have "inline_hdr opc + length src \<le> n_bb * MLX5_SEND_WQE_BB"
    unfolding nbb round_up_64 by (simp add: algebra_simps)
  moreover have "n_bb \<le> unat (sq_wqe_cnt (dq_dv q))"
    using can assms(3) unfolding qp_can_tx_def by linarith
  ultimately show ?thesis
    using inline_wqe_written [OF assms(1,2)] m unfolding ring_def off_def by auto
qed

lemma posts_db: "posts q ws q' \<Longrightarrow> db_inv q \<Longrightarrow> db_inv q'"
  by (induction rule: posts.induct) (auto simp: posted1_def Let_def)

lemma db_avail: "db_inv (q\<lparr>dq_tx_available := n\<rparr>) = db_inv q"
  by (simp add: db_inv_def)

lemma get_comp_db:
  assumes "dv_dma_q_get_comp q1 e = (cm, cps, q2)"
  shows "sq_pi (dq_dv q2) = sq_pi (dq_dv q1) \<and> sq_dbr (dq_dv q2) = sq_dbr (dq_dv q1) \<and>
    dv_tx_need_ring_db (dq_dv q2) = dv_tx_need_ring_db (dq_dv q1)"
  using assms unfolding dv_dma_q_get_comp_def Let_def by (auto split: option.splits if_splits)

lemma tx_poll_loop_db:
  "tx_poll_loop err_cb fuel n q = (cs, cps, q') \<Longrightarrow>
    sq_pi (dq_dv q') = sq_pi (dq_dv q) \<and> sq_dbr (dq_dv q') = sq_dbr (dq_dv q) \<and>
    dv_tx_need_ring_db (dq_dv q') = dv_tx_need_ring_db (dq_dv q)"
proof (induction fuel arbitrary: n q cs cps)
  case (Suc fuel)
  show ?case
  proof (cases "n = 0 \<or> snap_dv_poll_cq (dq_tx_cq q) = None")
    case True
    with Suc.prems show ?thesis by (auto split: option.splits)
  next
    case False
    then obtain e cq where poll: "snap_dv_poll_cq (dq_tx_cq q) = Some (e, cq)" by auto
    obtain cm cps1 q1 where q1: "dv_dma_q_get_comp (q\<lparr>dq_tx_cq := cq\<rparr>) e = (cm, cps1, q1)"
      by (cases "dv_dma_q_get_comp (q\<lparr>dq_tx_cq := cq\<rparr>) e")
    have "\<exists>m cs' cps'. tx_poll_loop err_cb fuel m q1 = (cs', cps', q')"
      using Suc.prems False poll q1 by (auto simp: Let_def split: prod.splits if_splits)
    with Suc.IH get_comp_db [OF q1] show ?thesis by fastforce
  qed
qed simp

text \<open>C28. A data-path call keeps the doorbell bookkeeping, and the next call of the transmit progress function leaves the doorbell record equal to the producer index: no posted request stays invisible to the device.\<close>

theorem dma_doorbell_rung:
  assumes "db_inv q" and "dma_exec api c q = Some (rc, q')" and "inline_len c < 2 ^ 15"
    and "dv_dma_q_progress_tx err_cb counts q' max_tx = (r, q'')"
  shows "db_inv q' \<and> sq_dbr (dq_dv q'') = sq_pi (dq_dv q') \<and> sq_pi (dq_dv q'') = sq_pi (dq_dv q') \<and>
    \<not> dv_tx_need_ring_db (dq_dv q'')"
proof -
  from dma_exec_took [OF le_refl assms(3,2)] have db: "db_inv q'"
    using posts_db [OF _ assms(1)] assms(1) unfolding took_credits_def
    by (auto simp: db_avail split: if_splits)
  let ?max = "if max_tx = - 1 then SNAP_DMA_MAX_TX_COMPLETIONS else unat (of_int max_tx :: u16)"
  obtain cs cps q1 where l: "tx_poll_loop err_cb (tx_poll_fuel q' ?max) ?max q' = (cs, cps, q1)"
    by (cases "tx_poll_loop err_cb (tx_poll_fuel q' ?max) ?max q'")
  have "dq_dv q'' = (snap_dv_tx_complete (dq_dv q1))
      \<lparr>dv_tx_total_completed := dv_tx_total_completed (snap_dv_tx_complete (dq_dv q1)) + length cs\<rparr>"
    using assms(4) l unfolding dv_dma_q_progress_tx_def Let_def by (auto split: prod.splits)
  with tx_poll_loop_db [OF l] db show ?thesis
    by (auto simp: db_inv_def snap_dv_tx_complete_def snap_dv_ring_tx_db_def snap_dv_flush_tx_db_def
        snap_dv_update_tx_db_def)
qed

section \<open>Receive path\<close>

definition rx_ok :: "mlx5_cqe64 \<Rightarrow> bool" where
  "rx_ok e \<longleftrightarrow> cqe_opcode e = MLX5_CQE_RESP_SEND \<or> cqe_opcode e = MLX5_CQE_RESP_SEND_IMM"

lemma get_rx_comp_cq [simp]: "dv_dma_q_get_rx_comp (q\<lparr>dq_rx_cq := cq\<rparr>) = dv_dma_q_get_rx_comp q"
  by (rule ext) (simp add: dv_dma_q_get_rx_comp_def)

lemma rx_poll_loop_spec:
  assumes "cq_holds (dq_rx_cq q) es"
  shows "\<exists>cq. let pre = takeWhile rx_ok (take n es) in
     rx_poll_loop n q = (map (dv_dma_q_get_rx_comp q) pre, length pre < min n (length es), q\<lparr>dq_rx_cq := cq\<rparr>) \<and>
     cq_holds cq (drop (length pre + (if length pre < min n (length es) then 1 else 0)) es)"
  using assms
proof (induction n arbitrary: q es)
  case 0
  then show ?case by (intro exI [of _ "dq_rx_cq q"]) simp
next
  case (Suc n)
  show ?case
  proof (cases es)
    case Nil
    with Suc.prems dv_cq.pop_empty have "snap_dv_poll_cq (dq_rx_cq q) = None" by blast
    with Nil Suc.prems show ?thesis by (intro exI [of _ "dq_rx_cq q"]) simp
  next
    case (Cons e es')
    with Suc.prems dv_cq.pop_cons obtain cq where cq: "snap_dv_poll_cq (dq_rx_cq q) = Some (e, cq)" "cq_holds cq es'"
      by blast
    show ?thesis
    proof (cases "rx_ok e")
      case False
      with cq Cons show ?thesis by (intro exI [of _ cq]) (auto simp: rx_ok_def)
    next
      case True
      have "cq_holds (dq_rx_cq (q\<lparr>dq_rx_cq := cq\<rparr>)) es'" using cq(2) by simp
      from Suc.IH [OF this] obtain cq' where "let pre = takeWhile rx_ok (take n es') in
        rx_poll_loop n (q\<lparr>dq_rx_cq := cq\<rparr>) =
          (map (dv_dma_q_get_rx_comp q) pre, length pre < min n (length es'), q\<lparr>dq_rx_cq := cq'\<rparr>) \<and>
        cq_holds cq' (drop (length pre + (if length pre < min n (length es') then 1 else 0)) es')" by auto
      moreover have "\<not> (cqe_opcode e \<noteq> MLX5_CQE_RESP_SEND \<and> cqe_opcode e \<noteq> MLX5_CQE_RESP_SEND_IMM)"
        using True by (simp add: rx_ok_def)
      ultimately show ?thesis using True cq(1) Cons by (intro exI [of _ cq']) (simp add: Let_def)
    qed
  qed
qed

text \<open>C27. When the entries at the head of the receive completion ring are messages, one call of the receive progress function delivers the first 128 of them in ring order, returns their number, gives that many receive buffers back to the device by advancing the consumer index and storing it in the receive doorbell record, and leaves the rest in the ring; without a message the doorbell record stays.\<close>

theorem dma_rx_in_order:
  assumes "cq_holds (dq_rx_cq q) es" and "list_all rx_ok (take SNAP_DMA_MAX_RX_COMPLETIONS es)"
    and "dv_dma_q_progress_rx q = (n, cs, q')"
  shows "cs = map (dv_dma_q_get_rx_comp q) (take SNAP_DMA_MAX_RX_COMPLETIONS es) \<and> n = length cs \<and>
     rq_ci (dq_dv q') = rq_ci (dq_dv q) + of_nat n \<and>
     rq_dbr (dq_dv q') = (if es = [] then rq_dbr (dq_dv q) else rq_ci (dq_dv q) + of_nat n) \<and>
     cq_holds (dq_rx_cq q') (drop SNAP_DMA_MAX_RX_COMPLETIONS es)"
proof -
  let ?pre = "take SNAP_DMA_MAX_RX_COMPLETIONS es"
  have tw: "takeWhile rx_ok ?pre = ?pre" using assms(2) by (simp add: list_all_iff)
  have ln: "\<not> length ?pre < min SNAP_DMA_MAX_RX_COMPLETIONS (length es)" by simp
  have "\<exists>cq. rx_poll_loop SNAP_DMA_MAX_RX_COMPLETIONS q =
      (map (dv_dma_q_get_rx_comp q) ?pre, False, q\<lparr>dq_rx_cq := cq\<rparr>) \<and> cq_holds cq (drop (length ?pre) es)"
    using rx_poll_loop_spec [OF assms(1), of SNAP_DMA_MAX_RX_COMPLETIONS]
    unfolding tw Let_def Eq_FalseI [OF ln] if_False add_0_right .
  then obtain cq where l: "rx_poll_loop SNAP_DMA_MAX_RX_COMPLETIONS q =
      (map (dv_dma_q_get_rx_comp q) ?pre, False, q\<lparr>dq_rx_cq := cq\<rparr>)" "cq_holds cq (drop (length ?pre) es)" by (elim exE conjE)
  have d: "drop (length ?pre) es = drop SNAP_DMA_MAX_RX_COMPLETIONS es" by (simp add: min_def)
  show ?thesis
    using assms(3) l(2) d unfolding dv_dma_q_progress_rx_def l(1) Let_def prod.case
    by (auto simp: snap_dv_ring_rx_db_def snap_dv_update_rx_db_def split: if_splits)
qed

text \<open>
  An error entry makes the call return before any callback: the messages polled before it in the
  same call are consumed from the ring and never delivered.
\<close>

lemma dma_rx_error_drops:
  assumes "cq_holds (dq_rx_cq q) (es @ e # es')" and "list_all rx_ok es" and "\<not> rx_ok e"
    and "length es < SNAP_DMA_MAX_RX_COMPLETIONS"
  shows "\<exists>q'. dv_dma_q_progress_rx q = (length es, [], q') \<and> cq_holds (dq_rx_cq q') es' \<and>
    rq_ci (dq_dv q') = rq_ci (dq_dv q)"
proof -
  have lt: "length es < min SNAP_DMA_MAX_RX_COMPLETIONS (length (es @ e # es'))" using assms(4) by simp
  have tw: "takeWhile rx_ok (take SNAP_DMA_MAX_RX_COMPLETIONS (es @ e # es')) = es"
    using assms(2-4) by (auto simp: take_Cons' list_all_iff takeWhile_append2)
  obtain cq where "rx_poll_loop SNAP_DMA_MAX_RX_COMPLETIONS q = (map (dv_dma_q_get_rx_comp q) es, True, q\<lparr>dq_rx_cq := cq\<rparr>)"
    "cq_holds cq es'"
    using rx_poll_loop_spec [OF assms(1), of SNAP_DMA_MAX_RX_COMPLETIONS] lt unfolding tw Let_def if_P [OF lt] by auto
  then show ?thesis by (simp add: dv_dma_q_progress_rx_def)
qed

text \<open>
  A send whose inline part fits in front of the end of the ring while the data segment behind it
  does not: the copy reads \<^verbatim>\<open>to_end\<close> bytes from a shorter buffer and the length of the
  second copy wraps around.
\<close>

lemma do_dv_send_overreads:
  assumes "qp_can_tx q (unat (round_up (of_nat (36 + length b + send_complement (length b)) :: u16) 64))"
    and "sq_index (dq_dv q) (sq_pi (dq_dv q)) + 1 = unat (sq_wqe_cnt (dq_dv q))"
    and "length b < 44" and "44 < length b + send_complement (length b) + 16"
  shows "do_dv_send api q b addr len key opc imm = None"
proof -
  have e: "unat (sq_wqe_cnt (dq_dv q)) - sq_index (dq_dv q) (sq_pi (dq_dv q)) = 1" using assms(2) by linarith
  have "send_wqe api (dq_dv q) fm b addr len key opc imm ws = None" for fm ws
    unfolding send_wqe_def Let_def e using assms(3,4) by simp
  with assms(1) show ?thesis by (simp add: do_dv_send_def Let_def add.commute add.left_commute)
qed

section \<open>Witnesses\<close>

lemma api0_ok: "api_ok api0"
  by (simp add: api_ok_def api0_def)

lemma do_dv_xfer_inline_posts:
  assumes "n_bb = unat (round_up (inline_wqe_size opc (length src) qn) (of_nat MLX5_SEND_WQE_BB))" and "qp_can_tx q n_bb"
  shows "\<exists>q'. do_dv_xfer_inline api q src opc raddr rkey cm qn = (0, n_bb, q')"
  using assms(2) unfolding assms(1) do_dv_xfer_inline_def Let_def by simp

theorem do_dv_xfer_inline_ring_witness:
  "sq_mem (dq_dv (snd (snd (do_dv_xfer_inline api0 (dma_q0 64) [7, 8] MLX5_OPCODE_SEND 0 0 None False)))) 20 = 7"
proof -
  have "qp_can_tx (dma_q0 64) 1" by (simp add: qp_can_tx_def dma_q0_def)
  moreover have "unat (round_up (inline_wqe_size MLX5_OPCODE_SEND (length [7, 8 :: u8]) False) (of_nat MLX5_SEND_WQE_BB)) = 1"
    by code_simp
  ultimately obtain q' where x: "do_dv_xfer_inline api0 (dma_q0 64) [7, 8] MLX5_OPCODE_SEND 0 0 None False = (0, 1, q')"
    using do_dv_xfer_inline_posts [of 1 MLX5_OPCODE_SEND "[7, 8]" False "dma_q0 64" api0 0 0 None] by metis
  have p: "SNAP_IS_POW2 (64 :: u32)" by code_simp
  have z: "snap_dv_get_wqe_bb (dq_dv (dma_q0 64)) = 0"
    by (simp add: snap_dv_get_wqe_bb_def snap_dv_get_wqe_bb_by_pi_def sq_index_def dma_q0_def)
  have "\<forall>i < length [7, 8 :: u8]. sq_mem (dq_dv q') ((0 + inline_hdr MLX5_OPCODE_SEND + i) mod (64 * 64)) = [7, 8] ! i"
    using do_dv_xfer_inline_ring [OF api0_ok _ _ _ x] p unfolding z by (simp add: dma_q0_def)
  then have "sq_mem (dq_dv q') ((0 + inline_hdr MLX5_OPCODE_SEND + 0) mod (64 * 64)) = 7" by fastforce
  then show ?thesis unfolding x by (simp add: inline_hdr_def)
qed

theorem dma_doorbell_rung_witness:
  "\<exists>q'. dma_exec api0 (DmaWrite 0x1000 512 1 0x2000 2 (Some 5)) (dma_q0 64) = Some (0, q') \<and>
     sq_dbr (dq_dv (snd (dv_dma_q_progress_tx None (\<lambda>_. 1) q' (- 1)))) = sq_pi (dq_dv q')"
proof -
  have "qp_can_tx (dma_q0 64) 1" by (simp add: qp_can_tx_def dma_q0_def)
  from write_reach [OF dma_q0_reach this refl, of "0x1000" 512 1 "0x2000" 2 "Some 5"] obtain q' where
    q': "dma_exec api0 (DmaWrite 0x1000 512 1 0x2000 2 (Some 5)) (dma_q0 64) = Some (0, q')" by auto
  have "db_inv (dma_q0 64)" by (simp add: db_inv_def dma_q0_def)
  from dma_doorbell_rung [OF this q' _ prod.collapse [symmetric]] q' show ?thesis by simp
qed

definition rx_cqe0 :: mlx5_cqe64 where
  "rx_cqe0 = cqe0\<lparr>cqe_opcode := MLX5_CQE_RESP_SEND, cqe_byte_cnt := 5, cqe_wqe_counter := 2\<rparr>"

theorem dma_rx_in_order_witness:
  "\<exists>q. cq_holds (dq_rx_cq q) [rx_cqe0] \<and>
     fst (snd (dv_dma_q_progress_rx q)) = [dv_dma_q_get_rx_comp q rx_cqe0] \<and>
     rq_dbr (dq_dv (snd (snd (dv_dma_q_progress_rx q)))) = 1"
proof -
  have "rx_ok rx_cqe0" by (simp add: rx_ok_def rx_cqe0_def)
  let ?cq = "cq_device_write (0 + length ([] :: mlx5_cqe64 list)) rx_cqe0 cq0"
  let ?q = "(dma_q0 64)\<lparr>dq_rx_cq := ?cq\<rparr>"
  have "cq_inv ?cq 0 ([] @ [rx_cqe0])"
    by (rule cq_inv_write [OF cq0_inv]) (simp_all add: cq0_def rx_cqe0_def cqe0_def cqe_ready_def)
  then have h: "cq_holds (dq_rx_cq ?q) [rx_cqe0]" by (auto simp: cq_holds_def)
  obtain n cs q' where p: "dv_dma_q_progress_rx ?q = (n, cs, q')" by (cases "dv_dma_q_progress_rx ?q")
  from dma_rx_in_order [OF h _ p] \<open>rx_ok rx_cqe0\<close> p h show ?thesis
    by (intro exI [of _ ?q]) (auto simp: dma_q0_def)
qed

end
