(* ===== verification/Virtq_Desc.thy ===== *)
theory Virtq_Desc
  imports Snap_Prelude
begin

text \<open>
  Descriptor chains of a split virtqueue: collecting a chain from a descriptor table
  (\<^verbatim>\<open>arrange_descs\<close> and the indirect branch of \<^verbatim>\<open>fetch_next_desc\<close>,
  \<^verbatim>\<open>ctrl/virtq_common.c\<close>), separating header, data and footer, and merging adjacent data
  descriptors (\<^verbatim>\<open>ctrl/snap_virtio_blk_virtq.c\<close>).

  A descriptor array is the memory behind a \<^verbatim>\<open>struct vring_desc *\<close>, a function of the index.
  The meaning of a chain is the sequence of bytes it names, each with its direction.
\<close>

abbreviation (input) VRING_DESC_F_NEXT :: u16 where "VRING_DESC_F_NEXT \<equiv> 1"
abbreviation (input) VRING_DESC_F_WRITE :: u16 where "VRING_DESC_F_WRITE \<equiv> 2"
abbreviation (input) VRING_DESC_F_INDIRECT :: u16 where "VRING_DESC_F_INDIRECT \<equiv> 4"

abbreviation (input) NUM_HDR_FTR_DESCS :: nat where "NUM_HDR_FTR_DESCS \<equiv> 2"

text \<open>Sizes of \<^verbatim>\<open>struct virtio_blk_outhdr\<close>, \<^verbatim>\<open>struct virtio_blk_outftr\<close> and
  \<^verbatim>\<open>struct vring_desc\<close>.\<close>

abbreviation (input) BLK_HEADER_LEN :: u32 where "BLK_HEADER_LEN \<equiv> 16"
abbreviation (input) BLK_FOOTER_LEN :: u32 where "BLK_FOOTER_LEN \<equiv> 1"
abbreviation (input) VRING_DESC_SIZE :: nat where "VRING_DESC_SIZE \<equiv> 16"

record vring_desc =
  d_addr :: u64
  d_len :: u32
  d_flags :: u16
  d_next :: u16

type_synonym descs = "nat \<Rightarrow> vring_desc"

definition has_flag :: "vring_desc \<Rightarrow> u16 \<Rightarrow> bool" where
  "has_flag d f \<longleftrightarrow> d_flags d AND f \<noteq> 0"

section \<open>Collecting a chain\<close>

text \<open>\<^verbatim>\<open>arrange_descs\<close>: the result is the count and the filled array. A chain without an end
  never returns.\<close>

partial_function (option) arrange_loop :: "descs \<Rightarrow> vring_desc \<Rightarrow> nat \<Rightarrow> descs \<Rightarrow> (nat \<times> descs) option" where
  "arrange_loop table cur i arranged =
     (if has_flag cur VRING_DESC_F_NEXT
      then let cur' = table (unat (d_next cur))
           in arrange_loop table cur' (i + 1) (arranged(i := cur'))
      else Some (i, arranged))"

declare arrange_loop.simps [code]

definition arrange_descs :: "descs \<Rightarrow> descs \<Rightarrow> nat \<Rightarrow> (nat \<times> descs) option" where
  "arrange_descs table arranged header_idx =
     (let cur = table header_idx in arrange_loop table cur 1 (arranged(0 := cur)))"

text \<open>The loop of the indirect branch of \<^verbatim>\<open>fetch_next_desc\<close>: at most \<open>n\<close> rounds, the
  result is the value of \<^verbatim>\<open>i\<close> after the loop and the temporary table.\<close>

fun sort_indirect :: "descs \<Rightarrow> nat \<Rightarrow> nat \<Rightarrow> nat \<Rightarrow> descs \<Rightarrow> nat \<times> descs" where
  "sort_indirect tab 0 i j tmp = (i, tmp)"
| "sort_indirect tab (Suc n) i j tmp =
     (let tmp' = tmp(i := tab j)
      in if has_flag (tab j) VRING_DESC_F_NEXT then sort_indirect tab n (i + 1) (unat (d_next (tab j))) tmp'
         else (i, tmp'))"

section \<open>Header, data and footer\<close>

record merge_state =
  ms_descs :: descs
  ms_num :: u32
  ms_index :: nat
  ms_copy :: nat
  ms_merges :: u32

definition merge_step :: "nat \<Rightarrow> merge_state \<Rightarrow> merge_state" where
  "merge_step i s =
     (let ds = ms_descs s; m = ds (ms_index s); d = ds i
      in if d_addr d = d_addr m + ucast (d_len m) \<and>
            (d_flags m AND VRING_DESC_F_WRITE) = (d_flags d AND VRING_DESC_F_WRITE)
         then s\<lparr>ms_descs := ds(ms_index s := m\<lparr>d_len := d_len m + d_len d, d_next := d_next d\<rparr>),
                ms_num := ms_num s - 1, ms_merges := ms_merges s + 1\<rparr>
         else s\<lparr>ms_descs := (if i \<noteq> ms_copy s then ds(ms_copy s := d) else ds),
                ms_index := ms_copy s, ms_copy := ms_copy s + 1\<rparr>)"

definition virtq_sequential_data_descs_merge :: "descs \<Rightarrow> nat \<Rightarrow> descs \<times> nat \<times> u32" where
  "virtq_sequential_data_descs_merge ds num_desc =
     (let s = fold merge_step [2..<num_desc - 1]
                \<lparr>ms_descs = ds, ms_num = of_nat num_desc, ms_index = 1, ms_copy = 2, ms_merges = 0\<rparr>;
          i = max 2 (num_desc - 1);
          ds = (if i \<noteq> ms_copy s then (ms_descs s)(ms_copy s := ms_descs s i) else ms_descs s)
      in (ds, unat (ms_num s), ms_merges s))"

text \<open>The shift of the header branch copies everything but \<^verbatim>\<open>next\<close>.\<close>

definition shift_desc :: "descs \<Rightarrow> nat \<Rightarrow> vring_desc" where
  "shift_desc ds i = (ds i)\<lparr>d_addr := d_addr (ds (i - 1)), d_len := d_len (ds (i - 1)), d_flags := d_flags (ds (i - 1))\<rparr>"

definition split_header :: "descs \<Rightarrow> nat \<Rightarrow> descs" where
  "split_header ds num_desc =
     (let ds = fold (\<lambda>i ds. ds(i := shift_desc ds i)) (rev [1..<num_desc + 1]) ds;
          ds = ds(0 := (ds 0)\<lparr>d_len := BLK_HEADER_LEN\<rparr>);
          ds = ds(1 := (ds 1)\<lparr>d_addr := d_addr (ds 1) + ucast BLK_HEADER_LEN\<rparr>);
          ds = ds(1 := (ds 1)\<lparr>d_len := d_len (ds 1) - BLK_HEADER_LEN\<rparr>);
          ds = ds(num_desc - 1 := (ds (num_desc - 1))\<lparr>d_flags := d_flags (ds (num_desc - 1)) OR VRING_DESC_F_NEXT\<rparr>);
          ds = ds(num_desc - 1 := (ds (num_desc - 1))\<lparr>d_next := of_nat num_desc\<rparr>)
      in ds(num_desc := (ds num_desc)\<lparr>d_next := 0\<rparr>))"

definition split_footer :: "descs \<Rightarrow> nat \<Rightarrow> descs" where
  "split_footer ds num_desc =
     (let l = ds (num_desc - 1);
          l = l\<lparr>d_len := d_len l - BLK_FOOTER_LEN, d_flags := d_flags l OR VRING_DESC_F_NEXT, d_next := of_nat num_desc\<rparr>;
          ds = ds(num_desc - 1 := l)
      in ds(num_desc := (ds num_desc)\<lparr>d_addr := d_addr l + ucast (d_len l), d_len := BLK_FOOTER_LEN, d_flags := d_flags l\<rparr>))"

text \<open>\<^verbatim>\<open>num_merges\<close> is written only by the merge; the argument is its value before.\<close>

definition virtq_blk_process_desc :: "descs \<Rightarrow> nat \<Rightarrow> u32 \<Rightarrow> bool \<Rightarrow> descs \<times> nat \<times> u32" where
  "virtq_blk_process_desc ds num_desc num_merges merge_descs =
     (if num_desc < NUM_HDR_FTR_DESCS then (ds, num_desc, num_merges)
      else
        let (ds, num_desc) =
              (if d_len (ds 0) \<noteq> BLK_HEADER_LEN then (split_header ds num_desc, num_desc + 1)
               else if d_len (ds (num_desc - 1)) \<noteq> BLK_FOOTER_LEN then (split_footer ds num_desc, num_desc + 1)
               else (ds, num_desc))
        in if merge_descs then virtq_sequential_data_descs_merge ds num_desc
           else (ds, num_desc, num_merges))"

section \<open>The bytes a chain names\<close>

definition desc_bytes :: "vring_desc \<Rightarrow> (u64 \<times> u16) list" where
  "desc_bytes d = map (\<lambda>j. (d_addr d + of_nat j, d_flags d AND VRING_DESC_F_WRITE)) [0..<unat (d_len d)]"

definition chain_bytes :: "descs \<Rightarrow> nat \<Rightarrow> nat \<Rightarrow> (u64 \<times> u16) list" where
  "chain_bytes ds a b = concat (map (\<lambda>i. desc_bytes (ds i)) [a..<b])"

definition chain_len :: "descs \<Rightarrow> nat \<Rightarrow> nat \<Rightarrow> nat" where
  "chain_len ds a b = (\<Sum>i\<leftarrow>[a..<b]. unat (d_len (ds i)))"

lemma chain_cong: "(\<And>i. a \<le> i \<Longrightarrow> i < b \<Longrightarrow> ds i = ds' i) \<Longrightarrow> chain_bytes ds a b = chain_bytes ds' a b"
  "(\<And>i. a \<le> i \<Longrightarrow> i < b \<Longrightarrow> ds i = ds' i) \<Longrightarrow> chain_len ds a b = chain_len ds' a b"
  by (auto simp: chain_bytes_def chain_len_def intro!: arg_cong [of _ _ concat] arg_cong [of _ _ sum_list])

lemma chain_Suc: "a \<le> b \<Longrightarrow> chain_bytes ds a (Suc b) = chain_bytes ds a b @ desc_bytes (ds b)"
  "a \<le> b \<Longrightarrow> chain_len ds a (Suc b) = chain_len ds a b + unat (d_len (ds b))"
  by (simp_all add: chain_bytes_def chain_len_def)

lemma chain_Cons: "a < b \<Longrightarrow> chain_bytes ds a b = desc_bytes (ds a) @ chain_bytes ds (Suc a) b"
  "a < b \<Longrightarrow> chain_len ds a b = unat (d_len (ds a)) + chain_len ds (Suc a) b"
  by (simp_all add: chain_bytes_def chain_len_def upt_conv_Cons)

lemma chain_empty [simp]: "chain_bytes ds a a = []" "chain_len ds a a = 0"
  by (simp_all add: chain_bytes_def chain_len_def)

lemma chain_len_mono: "b \<le> c \<Longrightarrow> chain_len ds a b \<le> chain_len ds a c"
proof (induction c)
  case (Suc c)
  then show ?case by (cases "a \<le> c") (auto simp: chain_Suc le_Suc_eq chain_len_def)
qed simp

lemma length_desc_bytes [simp]: "length (desc_bytes d) = unat (d_len d)"
  by (simp add: desc_bytes_def)

lemma desc_bytes_append:
  assumes "d_addr b = d_addr a + ucast (d_len a)" and "d_flags a AND 2 = d_flags b AND 2"
    and "unat (d_len a) + unat (d_len b) < 2 ^ 32"
  shows "desc_bytes (a\<lparr>d_len := d_len a + d_len b, d_next := nx\<rparr>) = desc_bytes a @ desc_bytes b"
proof -
  have "unat (d_len a + d_len b) = unat (d_len a) + unat (d_len b)"
    using assms(3) by (simp add: unat_word_ariths)
  then show ?thesis
    using assms(1,2) by (auto simp: desc_bytes_def upt_add_eq_append [of 0] map_add_upt [symmetric] add.assoc
      intro!: nth_equalityI)
qed

definition merge_inv :: "nat \<Rightarrow> descs \<Rightarrow> nat \<Rightarrow> merge_state \<Rightarrow> bool" where
  "merge_inv n ds k s \<longleftrightarrow>
     2 \<le> ms_copy s \<and> ms_copy s \<le> k \<and> ms_index s = ms_copy s - 1 \<and>
     ms_num s = of_nat (n - (k - ms_copy s)) \<and> ms_merges s = of_nat (k - ms_copy s) \<and>
     ms_descs s 0 = ds 0 \<and> (\<forall>j\<ge>k. ms_descs s j = ds j) \<and>
     chain_bytes (ms_descs s) 1 (ms_copy s) = chain_bytes ds 1 k \<and>
     chain_len (ms_descs s) 1 (ms_copy s) = chain_len ds 1 k"

lemma merge_step_inv:
  assumes inv: "merge_inv n ds k s" and k: "k < n - 1" and len: "chain_len ds 1 (n - 1) < 2 ^ 32"
  shows "merge_inv n ds (Suc k) (merge_step k s)"
proof -
  obtain c where c0: "ms_copy s = Suc (Suc c)"
    using inv unfolding merge_inv_def by (metis Suc_diff_le add_2_eq_Suc le_add_diff_inverse)
  define e where "e = ms_descs s"
  have c: "ms_copy s = Suc (Suc c)" "ms_index s = Suc c" "Suc (Suc c) \<le> k" and ek: "\<And>j. k \<le> j \<Longrightarrow> e j = ds j" and e0: "e 0 = ds 0"
    and eb: "chain_bytes e 1 (Suc c) @ desc_bytes (e (Suc c)) = chain_bytes ds 1 k"
    and el: "chain_len e 1 (Suc c) + unat (d_len (e (Suc c))) = chain_len ds 1 k"
    and num: "ms_num s = of_nat (n - (k - Suc (Suc c)))" "ms_merges s = of_nat (k - Suc (Suc c))"
    using inv unfolding merge_inv_def c0 e_def by (simp_all add: c0 chain_Suc)
  have lk: "chain_len ds 1 k + unat (d_len (ds k)) < 2 ^ 32"
  proof -
    have "chain_len ds 1 (Suc k) \<le> chain_len ds 1 (n - 1)" using k by (intro chain_len_mono) simp
    with len c show ?thesis by (simp add: chain_Suc)
  qed
  have ek': "e k = ds k" using ek by simp
  show ?thesis
  proof (cases "d_addr (ds k) = d_addr (e (Suc c)) + ucast (d_len (e (Suc c))) \<and>
      (d_flags (e (Suc c)) AND VRING_DESC_F_WRITE) = (d_flags (ds k) AND VRING_DESC_F_WRITE)")
    case True
    define m where "m = (e (Suc c))\<lparr>d_len := d_len (e (Suc c)) + d_len (ds k), d_next := d_next (ds k)\<rparr>"
    have st: "merge_step k s = s\<lparr>ms_descs := e(Suc c := m), ms_num := ms_num s - 1, ms_merges := ms_merges s + 1\<rparr>"
      using True ek' by (simp add: merge_step_def Let_def c e_def m_def)
    have small: "unat (d_len (e (Suc c))) + unat (d_len (ds k)) < 2 ^ 32" using el lk by linarith
    have mb: "desc_bytes m = desc_bytes (e (Suc c)) @ desc_bytes (ds k)"
      unfolding m_def using True small by (intro desc_bytes_append) auto
    have ml: "unat (d_len m) = unat (d_len (e (Suc c))) + unat (d_len (ds k))"
      using small by (simp add: m_def unat_word_ariths)
    have b: "chain_bytes (e(Suc c := m)) 1 (Suc c) = chain_bytes e 1 (Suc c)"
      "chain_len (e(Suc c := m)) 1 (Suc c) = chain_len e 1 (Suc c)"
      by (rule chain_cong; simp)+
    have n1: "of_nat (n - (k - Suc (Suc c))) - 1 = (of_nat (n - (Suc k - Suc (Suc c))) :: u32)"
    proof -
      have "n - (k - Suc (Suc c)) = Suc (n - (Suc k - Suc (Suc c)))" using c k by linarith
      then show ?thesis by simp
    qed
    have n2: "of_nat (k - Suc (Suc c)) + 1 = (of_nat (Suc k - Suc (Suc c)) :: u32)"
      using c by (simp add: Suc_diff_le)
    show ?thesis
      unfolding merge_inv_def st using c eb el mb ml b e0 ek k num n1 n2 by (auto simp: chain_Suc)
  next
    case False
    have st: "merge_step k s = s\<lparr>ms_descs := e(Suc (Suc c) := ds k), ms_index := Suc (Suc c), ms_copy := Suc (Suc (Suc c))\<rparr>"
      using False ek' by (auto simp: merge_step_def Let_def c e_def fun_upd_idem)
    have b: "chain_bytes (e(Suc (Suc c) := ds k)) 1 (Suc c) = chain_bytes e 1 (Suc c)"
      "chain_len (e(Suc (Suc c) := ds k)) 1 (Suc c) = chain_len e 1 (Suc c)"
      by (rule chain_cong; simp)+
    show ?thesis
      unfolding merge_inv_def st using c eb el b e0 ek k num by (auto simp: chain_Suc)
  qed
qed

lemma merge_fold_inv:
  assumes "2 \<le> k" and "k \<le> n - 1" and "chain_len ds 1 (n - 1) < 2 ^ 32"
  shows "merge_inv n ds k (fold merge_step [2..<k]
     \<lparr>ms_descs = ds, ms_num = of_nat n, ms_index = 1, ms_copy = 2, ms_merges = 0\<rparr>)"
  using assms(1,2)
proof (induction k rule: dec_induct)
  case base
  then show ?case by (simp add: merge_inv_def)
next
  case (step k)
  then show ?case using merge_step_inv [OF _ _ assms(3), of k] by (simp add: comp_def)
qed

lemma merge_spec:
  assumes "2 \<le> n" and "n < 2 ^ 32" and "chain_len ds 1 (n - 1) < 2 ^ 32"
    and "virtq_sequential_data_descs_merge ds n = (ds', n', nm)"
  shows "2 \<le> n' \<and> n' \<le> n \<and> unat nm = n - n' \<and> ds' 0 = ds 0 \<and> ds' (n' - 1) = ds (n - 1) \<and>
    chain_bytes ds' 1 (n' - 1) = chain_bytes ds 1 (n - 1) \<and> chain_len ds' 1 (n' - 1) = chain_len ds 1 (n - 1)"
proof (cases "n = 2")
  case True
  with assms(4) show ?thesis by (auto simp: virtq_sequential_data_descs_merge_def Let_def)
next
  case False
  then have k: "2 \<le> n - 1" using assms(1) by linarith
  obtain s where s: "fold merge_step [2..<n - 1]
     \<lparr>ms_descs = ds, ms_num = of_nat n, ms_index = 1, ms_copy = 2, ms_merges = 0\<rparr> = s" by blast
  have inv: "merge_inv n ds (n - 1) s" using merge_fold_inv [OF k le_refl assms(3)] s by simp
  define c where "c = ms_copy s"
  have c: "2 \<le> c" "c \<le> n - 1" using inv by (auto simp: merge_inv_def c_def)
  have w: "unat (ms_num s) = n - (n - 1 - c)" "unat (ms_merges s) = n - 1 - c"
  proof -
    have "ms_num s = of_nat (n - (n - 1 - c))" "ms_merges s = of_nat (n - 1 - c)"
      using inv unfolding merge_inv_def c_def by blast+
    then show "unat (ms_num s) = n - (n - 1 - c)" "unat (ms_merges s) = n - 1 - c"
      using assms(2) unat_of_nat_small [of "n - (n - 1 - c)", where 'a = 32]
        unat_of_nat_small [of "n - 1 - c", where 'a = 32] by simp_all
  qed
  have num: "n' = Suc c" and nm: "unat nm = n - Suc c"
    and ds': "ds' = (ms_descs s)(c := ms_descs s (n - 1))"
    using assms(4) w c k unfolding virtq_sequential_data_descs_merge_def Let_def s
    by (auto simp: c_def max_def fun_upd_idem split: if_splits)
  have b: "chain_bytes ds' 1 c = chain_bytes (ms_descs s) 1 c" "chain_len ds' 1 c = chain_len (ms_descs s) 1 c"
    unfolding ds' by (rule chain_cong; simp)+
  show ?thesis
    using inv c b k unfolding num nm merge_inv_def c_def by (auto simp: ds' c_def)
qed

lemma shift_fold:
  "fold (\<lambda>i ds. ds(i := shift_desc ds i)) (rev [1..<n + 1]) ds =
     (\<lambda>j. if 1 \<le> j \<and> j \<le> n then shift_desc ds j else ds j)"
proof (induction n arbitrary: ds)
  case (Suc n)
  have "rev [1..<Suc n + 1] = Suc n # rev [1..<n + 1]" by simp
  then have "fold (\<lambda>i ds. ds(i := shift_desc ds i)) (rev [1..<Suc n + 1]) ds =
    (\<lambda>j. if 1 \<le> j \<and> j \<le> n then shift_desc (ds(Suc n := shift_desc ds (Suc n))) j
          else (ds(Suc n := shift_desc ds (Suc n))) j)"
    by (simp only: fold.simps comp_def Suc.IH)
  also have "\<dots> = (\<lambda>j. if 1 \<le> j \<and> j \<le> Suc n then shift_desc ds j else ds j)"
    by (auto simp: fun_eq_iff shift_desc_def)
  finally show ?case .
qed auto

lemma or_next_write: "(f OR VRING_DESC_F_NEXT) AND VRING_DESC_F_WRITE = f AND VRING_DESC_F_WRITE" for f :: u16
  by (rule bit_word_eqI) (auto simp: bit_simps bit_1_iff)

lemma or_next_write_if: "(f OR (if b then 1 else 0)) AND VRING_DESC_F_WRITE = f AND VRING_DESC_F_WRITE" for f :: u16
  using or_next_write by simp

lemma desc_bytes_split:
  assumes "k \<le> unat (d_len d)" and "k < 2 ^ 32"
  shows "desc_bytes d = desc_bytes (d\<lparr>d_len := of_nat k\<rparr>) @
    desc_bytes (d\<lparr>d_addr := d_addr d + of_nat k, d_len := d_len d - of_nat k\<rparr>)"
proof -
  have k: "unat (of_nat k :: u32) = k" using assms(2) by (simp add: unat_of_nat_small)
  then have "unat (d_len d - of_nat k) = unat (d_len d) - k"
    using assms(1) by (subst unat_sub) (auto simp: word_le_nat_alt)
  with k assms(1) show ?thesis
    by (intro nth_equalityI) (auto simp: desc_bytes_def nth_append of_nat_diff)
qed

lemma desc_bytes_cong:
  "d_addr a = d_addr b \<Longrightarrow> d_len a = d_len b \<Longrightarrow> d_flags a AND 2 = d_flags b AND 2 \<Longrightarrow> desc_bytes a = desc_bytes b"
  by (simp add: desc_bytes_def)

lemma chain_shift:
  "(\<And>i. a \<le> i \<Longrightarrow> i < b \<Longrightarrow> desc_bytes (ds' (Suc i)) = desc_bytes (ds i)) \<Longrightarrow>
     chain_bytes ds' (Suc a) (Suc b) = chain_bytes ds a b"
  unfolding chain_bytes_def map_Suc_upt [symmetric] map_map
  by (auto intro!: arg_cong [of _ _ concat])

lemma chain_bytes_cong:
  "(\<And>i. a \<le> i \<Longrightarrow> i < b \<Longrightarrow> desc_bytes (ds' i) = desc_bytes (ds i)) \<Longrightarrow> chain_bytes ds' a b = chain_bytes ds a b"
  by (auto simp: chain_bytes_def intro!: arg_cong [of _ _ concat])

lemma split_header_spec:
  assumes "2 \<le> n" and "16 \<le> unat (d_len (ds 0))"
  shows "chain_bytes (split_header ds n) 0 (Suc n) = chain_bytes ds 0 n"
    and "d_len (split_header ds n 0) = 16" and "d_len (split_header ds n n) = d_len (ds (n - 1))"
proof -
  let ?e = "split_header ds n"
  have e: "?e j = (if j = 0 then (ds 0)\<lparr>d_len := 16\<rparr>
      else if j \<le> n then (ds j)\<lparr>d_addr := (if j = 1 then d_addr (ds 0) + 16 else d_addr (ds (j - 1))),
          d_len := (if j = 1 then d_len (ds 0) - 16 else d_len (ds (j - 1))),
          d_flags := d_flags (ds (j - 1)) OR (if j = n - 1 then 1 else 0),
          d_next := (if j = n - 1 then of_nat n else if j = n then 0 else d_next (ds j))\<rparr>
      else ds j)" for j
    using assms(1) unfolding split_header_def Let_def shift_fold by (auto simp: shift_desc_def)
  show "d_len (?e 0) = 16" "d_len (?e n) = d_len (ds (n - 1))" using assms(1) by (simp_all add: e)
  have h: "desc_bytes (?e 0) @ desc_bytes (?e 1) = desc_bytes (ds 0)"
    using desc_bytes_split [of 16 "ds 0"] assms e [of 0] e [of 1]
    by (simp add: desc_bytes_def or_next_write_if)
  have "chain_bytes ?e (Suc 1) (Suc n) = chain_bytes ds 1 n"
    by (rule chain_shift, rule desc_bytes_cong) (simp_all add: e or_next_write_if)
  with h show "chain_bytes ?e 0 (Suc n) = chain_bytes ds 0 n"
    using assms(1) by (simp add: chain_Cons [of 0 "Suc n"] chain_Cons [of "Suc 0" "Suc n"] chain_Cons [of 0 n])
qed

lemma split_footer_spec:
  assumes "2 \<le> n" and "1 \<le> unat (d_len (ds (n - 1)))"
  shows "chain_bytes (split_footer ds n) 0 (Suc n) = chain_bytes ds 0 n"
    and "split_footer ds n 0 = ds 0" and "d_len (split_footer ds n n) = 1"
proof -
  let ?e = "split_footer ds n"
  obtain m where m: "n = Suc m" "1 \<le> m" using assms(1) by (cases n) auto
  show "?e 0 = ds 0" "d_len (?e n) = 1" using m by (simp_all add: split_footer_def Let_def)
  have k: "unat (d_len (ds m)) - 1 \<le> unat (d_len (ds m))" "unat (d_len (ds m)) - 1 < 2 ^ 32"
    using unsigned_less [of "d_len (ds m)", where 'a = nat] by auto
  have nz: "d_len (ds m) \<noteq> 0" using assms(2) m by auto
  have o: "(of_nat (unat (d_len (ds m)) - 1) :: u32) = d_len (ds m) - 1"
    "(of_nat (unat (d_len (ds m)) - 1) :: u64) = ucast (d_len (ds m) - 1)"
    using unat_minus_one [OF nz] by (metis of_nat_unat ucast_id, metis of_nat_unat)
  have h: "desc_bytes (?e m) @ desc_bytes (?e n) = desc_bytes (ds m)"
    using desc_bytes_split [OF k] m unfolding o by (simp add: desc_bytes_def or_next_write split_footer_def Let_def)
  have "chain_bytes ?e 0 m = chain_bytes ds 0 m"
    by (rule chain_cong) (use m in \<open>simp add: split_footer_def Let_def\<close>)
  with h show "chain_bytes ?e 0 (Suc n) = chain_bytes ds 0 n" using m by (simp add: chain_Suc)
qed

lemma length_chain_bytes: "length (chain_bytes ds a b) = chain_len ds a b"
  by (simp add: chain_bytes_def chain_len_def length_concat comp_def)

lemma chain_parts:
  assumes "2 \<le> n"
  shows "chain_bytes ds 0 n = desc_bytes (ds 0) @ chain_bytes ds 1 (n - 1) @ desc_bytes (ds (n - 1))"
    and "chain_len ds 1 (n - 1) \<le> chain_len ds 0 n"
proof -
  obtain m where m: "n = Suc m" "1 \<le> m" using assms by (cases n) auto
  then show "chain_bytes ds 0 n = desc_bytes (ds 0) @ chain_bytes ds 1 (n - 1) @ desc_bytes (ds (n - 1))"
    "chain_len ds 1 (n - 1) \<le> chain_len ds 0 n"
    by (simp_all add: chain_Suc chain_Cons [of 0 m])
qed

text \<open>C8. Separating header, data and footer and merging adjacent data descriptors changes neither the bytes a request names, nor their order or direction; afterwards the first descriptor is the 16-byte header and the last the status byte.\<close>

theorem virtq_blk_process_desc_bytes:
  assumes "2 \<le> n" and "n < 2 ^ 31" and "chain_len ds 0 n < 2 ^ 32"
    and "16 \<le> unat (d_len (ds 0))" and "1 \<le> unat (d_len (ds (n - 1)))"
    and "d_len (ds 0) = 16 \<or> d_len (ds (n - 1)) = 1"
    and "virtq_blk_process_desc ds n nm0 m = (ds', n', nm)"
  shows "2 \<le> n' \<and> n' \<le> n + 1 \<and> d_len (ds' 0) = 16 \<and> d_len (ds' (n' - 1)) = 1 \<and>
     chain_bytes ds' 0 n' = chain_bytes ds 0 n"
proof -
  define e k where "e = (if d_len (ds 0) \<noteq> 16 then split_header ds n
      else if d_len (ds (n - 1)) \<noteq> 1 then split_footer ds n else ds)"
    and "k = (if d_len (ds 0) \<noteq> 16 \<or> d_len (ds (n - 1)) \<noteq> 1 then n + 1 else n)"
  have p: "(if m then virtq_sequential_data_descs_merge e k else (e, k, nm0)) = (ds', n', nm)"
    using assms(1,7) by (auto simp: virtq_blk_process_desc_def e_def k_def Let_def)
  have e: "chain_bytes e 0 k = chain_bytes ds 0 n" "d_len (e 0) = 16" "d_len (e (k - 1)) = 1"
    using split_header_spec [of n ds] split_footer_spec [of n ds] assms(1,4,5,6)
    by (auto simp: e_def k_def)
  have k: "2 \<le> k" "k \<le> n + 1" "k < 2 ^ 32" using assms(1,2) by (auto simp: k_def)
  show ?thesis
  proof (cases m)
    case False
    with p e k show ?thesis by simp
  next
    case True
    have "chain_len e 0 k < 2 ^ 32" using e(1) assms(3) by (metis length_chain_bytes)
    with chain_parts(2) [OF k(1), of e] have l: "chain_len e 1 (k - 1) < 2 ^ 32" by linarith
    from merge_spec [OF k(1,3) l] True p have ms: "2 \<le> n'" "n' \<le> k" "ds' 0 = e 0" "ds' (n' - 1) = e (k - 1)"
      "chain_bytes ds' 1 (n' - 1) = chain_bytes e 1 (k - 1)" by auto
    then show ?thesis using e k chain_parts(1) [OF ms(1), of ds'] chain_parts(1) [OF k(1), of e] by auto
  qed
qed

text \<open>
  A chain in which both the first and the last descriptor carry data is cut at the header only:
  the last descriptor keeps its data bytes in front of the status byte.
\<close>

lemma virtq_blk_process_desc_both:
  assumes "2 \<le> n" and "n < 2 ^ 31" and "chain_len ds 0 n < 2 ^ 32"
    and "16 < unat (d_len (ds 0))" and "virtq_blk_process_desc ds n nm0 True = (ds', n', nm)"
  shows "d_len (ds' (n' - 1)) = d_len (ds (n - 1))"
proof -
  let ?e = "split_header ds n"
  have h: "chain_bytes ?e 0 (Suc n) = chain_bytes ds 0 n" "d_len (?e n) = d_len (ds (n - 1))"
    using split_header_spec [of n ds] assms(1,4) by auto
  have "chain_len ?e 0 (Suc n) < 2 ^ 32" using h(1) assms(3) by (metis length_chain_bytes)
  moreover have "2 \<le> Suc n" "Suc n < 2 ^ 32" using assms(1,2) by auto
  moreover have "virtq_sequential_data_descs_merge ?e (Suc n) = (ds', n', nm)"
  proof -
    have "d_len (ds 0) \<noteq> 16" using assms(4) by auto
    with assms(1,5) show ?thesis by (simp add: virtq_blk_process_desc_def)
  qed
  ultimately show ?thesis
    using merge_spec [of "Suc n" ?e ds' n' nm] chain_parts(2) [of "Suc n" ?e] h(2) by auto
qed

section \<open>Chains of a table\<close>

inductive desc_chain :: "descs \<Rightarrow> vring_desc \<Rightarrow> vring_desc list \<Rightarrow> bool" for table where
  chain_last: "\<not> has_flag d VRING_DESC_F_NEXT \<Longrightarrow> desc_chain table d [d]"
| chain_next: "has_flag d VRING_DESC_F_NEXT \<Longrightarrow> desc_chain table (table (unat (d_next d))) ds \<Longrightarrow> desc_chain table d (d # ds)"

lemma desc_chain_nonempty: "desc_chain table d xs \<Longrightarrow> \<exists>ys. xs = d # ys"
  by (erule desc_chain.cases) auto

lemma map_upt_Cons: "map f [i..<i + length (d # ds)] = f i # map f [Suc i..<Suc i + length ds]"
  by (simp add: upt_conv_Cons del: upt_Suc)

lemma arrange_loop_chain:
  assumes "desc_chain table d xs"
  shows "\<exists>arr'. arrange_loop table d (Suc i) (arr(i := d)) = Some (i + length xs, arr') \<and>
     map arr' [i..<i + length xs] = xs \<and> (\<forall>j. j < i \<or> i + length xs \<le> j \<longrightarrow> arr' j = arr j)"
  using assms
proof (induction arbitrary: i arr rule: desc_chain.induct)
  case (chain_last d)
  then show ?case by (subst arrange_loop.simps) simp
next
  case (chain_next d ds)
  let ?d = "table (unat (d_next d))"
  obtain arr' where a: "arrange_loop table ?d (Suc (Suc i)) ((arr(i := d))(Suc i := ?d)) = Some (Suc i + length ds, arr')"
    "map arr' [Suc i..<Suc i + length ds] = ds" "\<forall>j. j < Suc i \<or> Suc i + length ds \<le> j \<longrightarrow> arr' j = (arr(i := d)) j"
    using chain_next.IH [of "Suc i" "arr(i := d)"] by blast
  have "map arr' [i..<i + length (d # ds)] = d # ds"
    using a(3) unfolding map_upt_Cons a(2) by simp
  moreover have "arrange_loop table d (Suc i) (arr(i := d)) = Some (i + length (d # ds), arr')"
  proof -
    have "arrange_loop table d (Suc i) (arr(i := d)) = arrange_loop table ?d (Suc i + 1) ((arr(i := d))(Suc i := ?d))"
      by (subst arrange_loop.simps) (simp only: chain_next.hyps(1) Let_def if_True)
    then show ?thesis using a(1) by simp
  qed
  moreover have "\<forall>j. j < i \<or> i + length (d # ds) \<le> j \<longrightarrow> arr' j = arr j"
  proof (intro allI impI)
    fix j assume j: "j < i \<or> i + length (d # ds) \<le> j"
    then have "arr' j = (arr(i := d)) j" by (intro a(3) [rule_format]) auto
    with j show "arr' j = arr j" by auto
  qed
  ultimately show ?case by (intro exI [of _ arr'] conjI)
qed

lemma arrange_loop_ends:
  assumes "arrange_loop table d i arr = Some r"
  shows "\<exists>xs. desc_chain table d xs"
proof (rule arrange_loop.raw_induct [OF _ assms, of "\<lambda>table d i arr r. \<exists>xs. desc_chain table d xs"])
  fix f table d i arr r
  assume ih: "\<And>table d i arr r. f table d i arr = Some r \<Longrightarrow> \<exists>xs. desc_chain table d xs"
    and s: "(if has_flag d VRING_DESC_F_NEXT
        then let cur' = table (unat (d_next d)) in f table cur' (i + 1) (arr(i := cur')) else Some (i, arr)) = Some r"
  show "\<exists>xs. desc_chain table d xs"
  proof (cases "has_flag d VRING_DESC_F_NEXT")
    case True
    with s have "f table (table (unat (d_next d))) (i + 1) (arr(i := table (unat (d_next d)))) = Some r"
      by (simp add: Let_def)
    from ih [OF this] True show ?thesis by (blast intro: chain_next)
  next
    case False
    then show ?thesis by (blast intro: chain_last)
  qed
qed

text \<open>C14. Arranging a chain from a descriptor table returns exactly when the chain ends, and then with the entries of the chain in order and their number; on a cyclic chain it never returns.\<close>

theorem arrange_descs_chain:
  "(\<exists>arr'. arrange_descs table arr h = Some (n, arr') \<and> map arr' [0..<n] = xs) \<longleftrightarrow>
     desc_chain table (table h) xs \<and> n = length xs"
proof
  assume "\<exists>arr'. arrange_descs table arr h = Some (n, arr') \<and> map arr' [0..<n] = xs"
  then obtain arr' where a: "arrange_loop table (table h) (Suc 0) (arr(0 := table h)) = Some (n, arr')" "map arr' [0..<n] = xs"
    by (auto simp: arrange_descs_def Let_def)
  from arrange_loop_ends [OF a(1)] obtain ys where y: "desc_chain table (table h) ys" by (elim exE)
  from arrange_loop_chain [OF y, of 0 arr] obtain brr where "(n, arr') = (length ys, brr)" "map brr [0..<length ys] = ys"
    unfolding add_0 a(1) by (elim exE conjE) simp
  with a(2) y show "desc_chain table (table h) xs \<and> n = length xs" by simp
next
  assume c: "desc_chain table (table h) xs \<and> n = length xs"
  then obtain arr' where "arrange_loop table (table h) (Suc 0) (arr(0 := table h)) = Some (n, arr')" "map arr' [0..<n] = xs"
    using arrange_loop_chain [of table "table h" xs 0 arr] unfolding add_0 by (elim conjE) metis
  then show "\<exists>arr'. arrange_descs table arr h = Some (n, arr') \<and> map arr' [0..<n] = xs"
    by (auto simp: arrange_descs_def Let_def)
qed

lemma sort_indirect_chain:
  assumes "desc_chain tab (tab j) xs" and "length xs \<le> n"
  shows "\<exists>tmp'. sort_indirect tab n i j tmp = (i + length xs - 1, tmp') \<and> map tmp' [i..<i + length xs] = xs \<and>
    (\<forall>k < i. tmp' k = tmp k)"
  using assms
proof (induction n arbitrary: j xs i tmp)
  case 0
  then show ?case using desc_chain_nonempty by fastforce
next
  case (Suc n)
  from Suc.prems(1) show ?case
  proof cases
    case chain_last
    then show ?thesis by (simp add: Let_def)
  next
    case (chain_next ds)
    from chain_next(1) Suc.prems(2) have "length ds \<le> n" by simp
    from Suc.IH [OF chain_next(3) this, of "Suc i" "tmp(i := tab j)"] obtain tmp' where
      t: "sort_indirect tab n (Suc i) (unat (d_next (tab j))) (tmp(i := tab j)) = (Suc i + length ds - 1, tmp')"
      "map tmp' [Suc i..<Suc i + length ds] = ds" "\<forall>k < Suc i. tmp' k = (tmp(i := tab j)) k" by blast
    then have "map tmp' [i..<i + length xs] = xs" unfolding chain_next(1) map_upt_Cons t(2) by simp
    moreover have "sort_indirect tab (Suc n) i j tmp = (i + length xs - 1, tmp')"
      using t(1) chain_next(1,2) by (simp add: Let_def)
    moreover have "\<forall>k < i. tmp' k = tmp k" using t(3) by (simp add: less_Suc_eq)
    ultimately show ?thesis by (intro exI [of _ tmp'] conjI)
  qed
qed

text \<open>A table whose links do not end within its length is counted one entry too long.\<close>

lemma sort_indirect_unended:
  assumes "\<And>k. has_flag (tab k) VRING_DESC_F_NEXT"
  shows "fst (sort_indirect tab n i j tmp) = i + n"
  using assms by (induction n arbitrary: i j tmp) (simp_all add: Let_def)

section \<open>Witness\<close>

definition descs0 :: descs where
  "descs0 i = [\<lparr>d_addr = 0x1000, d_len = 24, d_flags = 1, d_next = 1\<rparr>, \<lparr>d_addr = 0x1018, d_len = 512, d_flags = 1, d_next = 2\<rparr>,
     \<lparr>d_addr = 0x9000, d_len = 1, d_flags = 2, d_next = 0\<rparr>] ! i"

theorem virtq_blk_process_desc_bytes_witness:
  "\<exists>ds' n' nm. virtq_blk_process_desc descs0 3 0 True = (ds', n', nm) \<and> d_len (ds' (n' - 1)) = 1 \<and>
     chain_bytes ds' 0 n' = chain_bytes descs0 0 3"
proof -
  obtain ds' n' nm where p: "virtq_blk_process_desc descs0 3 0 True = (ds', n', nm)"
    by (cases "virtq_blk_process_desc descs0 3 0 True")
  have l: "d_len (descs0 0) = 24" "d_len (descs0 2) = 1" "d_len (descs0 1) = 512" by (simp_all add: descs0_def)
  have "chain_len descs0 0 3 = 537" by (simp add: chain_len_def numeral_3_eq_3 descs0_def)
  with virtq_blk_process_desc_bytes [OF _ _ _ _ _ _ p] l p show ?thesis by simp
qed

end
