(* ===== verification/Virtq_Cmd.thy ===== *)
theory Virtq_Cmd
  imports Dma_Credits Dp_Map Virtq_Desc
begin

text \<open>
  The split-virtqueue command engine: \<^verbatim>\<open>ctrl/virtq_common.c\<close> with the block device
  handlers of \<^verbatim>\<open>ctrl/snap_virtio_blk_virtq.c\<close>.

  A command is one record that holds \<^verbatim>\<open>struct virtq_cmd\<close> and the \<^verbatim>\<open>struct
  blk_virtq_cmd\<close> around it; buffers are their addresses, the descriptors and the header of the
  \<^verbatim>\<open>aux\<close> area are its content. The queue record holds \<^verbatim>\<open>struct virtq_priv\<close>,
  the queue attributes, the statistics and the fields of the controller that the handlers read. A
  handler maps the status of the operation that woke it, the command and the queue to the value it
  returns (call again or wait) and the new command and queue.

  The block backend, the allocator, memory registration, the migration channel and the DPA are
  arguments: a \<open>blk_env\<close> gives what their calls return during one activation.
\<close>

section \<open>Data\<close>

datatype virtq_cmd_sm_op_status = VIRTQ_CMD_SM_OP_OK | VIRTQ_CMD_SM_OP_ERR

datatype virtq_sw_state = SW_VIRTQ_RUNNING | SW_VIRTQ_FLUSHING | SW_VIRTQ_SUSPENDED

datatype virtq_cmd_sm_state =
    VIRTQ_CMD_STATE_IDLE
  | VIRTQ_CMD_STATE_FETCH_CMD_DESCS
  | VIRTQ_CMD_STATE_READ_HEADER
  | VIRTQ_CMD_STATE_PARSE_HEADER
  | VIRTQ_CMD_STATE_READ_DATA
  | VIRTQ_CMD_STATE_HANDLE_REQ
  | VIRTQ_CMD_STATE_OUT_DATA_DONE
  | VIRTQ_CMD_STATE_IN_DATA_DONE
  | VIRTQ_CMD_STATE_WRITE_STATUS
  | VIRTQ_CMD_STATE_SEND_COMP
  | VIRTQ_CMD_STATE_SEND_IN_ORDER_COMP
  | VIRTQ_CMD_STATE_RELEASE
  | VIRTQ_CMD_STATE_FATAL_ERR

primrec state_num :: "virtq_cmd_sm_state \<Rightarrow> nat" where
  "state_num VIRTQ_CMD_STATE_IDLE = 0"
| "state_num VIRTQ_CMD_STATE_FETCH_CMD_DESCS = 1"
| "state_num VIRTQ_CMD_STATE_READ_HEADER = 2"
| "state_num VIRTQ_CMD_STATE_PARSE_HEADER = 3"
| "state_num VIRTQ_CMD_STATE_READ_DATA = 4"
| "state_num VIRTQ_CMD_STATE_HANDLE_REQ = 5"
| "state_num VIRTQ_CMD_STATE_OUT_DATA_DONE = 6"
| "state_num VIRTQ_CMD_STATE_IN_DATA_DONE = 7"
| "state_num VIRTQ_CMD_STATE_WRITE_STATUS = 8"
| "state_num VIRTQ_CMD_STATE_SEND_COMP = 9"
| "state_num VIRTQ_CMD_STATE_SEND_IN_ORDER_COMP = 10"
| "state_num VIRTQ_CMD_STATE_RELEASE = 11"
| "state_num VIRTQ_CMD_STATE_FATAL_ERR = 12"

datatype virtq_fetch_desc_status = VIRTQ_FETCH_DESC_DONE | VIRTQ_FETCH_DESC_ERR | VIRTQ_FETCH_DESC_READ

abbreviation (input) VIRTIO_BLK_T_IN :: u32 where "VIRTIO_BLK_T_IN \<equiv> 0"
abbreviation (input) VIRTIO_BLK_T_OUT :: u32 where "VIRTIO_BLK_T_OUT \<equiv> 1"
abbreviation (input) VIRTIO_BLK_T_FLUSH :: u32 where "VIRTIO_BLK_T_FLUSH \<equiv> 4"
abbreviation (input) VIRTIO_BLK_T_GET_ID :: u32 where "VIRTIO_BLK_T_GET_ID \<equiv> 8"
abbreviation (input) VIRTIO_BLK_S_OK :: u8 where "VIRTIO_BLK_S_OK \<equiv> 0"
abbreviation (input) VIRTIO_BLK_S_IOERR :: u8 where "VIRTIO_BLK_S_IOERR \<equiv> 1"
abbreviation (input) VIRTIO_BLK_S_UNSUPP :: u8 where "VIRTIO_BLK_S_UNSUPP \<equiv> 2"
abbreviation (input) BDEV_SECTOR_SIZE :: u64 where "BDEV_SECTOR_SIZE \<equiv> 512"
abbreviation (input) VQ_TABLE_REC :: u32 where "VQ_TABLE_REC \<equiv> 5"

text \<open>Which counter \<^verbatim>\<open>io_cmd_stat\<close> points to.\<close>

datatype io_stat_sel = IoRead | IoWrite | IoFlush

record queue_counter =
  ct_total :: u64
  ct_success :: u64
  ct_fail :: u64
  ct_unordered :: u64
  ct_merged_desc :: u64
  ct_long_desc_chain :: u64
  ct_large_in_buf :: u64

record queue_out_counter =
  outstanding_total :: u32
  outstanding_in_bdev :: u32
  outstanding_to_host :: u32
  cnt_fatal :: u32

record virtio_blk_outhdr =
  h_type :: u32
  h_ioprio :: u32
  h_sector :: u64

record virtq_cmd =
  c_idx :: nat
  c_descr_head_idx :: u16
  c_num_desc :: u64
  c_num_merges :: u32
  c_state :: virtq_cmd_sm_state
  c_buf :: u64
  c_req_size :: u32
  c_aux :: u64
  c_aux_lkey :: u32
  c_header :: virtio_blk_outhdr
  c_descs :: descs
  c_status :: u8
  c_mr_lkey :: u32
  c_req_buf :: u64
  c_req_lkey :: u32
  c_comp_count :: int
  c_total_seg_len :: u32
  c_total_in_len :: u32
  c_use_dmem :: bool
  c_io_cmd_stat :: "io_stat_sel option"
  c_cmd_available_index :: u16
  c_indirect_pos :: u16
  c_indirect_len :: u16
  c_use_seg_dmem :: bool
  c_is_indirect :: bool
  c_zcopy :: bool
  c_offset_blocks :: u64
  c_num_blocks :: u64
  c_in_bdev_detach :: bool
  c_max_iov_cnt :: nat
  c_iov :: "iovec list"

record virtq_priv =
  vp_swq_state :: virtq_sw_state
  vp_fatal_err :: bool
  vp_dma_q :: snap_dma_q
  vp_cmd_arr :: "virtq_cmd list"
  vp_cntrs :: queue_out_counter
  vp_seg_max :: nat
  vp_pg_id :: int
  vp_ctrl_available_index :: u16
  vp_force_in_order :: bool
  vp_ctrl_used_index :: u16
  vp_zcopy :: bool
  vp_merge_descs :: bool
  vp_use_mem_pool :: bool
  vp_thread_id :: int
  va_size :: u16
  va_desc :: u64
  va_device :: u64
  va_dma_mkey :: u32
  vp_hw_used_index :: u16
  vp_uncomp_bdev_cmds :: u32
  vp_io_read :: queue_counter
  vp_io_write :: queue_counter
  vp_io_flush :: queue_counter
  vp_log_writes_to_host :: bool
  vp_lm_channel :: bool
  vp_dp_map :: "snap_dp_bmap option"
  vp_pending_bdev_detach :: bool

text \<open>How a completion reaches the host: through the tunnel to the firmware, into the used ring, or
  through the DPA.\<close>

datatype send_comp_kind = TunnelComp | SwComp | DpaComp

record blk_env =
  e_api :: mlx5_api
  e_calloc :: "nat \<Rightarrow> u64 option"
  e_ibv_reg_mr :: "u64 \<Rightarrow> nat \<Rightarrow> u32 option"
  e_dma_malloc :: "nat \<Rightarrow> u64 option"
  e_dma_pool_malloc :: "nat \<Rightarrow> int"
  e_zcopy_validate :: "(iovec list \<Rightarrow> u64 \<Rightarrow> u32 \<Rightarrow> bool) option"
  e_block_size :: u32
  e_num_blocks :: u64
  e_write :: "u64 \<Rightarrow> u64 \<Rightarrow> u32 \<Rightarrow> int"
  e_read :: "u64 \<Rightarrow> u64 \<Rightarrow> u32 \<Rightarrow> int"
  e_writev_blocks :: "iovec list \<Rightarrow> u64 \<Rightarrow> u64 \<Rightarrow> int"
  e_readv_blocks :: "iovec list \<Rightarrow> u64 \<Rightarrow> u64 \<Rightarrow> int"
  e_flush :: "u64 \<Rightarrow> u64 \<Rightarrow> int"
  e_bdev_name :: string
  e_send_comp :: send_comp_kind
  e_send_status :: "(u8 \<Rightarrow> u64 \<Rightarrow> int) option"
  e_dpa_complete :: "u32 \<Rightarrow> u32 \<Rightarrow> int"
  e_uninit :: "u64 \<times> u32"

type_synonym cmd_st = "virtq_cmd \<times> virtq_priv"

section \<open>Counters\<close>

definition add_total :: "u32 \<Rightarrow> virtq_priv \<Rightarrow> virtq_priv" where
  "add_total n p = p\<lparr>vp_cntrs := (vp_cntrs p)\<lparr>outstanding_total := outstanding_total (vp_cntrs p) + n\<rparr>\<rparr>"

definition add_in_bdev :: "u32 \<Rightarrow> virtq_priv \<Rightarrow> virtq_priv" where
  "add_in_bdev n p = p\<lparr>vp_cntrs := (vp_cntrs p)\<lparr>outstanding_in_bdev := outstanding_in_bdev (vp_cntrs p) + n\<rparr>\<rparr>"

definition add_to_host :: "u32 \<Rightarrow> virtq_priv \<Rightarrow> virtq_priv" where
  "add_to_host n p = p\<lparr>vp_cntrs := (vp_cntrs p)\<lparr>outstanding_to_host := outstanding_to_host (vp_cntrs p) + n\<rparr>\<rparr>"

definition add_fatal :: "virtq_priv \<Rightarrow> virtq_priv" where
  "add_fatal p = p\<lparr>vp_cntrs := (vp_cntrs p)\<lparr>cnt_fatal := cnt_fatal (vp_cntrs p) + 1\<rparr>\<rparr>"

fun upd_stat :: "io_stat_sel option \<Rightarrow> (queue_counter \<Rightarrow> queue_counter) \<Rightarrow> virtq_priv \<Rightarrow> virtq_priv" where
  "upd_stat None f p = p"
| "upd_stat (Some IoRead) f p = p\<lparr>vp_io_read := f (vp_io_read p)\<rparr>"
| "upd_stat (Some IoWrite) f p = p\<lparr>vp_io_write := f (vp_io_write p)\<rparr>"
| "upd_stat (Some IoFlush) f p = p\<lparr>vp_io_flush := f (vp_io_flush p)\<rparr>"

section \<open>Marking host memory dirty\<close>

text \<open>The inner loop of \<^verbatim>\<open>virtq_mark_dirty_mem\<close> writes eight bytes of ones at a time.\<close>

function mark_write :: "mlx5_api \<Rightarrow> u64 \<Rightarrow> u32 \<Rightarrow> u32 \<Rightarrow> snap_dma_q \<Rightarrow> int \<times> u32 \<times> snap_dma_q" where
  "mark_write api start_pa mkey sz q =
     (let to_write = (if sz \<le> 8 then sz else 8);
          (rc, q) = snap_dma_q_write_short api q (replicate (unat to_write) 0xFF) start_pa mkey
      in if rc < 0 then (rc, sz, q)
         else let sz' = sz - to_write
              in if sz' > 0 then mark_write api start_pa mkey sz' q else (rc, sz', q))"
  by pat_completeness auto

termination
proof (relation "measure (\<lambda>(api, a, k, sz, q). unat sz)", simp)
  fix api a k sz q x y q' rc sz'
  assume x: "x = (if sz \<le> 8 then sz else 8 :: u32)" and y: "sz' = sz - x" "0 < sz'"
  then have "8 < sz" "sz' = sz - 8" by (auto split: if_splits)
  then have "unat sz' < unat sz" by (auto simp: word_less_nat_alt unat_sub word_le_nat_alt)
  then show "((api, a, k, sz', q'), api, a, k, sz, q) \<in> measure (\<lambda>(api, a, k, sz, q). unat sz)" by simp
qed

declare mark_write.simps [simp del]

text \<open>A short write that succeeds takes at least one credit: this is what bounds the outer loop.\<close>

lemma commit_tx_available [simp]: "dq_tx_available (dv_commit_wqe n cm fm m q) = dq_tx_available q"
  by (simp add: dv_commit_wqe_def Let_def snap_dv_wqe_submit_def)

lemma write_short_credit:
  assumes "length src \<le> 8" and "snap_dma_q_write_short api q src a k = (rc, q')"
  shows "rc < 0 \<and> q' = q \<or> rc = 0 \<and> 0 \<le> dq_tx_available q' \<and> dq_tx_available q' < dq_tx_available q"
proof -
  let ?w = "inline_wqe_size MLX5_OPCODE_RDMA_WRITE (length src) False"
  have "unat ?w = 36 + length src"
    using assms(1) by (simp add: inline_wqe_size_def unat_of_nat unat_word_ariths)
  then have "0 < int (unat (round_up ?w 64))" unfolding round_up_64 by simp
  then have "0 < uint (round_up ?w 64)" by simp
  with assms(2) show ?thesis
    by (auto simp: snap_dma_q_write_short_def dv_dma_q_write_short_def do_dv_xfer_inline_def Let_def
        take_credits_def qp_can_tx_def split: if_splits)
qed

lemma mark_write_credit:
  "mark_write api a k sz q = (rc, sz', q') \<Longrightarrow>
     rc < 0 \<and> dq_tx_available q' \<le> dq_tx_available q \<or>
     rc = 0 \<and> 0 \<le> dq_tx_available q' \<and> dq_tx_available q' < dq_tx_available q"
proof (induction api a k sz q rule: mark_write.induct)
  case (1 api a k sz q)
  let ?n = "if sz \<le> 8 then sz else 8 :: u32"
  obtain rc1 q1 where w: "snap_dma_q_write_short api q (replicate (unat ?n) 0xFF) a k = (rc1, q1)"
    by (cases "snap_dma_q_write_short api q (replicate (unat ?n) 0xFF) a k")
  have "length (replicate (unat ?n) (0xFF :: u8)) \<le> 8" by (auto simp: word_le_nat_alt)
  from write_short_credit [OF this w] show ?case
  proof
    assume r: "rc1 < 0 \<and> q1 = q"
    with w 1(2) show ?thesis by (simp add: mark_write.simps [of api a k sz q] Let_def)
  next
    assume r: "rc1 = 0 \<and> 0 \<le> dq_tx_available q1 \<and> dq_tx_available q1 < dq_tx_available q"
    show ?thesis
    proof (cases "sz - ?n > 0")
      case True
      with 1(2) w r have "mark_write api a k (sz - ?n) q1 = (rc, sz', q')"
        by (simp add: mark_write.simps [of api a k sz q] Let_def split: if_splits)
      from 1(1) [OF refl w [symmetric] refl _ refl True this] r show ?thesis by auto
    next
      case False
      with 1(2) w r have "rc = rc1 \<and> q' = q1"
        by (auto simp: mark_write.simps [of api a k sz q] Let_def split: if_splits)
      with r show ?thesis by simp
    qed
  qed
qed

function mark_dirty_loop ::
  "mlx5_api \<Rightarrow> snap_dp_bmap \<Rightarrow> u64 \<Rightarrow> u32 \<Rightarrow> int \<Rightarrow> u64 \<Rightarrow> u32 \<Rightarrow> snap_dma_q \<Rightarrow> int \<times> snap_dma_q"
where
  "mark_dirty_loop api m pa len total_size start_pa sz q =
     (let (rc, start_pa, sz) =
            (case snap_dp_bmap_get_start_pa m pa len of
               None \<Rightarrow> (0, start_pa, sz)
             | Some (ret_len, spa, b_off, n) \<Rightarrow> (sint ret_len, spa, n))
      in if rc < 0 then (rc, q)
         else
           let total_size = total_size - rc;
               (rc, sz, q) = mark_write api start_pa (snap_dp_bmap_get_mkey m) sz q
           in if rc < 0 then (rc, q)
              else if total_size > 0 then mark_dirty_loop api m pa len total_size start_pa sz q
              else (rc, q))"
  by pat_completeness auto

termination
  by (relation "measure (\<lambda>(api, m, pa, len, t, a, sz, q). nat (dq_tx_available q))")
     (auto dest!: sym [of _ "mark_write _ _ _ _ _"] mark_write_credit)

declare mark_dirty_loop.simps [simp del]

text \<open>\<^verbatim>\<open>virtq_mark_dirty_mem\<close>: the result is only logged. The migration channel's own
  function is outside the queue's state.\<close>

definition virtq_mark_dirty_mem :: "blk_env \<Rightarrow> u64 \<Rightarrow> u32 \<Rightarrow> bool \<Rightarrow> virtq_priv \<Rightarrow> virtq_priv" where
  "virtq_mark_dirty_mem env pa len is_completion p =
     (if \<not> vp_log_writes_to_host p then p
      else
        let (pa, len) = (if is_completion then (va_device p, 6 + 8 * ucast (va_size p)) else (pa, len))
        in if vp_lm_channel p then p
           else case vp_dp_map p of
                  Some m \<Rightarrow>
                    let (rc, q) = mark_dirty_loop (e_api env) m pa len (uint len) (fst (e_uninit env))
                                    (snd (e_uninit env)) (vp_dma_q p)
                    in p\<lparr>vp_dma_q := q\<rparr>
                | None \<Rightarrow> p)"

section \<open>Allocation helpers of the block queue\<close>

definition zero_desc :: vring_desc where
  "zero_desc = \<lparr>d_addr = 0, d_len = 0, d_flags = 0, d_next = 0\<rparr>"

definition VIRTIO_NUM_DESC :: "nat \<Rightarrow> nat" where
  "VIRTIO_NUM_DESC seg_max = seg_max + NUM_HDR_FTR_DESCS"

definition zero_header :: virtio_blk_outhdr where
  "zero_header = \<lparr>h_type = 0, h_ioprio = 0, h_sector = 0\<rparr>"

text \<open>\<^verbatim>\<open>alloc_aux\<close>: 0, \<open>- ENOMEM\<close> or \<open>-1\<close>.\<close>

definition alloc_aux :: "blk_env \<Rightarrow> nat \<Rightarrow> virtq_cmd \<Rightarrow> int \<times> virtq_cmd" where
  "alloc_aux env seg_max c =
     (let aux_size = 16 + VIRTIO_NUM_DESC seg_max * VRING_DESC_SIZE
      in case e_calloc env aux_size of
           None \<Rightarrow> (- ENOMEM, c)
         | Some a \<Rightarrow>
             let c = c\<lparr>c_aux := a, c_header := zero_header, c_descs := (\<lambda>_. zero_desc)\<rparr>
             in case e_ibv_reg_mr env a aux_size of
                  None \<Rightarrow> (- 1, c)
                | Some k \<Rightarrow> (0, c\<lparr>c_aux_lkey := k\<rparr>))"

definition virtq_alloc_desc_buf :: "blk_env \<Rightarrow> nat \<Rightarrow> nat \<Rightarrow> virtq_cmd \<Rightarrow> int \<times> virtq_cmd" where
  "virtq_alloc_desc_buf env old_len len c =
     (let aux_size = len * VRING_DESC_SIZE + 16;
          err = (- 1, c\<lparr>c_status := VIRTIO_BLK_S_IOERR\<rparr>)
      in case e_calloc env aux_size of
           None \<Rightarrow> err
         | Some a \<Rightarrow>
             (case e_ibv_reg_mr env a aux_size of
                None \<Rightarrow> err
              | Some k \<Rightarrow>
                  (0, c\<lparr>c_aux := a, c_header := zero_header,
                        c_descs := (\<lambda>i. if i < old_len then c_descs c i else zero_desc),
                        c_use_seg_dmem := True, c_aux_lkey := k\<rparr>)))"

definition blk_seg_dmem :: "blk_env \<Rightarrow> cmd_st \<Rightarrow> int \<times> virtq_cmd" where
  "blk_seg_dmem env s =
     (let (c, p) = s
      in if unat (c_num_desc c) \<ge> VIRTIO_NUM_DESC (vp_seg_max p)
         then let (rc, c) = virtq_alloc_desc_buf env (unat (c_num_desc c)) (unat (va_size p)) c
              in (if rc \<noteq> 0 then - 1 else 0, c)
         else (0, c))"

definition virtq_alloc_req_dbuf :: "blk_env \<Rightarrow> u32 \<Rightarrow> virtq_cmd \<Rightarrow> int \<times> virtq_cmd" where
  "virtq_alloc_req_dbuf env len c =
     (let err = (\<lambda>c. (- 1, c\<lparr>c_req_buf := c_buf c, c_status := VIRTIO_BLK_S_IOERR,
                             c_state := VIRTQ_CMD_STATE_WRITE_STATUS\<rparr>))
      in case e_dma_malloc env (unat len) of
           None \<Rightarrow> err c
         | Some b \<Rightarrow>
             (case e_ibv_reg_mr env b (unat len) of
                None \<Rightarrow> err (c\<lparr>c_req_lkey := c_mr_lkey c\<rparr>)
              | Some k \<Rightarrow> (0, c\<lparr>c_req_buf := b, c_req_lkey := k, c_use_dmem := True\<rparr>)))"

text \<open>\<^verbatim>\<open>virtq_rel_req_desc\<close>: the new area is the one of the command, or a fresh one.\<close>

definition virtq_rel_req_desc :: "blk_env \<Rightarrow> cmd_st \<Rightarrow> bool \<times> virtq_cmd" where
  "virtq_rel_req_desc env s =
     (let (c, p) = s;
          (rep, c) =
            (if vp_use_mem_pool p
             then let (rc, c) = alloc_aux env (vp_seg_max p) c
                  in if rc \<noteq> 0 then (True, c\<lparr>c_state := VIRTQ_CMD_STATE_FATAL_ERR\<rparr>) else (False, c)
             else (False, c\<lparr>c_aux := c_buf c + ucast (c_req_size c), c_aux_lkey := c_mr_lkey c\<rparr>))
      in (rep, c\<lparr>c_use_seg_dmem := False\<rparr>))"

section \<open>Fetching descriptors\<close>

text \<open>
  The address of entry \<open>i\<close> of the descriptor array, which follows the 16-byte header in the
  \<^verbatim>\<open>aux\<close> area.
\<close>

definition descs_addr :: "virtq_cmd \<Rightarrow> u64 \<Rightarrow> u64" where
  "descs_addr c i = c_aux c + 16 + i * 16"

text \<open>
  \<^verbatim>\<open>fetch_next_desc\<close>. The indirect table is copied back in whole entries; a table whose
  length is not a multiple of the descriptor size has a trailing part that is no descriptor.
\<close>

definition sort_indirect_table :: "blk_env \<Rightarrow> cmd_st \<Rightarrow> virtq_fetch_desc_status \<times> cmd_st" where
  "sort_indirect_table env s =
     (let (c, p) = s
      in case e_calloc env (unat (c_indirect_len c)) of
           None \<Rightarrow> (VIRTQ_FETCH_DESC_ERR, c, p)
         | Some _ \<Rightarrow>
             let base = unat (c_indirect_pos c);
                 indirect_num = unat (c_indirect_len c) div VRING_DESC_SIZE;
                 (i, tmp) = sort_indirect (\<lambda>j. c_descs c (base + j)) indirect_num 0 0 (\<lambda>_. zero_desc)
             in (VIRTQ_FETCH_DESC_DONE,
                 c\<lparr>c_num_desc := c_num_desc c + of_nat (i + 1),
                   c_descs := (\<lambda>j. if base \<le> j \<and> j < base + indirect_num then tmp (j - base) else c_descs c j)\<rparr>, p))"

definition fetch_read :: "blk_env \<Rightarrow> u64 \<Rightarrow> u64 \<Rightarrow> cmd_st \<Rightarrow> virtq_fetch_desc_status \<times> cmd_st" where
  "fetch_read env srcaddr len s =
     (let (c, p) = s;
          (rc, c) = blk_seg_dmem env (c, p)
      in if rc \<noteq> 0 then (VIRTQ_FETCH_DESC_ERR, c, p)
         else
           let c = c\<lparr>c_comp_count := 1\<rparr>;
               (ret, q) = snap_dma_q_read (e_api env) (vp_dma_q p) (descs_addr c (c_num_desc c)) len
                            (c_aux_lkey c) srcaddr (va_dma_mkey p) (Some (c_idx c));
               p = p\<lparr>vp_dma_q := q\<rparr>
           in if ret \<noteq> 0 then (VIRTQ_FETCH_DESC_ERR, c, p)
              else (VIRTQ_FETCH_DESC_READ,
                    if c_is_indirect c then c else c\<lparr>c_num_desc := c_num_desc c + 1\<rparr>, add_to_host 1 p))"

definition fetch_next_desc :: "blk_env \<Rightarrow> cmd_st \<Rightarrow> virtq_fetch_desc_status \<times> cmd_st" where
  "fetch_next_desc env s =
     (let (c, p) = s; d = c_descs c (unat (c_num_desc c - 1))
      in if c_is_indirect c then sort_indirect_table env (c, p)
         else if c_num_desc c = 0
         then fetch_read env (va_desc p + ucast (c_descr_head_idx c mod va_size p) * 16) 16 (c, p)
         else if has_flag d VRING_DESC_F_NEXT
         then fetch_read env (va_desc p + ucast (d_next d) * 16) 16 (c, p)
         else if has_flag d VRING_DESC_F_INDIRECT
         then let n = c_num_desc c - 1
              in fetch_read env (d_addr d) (ucast (d_len d))
                   (c\<lparr>c_num_desc := n, c_is_indirect := True, c_indirect_pos := ucast n, c_indirect_len := ucast (d_len d)\<rparr>, p)
         else (VIRTQ_FETCH_DESC_DONE, c, p))"

definition blk_virtq_proc_desc :: "cmd_st \<Rightarrow> virtq_cmd" where
  "blk_virtq_proc_desc s =
     (let (c, p) = s;
          (ds, n, nm) = virtq_blk_process_desc (c_descs c) (unat (c_num_desc c)) (c_num_merges c) (vp_merge_descs p);
          c = c\<lparr>c_descs := ds, c_num_desc := of_nat n, c_num_merges := nm\<rparr>
      in if n < NUM_HDR_FTR_DESCS then c\<lparr>c_state := VIRTQ_CMD_STATE_FATAL_ERR\<rparr>
         else c\<lparr>c_total_seg_len := fold (\<lambda>i t. t + d_len (ds i)) [1..<n - 1] (c_total_seg_len c)\<rparr>)"

definition virtq_sm_fetch_cmd_descs :: "blk_env \<Rightarrow> virtq_cmd_sm_op_status \<Rightarrow> cmd_st \<Rightarrow> bool \<times> cmd_st" where
  "virtq_sm_fetch_cmd_descs env status s =
     (let (c, p) = s
      in if status \<noteq> VIRTQ_CMD_SM_OP_OK
         then (True, c\<lparr>c_num_desc := c_num_desc c - 1, c_state := VIRTQ_CMD_STATE_FATAL_ERR\<rparr>, p)
         else
           let (ret, c, p) = fetch_next_desc env (c, p)
           in case ret of
                VIRTQ_FETCH_DESC_ERR \<Rightarrow> (True, c\<lparr>c_state := VIRTQ_CMD_STATE_FATAL_ERR\<rparr>, p)
              | VIRTQ_FETCH_DESC_DONE \<Rightarrow>
                  let c = blk_virtq_proc_desc (c, p)
                  in if c_state c = VIRTQ_CMD_STATE_FATAL_ERR then (True, c, p)
                     else (True, c\<lparr>c_state := VIRTQ_CMD_STATE_READ_HEADER\<rparr>, p)
              | VIRTQ_FETCH_DESC_READ \<Rightarrow> (False, c, p))"

section \<open>Header and data of a request\<close>

definition virtq_descs_to_iovec :: "virtq_cmd \<Rightarrow> int \<times> virtq_cmd" where
  "virtq_descs_to_iovec c =
     (let n = unat (c_num_desc c - 2)
      in if n > c_max_iov_cnt c then (- 1, c)
         else (0, c\<lparr>c_iov := map (\<lambda>i. \<lparr>iov_base = d_addr (c_descs c (i + 1)), iov_len = unat (d_len (c_descs c (i + 1)))\<rparr>)
                    [0..<n]\<rparr>))"

definition zcopy_prepare :: "blk_env \<Rightarrow> cmd_st \<Rightarrow> bool \<times> virtq_cmd" where
  "zcopy_prepare env s =
     (let (c, p) = s; offset = h_sector (c_header c) * BDEV_SECTOR_SIZE
      in if \<not> vp_zcopy p then (False, c)
         else if c_num_desc c = 2 then (False, c)
         else if h_type (c_header c) = VIRTIO_BLK_T_GET_ID then (False, c)
         else case e_zcopy_validate env of
                None \<Rightarrow> (False, c)
              | Some validate \<Rightarrow>
                  let (rc, c) = virtq_descs_to_iovec c
                  in if rc \<noteq> 0 then (False, c)
                     else if \<not> validate (c_iov c) offset (c_total_seg_len c) then (False, c)
                     else (True, c\<lparr>c_offset_blocks := offset div ucast (e_block_size env),
                                   c_num_blocks := ucast (c_total_seg_len c div e_block_size env)\<rparr>))"

definition blk_virtq_sm_read_header :: "blk_env \<Rightarrow> virtq_cmd_sm_op_status \<Rightarrow> cmd_st \<Rightarrow> bool \<times> cmd_st" where
  "blk_virtq_sm_read_header env status s =
     (let (c, p) = s;
          c = c\<lparr>c_state := VIRTQ_CMD_STATE_PARSE_HEADER, c_comp_count := 1\<rparr>;
          (ret, q) = snap_dma_q_read (e_api env) (vp_dma_q p) (c_aux c) (ucast (d_len (c_descs c 0))) (c_aux_lkey c)
                       (d_addr (c_descs c 0)) (va_dma_mkey p) (Some (c_idx c));
          p = p\<lparr>vp_dma_q := q\<rparr>
      in if ret \<noteq> 0 then (True, c\<lparr>c_state := VIRTQ_CMD_STATE_FATAL_ERR\<rparr>, p)
         else (False, c, add_to_host 1 p))"

definition blk_io_error :: "virtq_cmd \<Rightarrow> virtq_cmd" where
  "blk_io_error c = c\<lparr>c_status := VIRTIO_BLK_S_IOERR, c_state := VIRTQ_CMD_STATE_WRITE_STATUS\<rparr>"

definition parse_request_type :: "virtq_cmd \<Rightarrow> u32 \<times> virtq_cmd_sm_state" where
  "parse_request_type c =
     (let t = h_type (c_header c)
      in if t = VIRTIO_BLK_T_OUT then (c_total_seg_len c, VIRTQ_CMD_STATE_READ_DATA)
         else if t = VIRTIO_BLK_T_IN \<or> t = VIRTIO_BLK_T_GET_ID then (c_total_seg_len c, VIRTQ_CMD_STATE_HANDLE_REQ)
         else (0, VIRTQ_CMD_STATE_HANDLE_REQ))"

definition blk_virtq_sm_parse_header :: "blk_env \<Rightarrow> virtq_cmd_sm_op_status \<Rightarrow> cmd_st \<Rightarrow> bool \<times> cmd_st" where
  "blk_virtq_sm_parse_header env status s =
     (let (c, p) = s
      in if status \<noteq> VIRTQ_CMD_SM_OP_OK then (True, blk_io_error c, p)
         else
           let (z, c) = zcopy_prepare env (c, p);
               c = c\<lparr>c_zcopy := z\<rparr>
           in if z then (True, c\<lparr>c_state := VIRTQ_CMD_STATE_HANDLE_REQ\<rparr>, p)
              else
                let (req_len, st) = parse_request_type c;
                    c = c\<lparr>c_state := st\<rparr>
                in if vp_use_mem_pool p
                   then if req_len = 0 then (True, c, p)
                        else if e_dma_pool_malloc env (unat req_len) \<noteq> 0 then (True, blk_io_error c, p)
                        else (False, c, p)
                   else if c_total_seg_len c > c_req_size c
                   then (True, snd (virtq_alloc_req_dbuf env (c_total_seg_len c) c), p)
                   else (True, c, p))"

text \<open>The data descriptors \<^verbatim>\<open>1 .. num_desc - 2\<close>.\<close>

definition data_descs :: "virtq_cmd \<Rightarrow> nat list" where
  "data_descs c = [1..<unat (c_num_desc c - 1)]"

fun read_data_loop :: "blk_env \<Rightarrow> virtq_cmd \<Rightarrow> u64 \<Rightarrow> nat list \<Rightarrow> virtq_priv \<Rightarrow> int \<times> virtq_priv" where
  "read_data_loop env c offset [] p = (0, p)"
| "read_data_loop env c offset (i # is) p =
     (let d = c_descs c i
      in if has_flag d VRING_DESC_F_WRITE then read_data_loop env c offset is p
         else
           let (ret, q) = snap_dma_q_read (e_api env) (vp_dma_q p) (c_req_buf c + offset) (ucast (d_len d)) (c_req_lkey c)
                            (d_addr d) (va_dma_mkey p) (Some (c_idx c));
               p = p\<lparr>vp_dma_q := q\<rparr>
           in if ret \<noteq> 0 then (ret, p) else read_data_loop env c (offset + ucast (d_len d)) is p)"

definition blk_virtq_sm_read_data :: "blk_env \<Rightarrow> virtq_cmd_sm_op_status \<Rightarrow> cmd_st \<Rightarrow> bool \<times> cmd_st" where
  "blk_virtq_sm_read_data env status s =
     (let (c, p) = s;
          n = length (filter (\<lambda>i. \<not> has_flag (c_descs c i) VRING_DESC_F_WRITE) (data_descs c));
          c = c\<lparr>c_state := VIRTQ_CMD_STATE_HANDLE_REQ, c_comp_count := int n\<rparr>
      in if n = 0 then (True, c, p)
         else
           let (ret, p) = read_data_loop env c 0 (data_descs c) p
           in if ret \<noteq> 0 then (True, c\<lparr>c_state := VIRTQ_CMD_STATE_FATAL_ERR\<rparr>, p)
              else (False, c, add_to_host 1 p))"

section \<open>The request\<close>

definition count_request :: "int \<Rightarrow> cmd_st \<Rightarrow> virtq_priv" where
  "count_request ret s =
     (let (c, p) = s
      in upd_stat (c_io_cmd_stat c)
           (\<lambda>k. let k = k\<lparr>ct_total := ct_total k + 1\<rparr>;
                    k = (if ret \<noteq> 0 then k\<lparr>ct_fail := ct_fail k + 1\<rparr> else k);
                    k = (if vp_merge_descs p then k\<lparr>ct_merged_desc := ct_merged_desc k + ucast (c_num_merges c)\<rparr> else k);
                    k = (if c_use_dmem c then k\<lparr>ct_large_in_buf := ct_large_in_buf k + 1\<rparr> else k)
                in if c_use_seg_dmem c then k\<lparr>ct_long_desc_chain := ct_long_desc_chain k + 1\<rparr> else k) p)"

text \<open>
  The switch of \<^verbatim>\<open>blk_virtq_sm_handle_req\<close>: \<open>None\<close> is the early return of an unsupported
  request, otherwise the value of \<^verbatim>\<open>ret\<close> after the switch.
\<close>

definition handle_out :: "blk_env \<Rightarrow> virtq_cmd \<Rightarrow> int \<times> virtq_cmd" where
  "handle_out env c =
     (let c = c\<lparr>c_io_cmd_stat := Some IoWrite, c_state := VIRTQ_CMD_STATE_OUT_DATA_DONE\<rparr>
      in (if c_zcopy c then e_writev_blocks env (c_iov c) (c_offset_blocks c) (c_num_blocks c)
          else e_write env (c_req_buf c) (h_sector (c_header c) * BDEV_SECTOR_SIZE) (c_total_seg_len c), c))"

definition handle_in :: "blk_env \<Rightarrow> virtq_cmd \<Rightarrow> int \<times> virtq_cmd" where
  "handle_in env c =
     (let c = c\<lparr>c_io_cmd_stat := Some IoRead\<rparr>
      in if c_zcopy c
         then let c = c\<lparr>c_total_in_len := c_total_in_len c + c_total_seg_len c, c_state := VIRTQ_CMD_STATE_WRITE_STATUS\<rparr>
              in (e_readv_blocks env (c_iov c) (c_offset_blocks c) (c_num_blocks c), c)
         else let c = c\<lparr>c_state := VIRTQ_CMD_STATE_IN_DATA_DONE\<rparr>
              in (e_read env (c_req_buf c) (h_sector (c_header c) * BDEV_SECTOR_SIZE) (c_total_seg_len c), c))"

definition handle_flush :: "blk_env \<Rightarrow> virtq_cmd \<Rightarrow> int \<times> virtq_cmd" where
  "handle_flush env c =
     (let c = c\<lparr>c_io_cmd_stat := Some IoFlush\<rparr>
      in if h_sector (c_header c) \<noteq> 0 then (- 1, c)
         else (e_flush env 0 (e_num_blocks env * ucast (e_block_size env)),
               c\<lparr>c_state := VIRTQ_CMD_STATE_WRITE_STATUS\<rparr>))"

definition handle_get_id :: "blk_env \<Rightarrow> cmd_st \<Rightarrow> int option \<times> cmd_st" where
  "handle_get_id env s =
     (let (c, p) = s;
          c = c\<lparr>c_state := VIRTQ_CMD_STATE_WRITE_STATUS\<rparr>;
          ret = (if length (e_bdev_name env) < 2 ^ 31 then int (length (e_bdev_name env)) else - 1)
      in if ret < 0 then (None, c\<lparr>c_status := VIRTIO_BLK_S_UNSUPP\<rparr>, p)
         else
           let d = c_descs c 1;
               len = min (of_int (ret + 1)) (d_len d);
               c = c\<lparr>c_comp_count := 1, c_total_in_len := c_total_in_len c + len\<rparr>;
               (ret, q) = snap_dma_q_write (e_api env) (vp_dma_q p) (c_req_buf c) (ucast len) (c_req_lkey c)
                            (d_addr d) (va_dma_mkey p) (Some (c_idx c))
           in (Some ret, c, virtq_mark_dirty_mem env (d_addr d) len False (p\<lparr>vp_dma_q := q\<rparr>)))"

definition handle_switch :: "blk_env \<Rightarrow> cmd_st \<Rightarrow> int option \<times> cmd_st" where
  "handle_switch env s =
     (let (c, p) = s; t = h_type (c_header c)
      in if t = VIRTIO_BLK_T_OUT then (let (ret, c) = handle_out env c in (Some ret, c, p))
         else if t = VIRTIO_BLK_T_IN then (let (ret, c) = handle_in env c in (Some ret, c, p))
         else if t = VIRTIO_BLK_T_FLUSH then (let (ret, c) = handle_flush env c in (Some ret, c, p))
         else if t = VIRTIO_BLK_T_GET_ID then handle_get_id env (c, p)
         else (None, c\<lparr>c_state := VIRTQ_CMD_STATE_WRITE_STATUS, c_status := VIRTIO_BLK_S_UNSUPP\<rparr>, p))"

definition blk_virtq_sm_handle_req :: "blk_env \<Rightarrow> virtq_cmd_sm_op_status \<Rightarrow> cmd_st \<Rightarrow> bool \<times> cmd_st" where
  "blk_virtq_sm_handle_req env status s =
     (let (c, p) = s
      in if status \<noteq> VIRTQ_CMD_SM_OP_OK then (True, blk_io_error c, p)
         else if vp_pending_bdev_detach p then (True, blk_io_error (c\<lparr>c_in_bdev_detach := True\<rparr>), p)
         else
           let (r, c, p) = handle_switch env (c\<lparr>c_in_bdev_detach := False, c_io_cmd_stat := None\<rparr>, p)
           in case r of
                None \<Rightarrow> (True, c, p)
              | Some ret \<Rightarrow>
                  let p = count_request ret (c, p)
                  in if ret \<noteq> 0 then (True, blk_io_error c, p)
                     else if h_type (c_header c) = VIRTIO_BLK_T_GET_ID then (False, c, add_to_host 1 p)
                     else (False, c, add_in_bdev 1 (p\<lparr>vp_uncomp_bdev_cmds := vp_uncomp_bdev_cmds p + 1\<rparr>)))"

definition virtq_sm_write_back_done :: "blk_env \<Rightarrow> virtq_cmd_sm_op_status \<Rightarrow> cmd_st \<Rightarrow> bool \<times> cmd_st" where
  "virtq_sm_write_back_done env status s =
     (let (c, p) = s; c = c\<lparr>c_state := VIRTQ_CMD_STATE_WRITE_STATUS\<rparr>
      in (True, if status \<noteq> VIRTQ_CMD_SM_OP_OK then c\<lparr>c_status := VIRTIO_BLK_S_IOERR\<rparr> else c, p))"

fun write_data_loop :: "blk_env \<Rightarrow> u64 \<Rightarrow> nat list \<Rightarrow> cmd_st \<Rightarrow> int \<times> cmd_st" where
  "write_data_loop env offset [] s = (0, s)"
| "write_data_loop env offset (i # is) s =
     (let (c, p) = s; d = c_descs c i;
          (ret, q) = snap_dma_q_write (e_api env) (vp_dma_q p) (c_req_buf c + offset) (ucast (d_len d)) (c_req_lkey c)
                       (d_addr d) (va_dma_mkey p) (Some (c_idx c));
          p = p\<lparr>vp_dma_q := q\<rparr>
      in if ret \<noteq> 0 then (ret, c, p)
         else write_data_loop env (offset + ucast (d_len d)) is
                (c\<lparr>c_total_in_len := c_total_in_len c + d_len d\<rparr>,
                 virtq_mark_dirty_mem env (d_addr d) (d_len d) False p))"

definition blk_virtq_sm_handle_in_iov_done :: "blk_env \<Rightarrow> virtq_cmd_sm_op_status \<Rightarrow> cmd_st \<Rightarrow> bool \<times> cmd_st" where
  "blk_virtq_sm_handle_in_iov_done env status s =
     (let (c, p) = s
      in if status \<noteq> VIRTQ_CMD_SM_OP_OK then (True, blk_io_error c, p)
         else
           let c = c\<lparr>c_comp_count := sint (ucast (c_num_desc c - 2) :: u32), c_state := VIRTQ_CMD_STATE_WRITE_STATUS\<rparr>;
               (ret, c, p) = write_data_loop env 0 (map Suc [0..<unat (c_num_desc c - 2)]) (c, p)
           in if ret \<noteq> 0 then (True, blk_io_error c, p)
              else (False, c, add_to_host 1 p))"

section \<open>Status, completion and release\<close>

definition status_desc :: "virtq_cmd \<Rightarrow> nat" where
  "status_desc c = unat (ucast (c_num_desc c - 1) :: u16)"

definition virtq_sm_write_status :: "blk_env \<Rightarrow> virtq_cmd_sm_op_status \<Rightarrow> cmd_st \<Rightarrow> bool \<times> cmd_st" where
  "virtq_sm_write_status env status s =
     (let (c, p) = s;
          a = d_addr (c_descs c (status_desc c));
          c = (if status \<noteq> VIRTQ_CMD_SM_OP_OK then c\<lparr>c_status := VIRTIO_BLK_S_IOERR\<rparr> else c);
          (ret, p) =
            (case e_send_status env of
               Some f \<Rightarrow> (f (c_status c) a, p)
             | None \<Rightarrow>
                 let (ret, q) = snap_dma_q_write_short (e_api env) (vp_dma_q p) [c_status c] a (va_dma_mkey p)
                 in (ret, p\<lparr>vp_dma_q := q\<rparr>))
      in if ret \<noteq> 0 then (True, c\<lparr>c_state := VIRTQ_CMD_STATE_FATAL_ERR\<rparr>, p)
         else (True, c\<lparr>c_total_in_len := c_total_in_len c + 1, c_state := VIRTQ_CMD_STATE_SEND_COMP\<rparr>,
               virtq_mark_dirty_mem env a 1 False p))"

definition comp_bytes :: "virtq_cmd \<Rightarrow> u8 list" where
  "comp_bytes c = le32 (ucast (c_descr_head_idx c)) @ le32 (c_total_in_len c)"

definition virtq_tunnel_send_comp :: "blk_env \<Rightarrow> cmd_st \<Rightarrow> int \<times> virtq_priv" where
  "virtq_tunnel_send_comp env s =
     (let (c, p) = s; (ret, q) = snap_dma_q_send_completion (e_api env) (vp_dma_q p) (comp_bytes c)
      in (ret, p\<lparr>vp_dma_q := q\<rparr>))"

definition le16 :: "u16 \<Rightarrow> u8 list" where
  "le16 w = [ucast w, ucast (drop_bit 8 w)]"

text \<open>The used ring has \<^verbatim>\<open>flags\<close> and \<^verbatim>\<open>idx\<close>, two bytes each, in front of its
  eight-byte elements.\<close>

definition virtq_sw_send_comp :: "blk_env \<Rightarrow> cmd_st \<Rightarrow> int \<times> virtq_priv" where
  "virtq_sw_send_comp env s =
     (let (c, p) = s;
          used_elem_addr = va_device p + 4 + 8 * ucast (vp_hw_used_index p mod va_size p);
          (ret, q) = snap_dma_q_write_short (e_api env) (vp_dma_q p) (comp_bytes c) used_elem_addr (va_dma_mkey p);
          p = p\<lparr>vp_dma_q := q\<rparr>
      in if ret \<noteq> 0 then (ret, p)
         else
           let p = p\<lparr>vp_hw_used_index := vp_hw_used_index p + 1\<rparr>;
               (ret, q) = snap_dma_q_write_short (e_api env) (vp_dma_q p) (le16 (vp_hw_used_index p)) (va_device p + 2)
                            (va_dma_mkey p)
           in (ret, p\<lparr>vp_dma_q := q\<rparr>))"

definition virtq_dpa_send_comp :: "blk_env \<Rightarrow> cmd_st \<Rightarrow> int \<times> virtq_priv" where
  "virtq_dpa_send_comp env s =
     (let (c, p) = s in (e_dpa_complete env (ucast (c_descr_head_idx c)) (c_total_in_len c), p))"

definition send_comp :: "blk_env \<Rightarrow> cmd_st \<Rightarrow> int \<times> virtq_priv" where
  "send_comp env s =
     (case e_send_comp env of
        TunnelComp \<Rightarrow> virtq_tunnel_send_comp env s
      | SwComp \<Rightarrow> virtq_sw_send_comp env s
      | DpaComp \<Rightarrow> virtq_dpa_send_comp env s)"

definition virtq_sm_send_completion :: "blk_env \<Rightarrow> virtq_cmd_sm_op_status \<Rightarrow> cmd_st \<Rightarrow> bool \<times> cmd_st" where
  "virtq_sm_send_completion env status s =
     (let (c, p) = s
      in if status \<noteq> VIRTQ_CMD_SM_OP_OK then (True, c\<lparr>c_state := VIRTQ_CMD_STATE_FATAL_ERR\<rparr>, p)
         else
           let unordered = c_cmd_available_index c \<noteq> vp_ctrl_used_index p;
               p = (if unordered then upd_stat (c_io_cmd_stat c) (\<lambda>k. k\<lparr>ct_unordered := ct_unordered k + 1\<rparr>) p else p)
           in if vp_force_in_order p \<and> unordered
              then (False, c\<lparr>c_state := VIRTQ_CMD_STATE_SEND_IN_ORDER_COMP\<rparr>, p)
              else
                let (ret, p) = send_comp env (c, p)
                in if ret \<noteq> 0 then (True, c\<lparr>c_state := VIRTQ_CMD_STATE_FATAL_ERR\<rparr>, p)
                   else let p = virtq_mark_dirty_mem env 0 0 True p
                        in (True, c\<lparr>c_state := VIRTQ_CMD_STATE_RELEASE\<rparr>,
                            p\<lparr>vp_ctrl_used_index := vp_ctrl_used_index p + 1\<rparr>))"

definition virtq_rel_req_dbuf :: "virtq_cmd \<Rightarrow> virtq_cmd" where
  "virtq_rel_req_dbuf c = c\<lparr>c_req_buf := c_buf c, c_req_lkey := c_mr_lkey c, c_use_dmem := False\<rparr>"

text \<open>Giving the buffer back to the backend's pool changes nothing of the command.\<close>

definition virtq_common_release :: "blk_env \<Rightarrow> cmd_st \<Rightarrow> bool \<times> virtq_cmd" where
  "virtq_common_release env s =
     (let (c, p) = s;
          c = (if c_use_dmem c then virtq_rel_req_dbuf c else c)
      in if c_use_seg_dmem c then virtq_rel_req_desc env (c, p) else (False, c))"

definition virtq_sm_release :: "blk_env \<Rightarrow> virtq_cmd_sm_op_status \<Rightarrow> cmd_st \<Rightarrow> bool \<times> cmd_st" where
  "virtq_sm_release env status s =
     (let (c, p) = s; (rep, c) = virtq_common_release env (c, p)
      in (rep, c, add_total (- 1) p))"

definition blk_virtq_sm_release :: "blk_env \<Rightarrow> virtq_cmd_sm_op_status \<Rightarrow> cmd_st \<Rightarrow> bool \<times> cmd_st" where
  "blk_virtq_sm_release env status s =
     (let (c, p) = s;
          p = (if \<not> c_in_bdev_detach c \<and> h_type (c_header c) \<noteq> VIRTIO_BLK_T_GET_ID \<and> vp_uncomp_bdev_cmds p > 0
               then p\<lparr>vp_uncomp_bdev_cmds := vp_uncomp_bdev_cmds p - 1\<rparr> else p)
      in virtq_sm_release env status (c, p))"

definition virtq_sm_fatal_error :: "blk_env \<Rightarrow> virtq_cmd_sm_op_status \<Rightarrow> cmd_st \<Rightarrow> bool \<times> cmd_st" where
  "virtq_sm_fatal_error env status s =
     (let (c, p) = s; (_, c) = virtq_common_release env (c, p)
      in (False, c, add_fatal (p\<lparr>vp_fatal_err := True\<rparr>)))"

section \<open>The state machine\<close>

text \<open>\<^verbatim>\<open>blk_sm_arr\<close>.\<close>

fun blk_sm :: "blk_env \<Rightarrow> virtq_cmd_sm_state \<Rightarrow> virtq_cmd_sm_op_status \<Rightarrow> cmd_st \<Rightarrow> bool \<times> cmd_st" where
  "blk_sm env VIRTQ_CMD_STATE_IDLE status s = (False, s)"
| "blk_sm env VIRTQ_CMD_STATE_FETCH_CMD_DESCS status s = virtq_sm_fetch_cmd_descs env status s"
| "blk_sm env VIRTQ_CMD_STATE_READ_HEADER status s = blk_virtq_sm_read_header env status s"
| "blk_sm env VIRTQ_CMD_STATE_PARSE_HEADER status s = blk_virtq_sm_parse_header env status s"
| "blk_sm env VIRTQ_CMD_STATE_READ_DATA status s = blk_virtq_sm_read_data env status s"
| "blk_sm env VIRTQ_CMD_STATE_HANDLE_REQ status s = blk_virtq_sm_handle_req env status s"
| "blk_sm env VIRTQ_CMD_STATE_OUT_DATA_DONE status s = virtq_sm_write_back_done env status s"
| "blk_sm env VIRTQ_CMD_STATE_IN_DATA_DONE status s = blk_virtq_sm_handle_in_iov_done env status s"
| "blk_sm env VIRTQ_CMD_STATE_WRITE_STATUS status s = virtq_sm_write_status env status s"
| "blk_sm env VIRTQ_CMD_STATE_SEND_COMP status s = virtq_sm_send_completion env status s"
| "blk_sm env VIRTQ_CMD_STATE_SEND_IN_ORDER_COMP status s = virtq_sm_send_completion env status s"
| "blk_sm env VIRTQ_CMD_STATE_RELEASE status s = blk_virtq_sm_release env status s"
| "blk_sm env VIRTQ_CMD_STATE_FATAL_ERR status s = virtq_sm_fatal_error env status s"


end
