(* ===== verification/Virtq_Handlers.thy ===== *)
theory Virtq_Handlers
  imports Virtq_Cmd
begin

text \<open>
  What every handler of the command state machine may change, what it leaves the command waiting
  for and how it settles the counters of the queue; and \<^verbatim>\<open>virtq_cmd_progress\<close>, the loop that
  calls the handler of the current state while it asks for it. The loop ends because a handler that
  asks to be called again has moved the command to a later state.
\<close>

section \<open>What a handler may change\<close>

text \<open>The fields no handler writes.\<close>

definition c_fixed :: "virtq_cmd \<Rightarrow> nat \<times> u16 \<times> u16 \<times> nat" where
  "c_fixed c = (c_idx c, c_descr_head_idx c, c_cmd_available_index c, c_max_iov_cnt c)"

definition vp_fixed ::
  "virtq_priv \<Rightarrow> virtq_sw_state \<times> virtq_cmd list \<times> nat \<times> u16 \<times> bool \<times> bool \<times> u16 \<times> u64 \<times> u64 \<times> u32 \<times> bool"
where
  "vp_fixed p = (vp_swq_state p, vp_cmd_arr p, vp_seg_max p, vp_ctrl_available_index p, vp_force_in_order p,
     vp_use_mem_pool p, va_size p, va_desc p, va_device p, va_dma_mkey p, vp_pending_bdev_detach p)"

text \<open>The calls a handler makes on the DMA queue, each with at most eight inline bytes.\<close>

inductive dma_run :: "mlx5_api \<Rightarrow> snap_dma_q \<Rightarrow> snap_dma_q \<Rightarrow> bool" for api where
  run_refl: "dma_run api q q"
| run_step: "dma_run api q q1 \<Longrightarrow> dma_exec api c q1 = Some (rc, q2) \<Longrightarrow> inline_len c \<le> 8 \<Longrightarrow> dma_run api q q2"

lemma dma_run_trans: "dma_run api q1 q2 \<Longrightarrow> dma_run api q q1 \<Longrightarrow> dma_run api q q2"
  by (induction rule: dma_run.induct) (auto intro: run_step)

lemma dma_run_read: "snap_dma_q_read api q b l k a r cm = (rc, q') \<Longrightarrow> dma_run api q q'"
  using run_step [OF run_refl, of api "DmaRead b l k a r cm"] by simp

lemma dma_run_write: "snap_dma_q_write api q b l k a r cm = (rc, q') \<Longrightarrow> dma_run api q q'"
  using run_step [OF run_refl, of api "DmaWrite b l k a r cm"] by simp

lemma dma_run_write_short:
  "length src \<le> 8 \<Longrightarrow> snap_dma_q_write_short api q src a k = (rc, q') \<Longrightarrow> dma_run api q q'"
  using run_step [OF run_refl, of api "DmaWriteShort src a k"] by simp

lemma dma_run_send_completion:
  "length src \<le> 8 \<Longrightarrow> snap_dma_q_send_completion api q src = (rc, q') \<Longrightarrow> dma_run api q q'"
  using run_step [OF run_refl, of api "DmaSendCompletion src"] by simp

lemma dma_run_mark_write: "mark_write api a k sz q = (rc, sz', q') \<Longrightarrow> dma_run api q q'"
proof (induction api a k sz q rule: mark_write.induct)
  case (1 api a k sz q)
  let ?n = "if sz \<le> 8 then sz else 8 :: u32"
  obtain rc1 q1 where w: "snap_dma_q_write_short api q (replicate (unat ?n) 0xFF) a k = (rc1, q1)"
    by (cases "snap_dma_q_write_short api q (replicate (unat ?n) 0xFF) a k")
  have "length (replicate (unat ?n) (0xFF :: u8)) \<le> 8" by (auto simp: word_le_nat_alt)
  from dma_run_write_short [OF this w] have r: "dma_run api q q1" .
  show ?case
  proof (cases "\<not> rc1 < 0 \<and> sz - ?n > 0")
    case True
    with 1(2) w have "mark_write api a k (sz - ?n) q1 = (rc, sz', q')"
      by (simp add: mark_write.simps [of api a k sz q] Let_def split: if_splits)
    from 1(1) [OF refl w [symmetric] refl _ refl _ this] True r show ?thesis by (auto intro: dma_run_trans)
  next
    case False
    with 1(2) w have "q' = q1"
      by (auto simp: mark_write.simps [of api a k sz q] Let_def split: if_splits)
    with r show ?thesis by simp
  qed
qed

lemma dma_run_mark_dirty_loop: "mark_dirty_loop api m pa len t a sz q = (rc, q') \<Longrightarrow> dma_run api q q'"
proof (induction api m pa len t a sz q rule: mark_dirty_loop.induct)
  case (1 api m pa len t a sz q)
  note ih = 1(1) and eq = 1(2)
  obtain r0 a0 sz0 where g: "(case snap_dp_bmap_get_start_pa m pa len of None \<Rightarrow> (0, a, sz)
      | Some (ret_len, spa, b_off, n) \<Rightarrow> (sint ret_len, spa, n)) = (r0, a0, sz0)" by (metis surj_pair)
  obtain r1 sz1 q1 where w: "mark_write api a0 (snap_dp_bmap_get_mkey m) sz0 q = (r1, sz1, q1)" by (metis surj_pair)
  from dma_run_mark_write [OF w] have r: "dma_run api q q1" .
  consider "r0 < 0" | "0 \<le> r0" "r1 < 0 \<or> \<not> t - r0 > 0" | "0 \<le> r0" "0 \<le> r1" "t - r0 > 0" by linarith
  then show ?case
  proof cases
    case 1
    with eq g show ?thesis by (simp add: mark_dirty_loop.simps [of api m pa len t a sz q] run_refl)
  next
    case 2
    with eq g w r show ?thesis
      by (auto simp: mark_dirty_loop.simps [of api m pa len t a sz q] Let_def split: if_splits)
  next
    case 3
    with eq g w have "mark_dirty_loop api m pa len (t - r0) a0 sz1 q1 = (rc, q')"
      by (simp add: mark_dirty_loop.simps [of api m pa len t a sz q] Let_def)
    from ih [OF g [symmetric] refl refl _ refl w [symmetric] refl refl _ _ this] 3 r show ?thesis
      by (auto intro: dma_run_trans)
  qed
qed

lemma mark_dirty_simps [simp]:
  "vp_fixed (virtq_mark_dirty_mem env pa len b p) = vp_fixed p"
  "vp_cntrs (virtq_mark_dirty_mem env pa len b p) = vp_cntrs p"
  "vp_ctrl_used_index (virtq_mark_dirty_mem env pa len b p) = vp_ctrl_used_index p"
  "vp_fatal_err (virtq_mark_dirty_mem env pa len b p) = vp_fatal_err p"
  "vp_hw_used_index (virtq_mark_dirty_mem env pa len b p) = vp_hw_used_index p"
  "vp_uncomp_bdev_cmds (virtq_mark_dirty_mem env pa len b p) = vp_uncomp_bdev_cmds p"
  by (auto simp: virtq_mark_dirty_mem_def vp_fixed_def Let_def split: option.splits prod.splits)

lemma dma_run_mark_dirty: "dma_run (e_api env) (vp_dma_q p) (vp_dma_q (virtq_mark_dirty_mem env pa len b p))"
  by (auto simp: virtq_mark_dirty_mem_def Let_def run_refl dma_run_mark_dirty_loop split: option.splits prod.splits)

lemma upd_stat_simps [simp]:
  "vp_fixed (upd_stat s f p) = vp_fixed p" "vp_cntrs (upd_stat s f p) = vp_cntrs p"
  "vp_ctrl_used_index (upd_stat s f p) = vp_ctrl_used_index p" "vp_dma_q (upd_stat s f p) = vp_dma_q p"
  "vp_force_in_order (upd_stat s f p) = vp_force_in_order p" "vp_fatal_err (upd_stat s f p) = vp_fatal_err p"
  "vp_uncomp_bdev_cmds (upd_stat s f p) = vp_uncomp_bdev_cmds p"
  by (cases "(s, f, p)" rule: upd_stat.cases; simp add: vp_fixed_def)+

lemma vp_fixed_upd [simp]:
  "vp_fixed (p\<lparr>vp_dma_q := q\<rparr>) = vp_fixed p" "vp_fixed (p\<lparr>vp_hw_used_index := u\<rparr>) = vp_fixed p"
  "vp_fixed (p\<lparr>vp_uncomp_bdev_cmds := n\<rparr>) = vp_fixed p" "vp_fixed (p\<lparr>vp_fatal_err := b\<rparr>) = vp_fixed p"
  "vp_fixed (p\<lparr>vp_cntrs := k\<rparr>) = vp_fixed p" "vp_fixed (p\<lparr>vp_ctrl_used_index := i\<rparr>) = vp_fixed p"
  by (simp_all add: vp_fixed_def)

lemma add_fixed [simp]:
  "vp_fixed (add_total n p) = vp_fixed p" "vp_fixed (add_in_bdev n p) = vp_fixed p"
  "vp_fixed (add_to_host n p) = vp_fixed p" "vp_fixed (add_fatal p) = vp_fixed p"
  "vp_dma_q (add_total n p) = vp_dma_q p" "vp_dma_q (add_in_bdev n p) = vp_dma_q p"
  "vp_dma_q (add_to_host n p) = vp_dma_q p" "vp_dma_q (add_fatal p) = vp_dma_q p"
  "vp_ctrl_used_index (add_total n p) = vp_ctrl_used_index p" "vp_ctrl_used_index (add_in_bdev n p) = vp_ctrl_used_index p"
  "vp_ctrl_used_index (add_to_host n p) = vp_ctrl_used_index p" "vp_ctrl_used_index (add_fatal p) = vp_ctrl_used_index p"
  by (simp_all add: add_total_def add_in_bdev_def add_to_host_def add_fatal_def)

text \<open>
  The counters after an activation, by what the command is left waiting for: a DMA completion, the
  backend, memory of the pool, its turn; or it is finished, or dead, or died while finishing.
\<close>

datatype wait = WDma | WBdev | WPool | WOrder | WDone | WFatal | WFatalDone

fun settle :: "wait \<Rightarrow> queue_out_counter \<Rightarrow> queue_out_counter" where
  "settle WDma k = k\<lparr>outstanding_to_host := outstanding_to_host k + 1\<rparr>"
| "settle WBdev k = k\<lparr>outstanding_in_bdev := outstanding_in_bdev k + 1\<rparr>"
| "settle WPool k = k"
| "settle WOrder k = k"
| "settle WDone k = k\<lparr>outstanding_total := outstanding_total k - 1\<rparr>"
| "settle WFatal k = k\<lparr>cnt_fatal := cnt_fatal k + 1\<rparr>"
| "settle WFatalDone k = k\<lparr>outstanding_total := outstanding_total k - 1, cnt_fatal := cnt_fatal k + 1\<rparr>"

fun rests_in :: "wait \<Rightarrow> virtq_cmd_sm_state \<Rightarrow> bool" where
  "rests_in WDma st \<longleftrightarrow> st \<in> {VIRTQ_CMD_STATE_FETCH_CMD_DESCS, VIRTQ_CMD_STATE_PARSE_HEADER,
     VIRTQ_CMD_STATE_HANDLE_REQ, VIRTQ_CMD_STATE_WRITE_STATUS}"
| "rests_in WBdev st \<longleftrightarrow> st \<in> {VIRTQ_CMD_STATE_OUT_DATA_DONE, VIRTQ_CMD_STATE_IN_DATA_DONE, VIRTQ_CMD_STATE_WRITE_STATUS}"
| "rests_in WPool st \<longleftrightarrow> st \<in> {VIRTQ_CMD_STATE_READ_DATA, VIRTQ_CMD_STATE_HANDLE_REQ}"
| "rests_in WOrder st \<longleftrightarrow> st = VIRTQ_CMD_STATE_SEND_IN_ORDER_COMP"
| "rests_in WDone st \<longleftrightarrow> st = VIRTQ_CMD_STATE_RELEASE"
| "rests_in WFatal st \<longleftrightarrow> st = VIRTQ_CMD_STATE_FATAL_ERR"
| "rests_in WFatalDone st \<longleftrightarrow> st = VIRTQ_CMD_STATE_FATAL_ERR"

text \<open>
  What a command waits for, read off the handler that ended its activation: the handlers that post
  reads or writes wait for the DMA completion, a request handed to the block device for its callback,
  a parsed header for memory of the pool, the completion handler for the turn of the command.
\<close>

fun stop_wait :: "virtq_cmd_sm_state \<Rightarrow> virtq_cmd \<Rightarrow> wait" where
  "stop_wait VIRTQ_CMD_STATE_FETCH_CMD_DESCS c = WDma"
| "stop_wait VIRTQ_CMD_STATE_READ_HEADER c = WDma"
| "stop_wait VIRTQ_CMD_STATE_PARSE_HEADER c = WPool"
| "stop_wait VIRTQ_CMD_STATE_READ_DATA c = WDma"
| "stop_wait VIRTQ_CMD_STATE_HANDLE_REQ c = (if h_type (c_header c) = VIRTIO_BLK_T_GET_ID then WDma else WBdev)"
| "stop_wait VIRTQ_CMD_STATE_IN_DATA_DONE c = WDma"
| "stop_wait VIRTQ_CMD_STATE_SEND_COMP c = WOrder"
| "stop_wait VIRTQ_CMD_STATE_SEND_IN_ORDER_COMP c = WOrder"
| "stop_wait VIRTQ_CMD_STATE_FATAL_ERR c = WFatal"
| "stop_wait _ c = WDone"

text \<open>One handler: the fixed fields stay, the DMA queue is reached by data-path calls; a handler
  that waits settles the counters.\<close>

definition sm_frame :: "blk_env \<Rightarrow> cmd_st \<Rightarrow> cmd_st \<Rightarrow> bool" where
  "sm_frame env s s' \<longleftrightarrow> c_fixed (fst s') = c_fixed (fst s) \<and> vp_fixed (snd s') = vp_fixed (snd s) \<and>
     dma_run (e_api env) (vp_dma_q (snd s)) (vp_dma_q (snd s'))"

lemma sm_frame_refl: "sm_frame env s s"
  by (simp add: sm_frame_def run_refl)

lemma sm_frame_trans: "sm_frame env s1 s2 \<Longrightarrow> sm_frame env s s1 \<Longrightarrow> sm_frame env s s2"
  by (auto simp: sm_frame_def intro: dma_run_trans)

definition quiet :: "cmd_st \<Rightarrow> cmd_st \<Rightarrow> bool" where
  "quiet s s' \<longleftrightarrow> vp_cntrs (snd s') = vp_cntrs (snd s) \<and> vp_ctrl_used_index (snd s') = vp_ctrl_used_index (snd s)"

definition settled :: "wait \<Rightarrow> cmd_st \<Rightarrow> cmd_st \<Rightarrow> bool" where
  "settled w s s' \<longleftrightarrow> vp_cntrs (snd s') = settle w (vp_cntrs (snd s)) \<and> rests_in w (c_state (fst s')) \<and>
     vp_ctrl_used_index (snd s') = vp_ctrl_used_index (snd s)"

definition handler_ok :: "virtq_cmd_sm_state set \<Rightarrow> virtq_cmd_sm_state \<Rightarrow> blk_env \<Rightarrow> cmd_st \<Rightarrow> bool \<times> cmd_st \<Rightarrow> bool" where
  "handler_ok S st env s r \<longleftrightarrow> (let (rep, s') = r in sm_frame env s s' \<and>
     (if rep then quiet s s' \<and> c_state (fst s') \<in> S
      else stop_wait st (fst s') \<in> {WDma, WBdev, WPool} \<and> settled (stop_wait st (fst s')) s s'))"

lemma handler_ok_wait:
  "stop_wait st (fst s') = w \<Longrightarrow> w \<in> {WDma, WBdev, WPool} \<Longrightarrow> sm_frame env s s' \<Longrightarrow> settled w s s' \<Longrightarrow>
     handler_ok S st env s (False, s')"
  by (auto simp: handler_ok_def)

lemma handler_ok_same: "c_fixed c' = c_fixed c \<Longrightarrow> c_state c' \<in> S \<Longrightarrow> handler_ok S st env (c, p) (True, c', p)"
  by (simp add: handler_ok_def sm_frame_def quiet_def run_refl)

lemmas ok_defs = handler_ok_def sm_frame_def quiet_def c_fixed_def settled_def

lemma add_cntrs [simp]:
  "vp_cntrs (add_to_host 1 p) = settle WDma (vp_cntrs p)" "vp_cntrs (add_in_bdev 1 p) = settle WBdev (vp_cntrs p)"
  "vp_cntrs (add_fatal p) = settle WFatal (vp_cntrs p)" "vp_cntrs (add_total (- 1) p) = settle WDone (vp_cntrs p)"
  by (simp_all add: add_to_host_def add_in_bdev_def add_fatal_def add_total_def)

lemma seg_dmem_frame: "blk_seg_dmem env (c, p) = (rc, c') \<Longrightarrow> c_state c' = c_state c \<and> c_fixed c' = c_fixed c"
  by (auto simp: blk_seg_dmem_def virtq_alloc_desc_buf_def c_fixed_def Let_def split: if_splits option.splits prod.splits)

lemma fetch_read_frame:
  assumes "fetch_read env a l (c, p) = (r, c', p')"
  shows "c_state c' = c_state c \<and> sm_frame env (c, p) (c', p') \<and> r \<noteq> VIRTQ_FETCH_DESC_DONE \<and>
    (if r = VIRTQ_FETCH_DESC_READ then vp_cntrs p' = settle WDma (vp_cntrs p) \<and> vp_ctrl_used_index p' = vp_ctrl_used_index p
     else quiet (c, p) (c', p'))"
proof -
  obtain rc c1 where c1: "blk_seg_dmem env (c, p) = (rc, c1)" by (metis surj_pair)
  let ?c = "c1\<lparr>c_comp_count := 1\<rparr>"
  obtain ret q where rd: "snap_dma_q_read (e_api env) (vp_dma_q p) (descs_addr ?c (c_num_desc ?c)) l
      (c_aux_lkey ?c) a (va_dma_mkey p) (Some (c_idx ?c)) = (ret, q)" by (metis surj_pair)
  from seg_dmem_frame [OF c1] dma_run_read [OF rd] assms c1 rd show ?thesis
    by (auto simp: fetch_read_def Let_def sm_frame_def quiet_def c_fixed_def run_refl split: if_splits)
qed

lemma fetch_next_frame:
  assumes "fetch_next_desc env (c, p) = (r, c', p')"
  shows "c_state c' = c_state c \<and> sm_frame env (c, p) (c', p') \<and>
    (if r = VIRTQ_FETCH_DESC_READ then vp_cntrs p' = settle WDma (vp_cntrs p) \<and> vp_ctrl_used_index p' = vp_ctrl_used_index p
     else quiet (c, p) (c', p'))"
proof -
  let ?d = "c_descs c (unat (c_num_desc c - 1))"
  let ?c = "c\<lparr>c_num_desc := c_num_desc c - 1, c_is_indirect := True, c_indirect_pos := ucast (c_num_desc c - 1),
    c_indirect_len := ucast (d_len ?d)\<rparr>"
  have s: ?thesis if "sort_indirect_table env (c, p) = (r, c', p')"
    using that by (auto simp: sort_indirect_table_def sm_frame_def quiet_def c_fixed_def run_refl Let_def
        split: option.splits prod.splits)
  have f: ?thesis if "fetch_read env a l (c, p) = (r, c', p')" for a l
    using fetch_read_frame [OF that] by auto
  have g: ?thesis if "fetch_read env a l (?c, p) = (r, c', p')" for a l
    using fetch_read_frame [OF that] by (auto simp: sm_frame_def quiet_def c_fixed_def)
  have d: ?thesis if "(VIRTQ_FETCH_DESC_DONE, c, p) = (r, c', p')"
    using that by (auto simp: sm_frame_refl quiet_def)
  consider "c_is_indirect c"
    | "\<not> c_is_indirect c" "c_num_desc c = 0"
    | "\<not> c_is_indirect c" "c_num_desc c \<noteq> 0" "has_flag ?d VRING_DESC_F_NEXT"
    | "\<not> c_is_indirect c" "c_num_desc c \<noteq> 0" "\<not> has_flag ?d VRING_DESC_F_NEXT" "has_flag ?d VRING_DESC_F_INDIRECT"
    | "\<not> c_is_indirect c" "c_num_desc c \<noteq> 0" "\<not> has_flag ?d VRING_DESC_F_NEXT" "\<not> has_flag ?d VRING_DESC_F_INDIRECT"
    by blast
  then show ?thesis
    using assms
    by cases (rule s f g d, simp only: fetch_next_desc_def Let_def prod.case if_True if_False simp_thms)+
qed

lemma proc_desc_frame:
  "c_fixed (blk_virtq_proc_desc (c, p)) = c_fixed c"
  "c_state (blk_virtq_proc_desc (c, p)) = VIRTQ_CMD_STATE_FATAL_ERR \<or> c_state (blk_virtq_proc_desc (c, p)) = c_state c"
  by (auto simp: blk_virtq_proc_desc_def c_fixed_def Let_def split: prod.splits)

lemma fetch_cmd_descs_ok:
  assumes "c_state c = VIRTQ_CMD_STATE_FETCH_CMD_DESCS"
  shows "handler_ok {VIRTQ_CMD_STATE_READ_HEADER, VIRTQ_CMD_STATE_FATAL_ERR} VIRTQ_CMD_STATE_FETCH_CMD_DESCS env (c, p)
    (virtq_sm_fetch_cmd_descs env status (c, p))"
proof (cases "status = VIRTQ_CMD_SM_OP_OK")
  case False
  then show ?thesis by (simp add: virtq_sm_fetch_cmd_descs_def ok_defs run_refl)
next
  case True
  obtain r c' p' where f: "fetch_next_desc env (c, p) = (r, c', p')" by (metis surj_pair)
  note fr = fetch_next_frame [OF f]
  let ?c = "blk_virtq_proc_desc (c', p')"
  show ?thesis
  proof (cases r)
    case VIRTQ_FETCH_DESC_READ
    with fr f True assms show ?thesis
      by (auto simp: virtq_sm_fetch_cmd_descs_def handler_ok_def settled_def)
  next
    case VIRTQ_FETCH_DESC_ERR
    with fr f True assms show ?thesis by (simp add: virtq_sm_fetch_cmd_descs_def ok_defs)
  next
    case VIRTQ_FETCH_DESC_DONE
    with fr f True assms proc_desc_frame [of c' p'] show ?thesis
      by (auto simp: virtq_sm_fetch_cmd_descs_def ok_defs Let_def)
  qed
qed

lemma read_header_ok:
  "handler_ok {VIRTQ_CMD_STATE_FATAL_ERR} VIRTQ_CMD_STATE_READ_HEADER env (c, p) (blk_virtq_sm_read_header env status (c, p))"
proof -
  obtain ret q where rd: "snap_dma_q_read (e_api env) (vp_dma_q p) (c_aux c) (ucast (d_len (c_descs c 0))) (c_aux_lkey c)
      (d_addr (c_descs c 0)) (va_dma_mkey p) (Some (c_idx c)) = (ret, q)" by (metis surj_pair)
  from dma_run_read [OF rd] rd show ?thesis
    by (auto simp: blk_virtq_sm_read_header_def ok_defs Let_def)
qed

lemma descs_to_iovec_frame: "virtq_descs_to_iovec c = (rc, c') \<Longrightarrow> c_fixed c' = c_fixed c"
  by (auto simp: virtq_descs_to_iovec_def c_fixed_def Let_def split: if_splits)

lemma zcopy_prepare_frame: "zcopy_prepare env (c, p) = (z, c') \<Longrightarrow> c_fixed c' = c_fixed c"
proof -
  assume z: "zcopy_prepare env (c, p) = (z, c')"
  obtain rc c1 where c1: "virtq_descs_to_iovec c = (rc, c1)" by (metis surj_pair)
  from descs_to_iovec_frame [OF c1] z c1 show ?thesis
    by (auto simp: zcopy_prepare_def Let_def c_fixed_def split: if_splits option.splits)
qed

lemma alloc_req_dbuf_frame:
  "virtq_alloc_req_dbuf env len c = (rc, c') \<Longrightarrow>
     c_fixed c' = c_fixed c \<and> (c_state c' = c_state c \<or> c_state c' = VIRTQ_CMD_STATE_WRITE_STATUS)"
  by (auto simp: virtq_alloc_req_dbuf_def c_fixed_def Let_def split: option.splits)

lemma parse_request_type_state:
  "parse_request_type c = (n, st) \<Longrightarrow> st \<in> {VIRTQ_CMD_STATE_READ_DATA, VIRTQ_CMD_STATE_HANDLE_REQ}"
  by (auto simp: parse_request_type_def Let_def split: if_splits)

lemma parse_header_ok:
  "handler_ok {VIRTQ_CMD_STATE_READ_DATA, VIRTQ_CMD_STATE_HANDLE_REQ, VIRTQ_CMD_STATE_WRITE_STATUS} VIRTQ_CMD_STATE_PARSE_HEADER
    env (c, p) (blk_virtq_sm_parse_header env status (c, p))"
proof -
  obtain z c1 where z: "zcopy_prepare env (c, p) = (z, c1)" by (metis surj_pair)
  let ?c = "c1\<lparr>c_zcopy := z\<rparr>"
  obtain n st where t: "parse_request_type ?c = (n, st)" by (metis surj_pair)
  let ?c' = "?c\<lparr>c_state := st\<rparr>"
  obtain rc c2 where a: "virtq_alloc_req_dbuf env (c_total_seg_len ?c') ?c' = (rc, c2)" by (metis surj_pair)
  note f = zcopy_prepare_frame [OF z] parse_request_type_state [OF t] alloc_req_dbuf_frame [OF a]
  have io: "c_fixed (blk_io_error c) = c_fixed c" "c_state (blk_io_error c) = VIRTQ_CMD_STATE_WRITE_STATUS" for c
    by (simp_all add: blk_io_error_def c_fixed_def)
  have fz: "c_fixed ?c = c_fixed c" "c_fixed ?c' = c_fixed c" "c_fixed c2 = c_fixed c"
    "c_fixed (?c\<lparr>c_state := VIRTQ_CMD_STATE_HANDLE_REQ\<rparr>) = c_fixed c"
    using f by (simp_all add: c_fixed_def)
  have st: "c_state ?c' \<in> {VIRTQ_CMD_STATE_READ_DATA, VIRTQ_CMD_STATE_HANDLE_REQ}"
    "c_state c2 \<in> {VIRTQ_CMD_STATE_READ_DATA, VIRTQ_CMD_STATE_HANDLE_REQ, VIRTQ_CMD_STATE_WRITE_STATUS}"
    using f by auto
  let ?S = "{VIRTQ_CMD_STATE_READ_DATA, VIRTQ_CMD_STATE_HANDLE_REQ, VIRTQ_CMD_STATE_WRITE_STATUS}"
  have wait: "handler_ok ?S VIRTQ_CMD_STATE_PARSE_HEADER env (c, p) (False, ?c', p)"
    using st(1) fz(2) by (auto intro!: handler_ok_wait [where w = WPool] simp: sm_frame_def settled_def run_refl)
  have b: "handler_ok ?S VIRTQ_CMD_STATE_PARSE_HEADER env (c, p) (True, blk_io_error c, p)" "handler_ok ?S VIRTQ_CMD_STATE_PARSE_HEADER env (c, p) (True, blk_io_error ?c', p)"
    "handler_ok ?S VIRTQ_CMD_STATE_PARSE_HEADER env (c, p) (True, ?c\<lparr>c_state := VIRTQ_CMD_STATE_HANDLE_REQ\<rparr>, p)" "handler_ok ?S VIRTQ_CMD_STATE_PARSE_HEADER env (c, p) (True, ?c', p)"
    "handler_ok ?S VIRTQ_CMD_STATE_PARSE_HEADER env (c, p) (True, c2, p)"
    using st by (intro handler_ok_same; auto simp: io fz)+
  show ?thesis
    unfolding blk_virtq_sm_parse_header_def Let_def prod.case z t a snd_conv
    by (simp only: b wait simp_thms if_True if_False split: if_split)
qed

lemma read_data_loop_frame:
  "read_data_loop env c off is p = (ret, p') \<Longrightarrow>
     vp_fixed p' = vp_fixed p \<and> dma_run (e_api env) (vp_dma_q p) (vp_dma_q p') \<and> vp_cntrs p' = vp_cntrs p \<and>
     vp_ctrl_used_index p' = vp_ctrl_used_index p"
proof (induction "is" arbitrary: off p)
  case Nil
  then show ?case by (simp add: run_refl)
next
  case (Cons i "is")
  let ?d = "c_descs c i"
  obtain r q where rd: "snap_dma_q_read (e_api env) (vp_dma_q p) (c_req_buf c + off) (ucast (d_len ?d)) (c_req_lkey c)
      (d_addr ?d) (va_dma_mkey p) (Some (c_idx c)) = (r, q)" by (metis surj_pair)
  show ?case
  proof (cases "has_flag ?d VRING_DESC_F_WRITE \<or> r \<noteq> 0")
    case True
    with Cons rd dma_run_read [OF rd] show ?thesis by (auto simp: Let_def split: if_splits)
  next
    case False
    with Cons.prems rd have "read_data_loop env c (off + ucast (d_len ?d)) is (p\<lparr>vp_dma_q := q\<rparr>) = (ret, p')"
      by (simp add: Let_def)
    from Cons.IH [OF this] dma_run_read [OF rd] show ?thesis by (auto intro: dma_run_trans)
  qed
qed

lemma read_data_ok:
  "handler_ok {VIRTQ_CMD_STATE_HANDLE_REQ, VIRTQ_CMD_STATE_FATAL_ERR} VIRTQ_CMD_STATE_READ_DATA env (c, p)
    (blk_virtq_sm_read_data env status (c, p))"
proof -
  let ?n = "length (filter (\<lambda>i. \<not> has_flag (c_descs c i) VRING_DESC_F_WRITE) (data_descs c))"
  let ?c = "c\<lparr>c_state := VIRTQ_CMD_STATE_HANDLE_REQ, c_comp_count := int ?n\<rparr>"
  obtain ret p' where l: "read_data_loop env ?c 0 (data_descs ?c) p = (ret, p')" by (metis surj_pair)
  from read_data_loop_frame [OF l] l show ?thesis
    by (auto simp: blk_virtq_sm_read_data_def ok_defs run_refl Let_def)
qed

lemma count_request_simps [simp]:
  "vp_fixed (count_request r (c, p)) = vp_fixed p" "vp_cntrs (count_request r (c, p)) = vp_cntrs p"
  "vp_ctrl_used_index (count_request r (c, p)) = vp_ctrl_used_index p" "vp_dma_q (count_request r (c, p)) = vp_dma_q p"
  by (simp_all add: count_request_def)

definition bdev_states :: "virtq_cmd_sm_state set" where
  "bdev_states = {VIRTQ_CMD_STATE_OUT_DATA_DONE, VIRTQ_CMD_STATE_IN_DATA_DONE, VIRTQ_CMD_STATE_WRITE_STATUS}"

lemma handle_get_id_frame:
  assumes "handle_get_id env (c, p) = (r, c', p')"
  shows "c_fixed c' = c_fixed c \<and> c_header c' = c_header c \<and> vp_fixed p' = vp_fixed p \<and>
    dma_run (e_api env) (vp_dma_q p) (vp_dma_q p') \<and> quiet (c, p) (c', p') \<and> c_state c' = VIRTQ_CMD_STATE_WRITE_STATUS"
proof -
  let ?ret = "if length (e_bdev_name env) < 2 ^ 31 then int (length (e_bdev_name env)) else - 1"
  let ?len = "min (of_int (?ret + 1)) (d_len (c_descs c 1))"
  obtain r1 q where w: "snap_dma_q_write (e_api env) (vp_dma_q p) (c_req_buf c) (ucast ?len) (c_req_lkey c)
      (d_addr (c_descs c 1)) (va_dma_mkey p) (Some (c_idx c)) = (r1, q)" by (metis surj_pair)
  have run: "dma_run (e_api env) (vp_dma_q p) (vp_dma_q (virtq_mark_dirty_mem env (d_addr (c_descs c 1)) ?len False (p\<lparr>vp_dma_q := q\<rparr>)))"
    by (rule dma_run_trans [OF dma_run_mark_dirty]) (simp add: dma_run_write [OF w])
  show ?thesis
  proof (cases "?ret < 0")
    case True
    with assms show ?thesis unfolding handle_get_id_def Let_def prod.case by (auto simp: quiet_def c_fixed_def run_refl)
  next
    case False
    then have nf: "\<not> ?ret < 0" by simp
    from assms have "(r, c', p') = (Some r1, c\<lparr>c_state := VIRTQ_CMD_STATE_WRITE_STATUS, c_comp_count := 1,
        c_total_in_len := c_total_in_len c + ?len\<rparr>,
        virtq_mark_dirty_mem env (d_addr (c_descs c 1)) ?len False (p\<lparr>vp_dma_q := q\<rparr>))"
      unfolding handle_get_id_def Let_def prod.case if_not_P [OF nf] using w by simp
    with run show ?thesis by (simp add: quiet_def c_fixed_def)
  qed
qed

lemma handle_switch_frame:
  assumes "handle_switch env (c, p) = (r, c', p')"
  shows "c_fixed c' = c_fixed c \<and> c_header c' = c_header c \<and> vp_fixed p' = vp_fixed p \<and>
    dma_run (e_api env) (vp_dma_q p) (vp_dma_q p') \<and> quiet (c, p) (c', p') \<and>
    (r = None \<longrightarrow> c_state c' = VIRTQ_CMD_STATE_WRITE_STATUS) \<and>
    (r = Some 0 \<longrightarrow> (if h_type (c_header c) = VIRTIO_BLK_T_GET_ID then c_state c' = VIRTQ_CMD_STATE_WRITE_STATUS
      else c_state c' \<in> bdev_states))"
proof (cases "h_type (c_header c) = VIRTIO_BLK_T_GET_ID")
  case True
  with assms have "handle_get_id env (c, p) = (r, c', p')" by (simp add: handle_switch_def)
  from handle_get_id_frame [OF this] True show ?thesis by simp
next
  case False
  with assms show ?thesis
    by (auto simp: handle_switch_def handle_out_def handle_in_def handle_flush_def bdev_states_def quiet_def c_fixed_def
        run_refl Let_def split: if_splits)
qed

lemma handle_req_ok:
  "handler_ok {VIRTQ_CMD_STATE_WRITE_STATUS} VIRTQ_CMD_STATE_HANDLE_REQ env (c, p) (blk_virtq_sm_handle_req env status (c, p))"
proof -
  let ?c = "c\<lparr>c_in_bdev_detach := False, c_io_cmd_stat := None\<rparr>"
  obtain r c' p' where sw: "handle_switch env (?c, p) = (r, c', p')" by (metis surj_pair)
  note f = handle_switch_frame [OF sw]
  have io: "c_fixed (blk_io_error c) = c_fixed c" "c_state (blk_io_error c) = VIRTQ_CMD_STATE_WRITE_STATUS" for c
    by (simp_all add: blk_io_error_def c_fixed_def)
  consider "status \<noteq> VIRTQ_CMD_SM_OP_OK \<or> vp_pending_bdev_detach p"
    | "status = VIRTQ_CMD_SM_OP_OK" "\<not> vp_pending_bdev_detach p" by blast
  then show ?thesis
  proof cases
    case 1
    then show ?thesis
      unfolding blk_virtq_sm_handle_req_def Let_def prod.case
      by (auto intro!: handler_ok_same simp: io) (simp add: c_fixed_def)
  next
    case 2
    show ?thesis
    proof (cases r)
      case None
      with 2 f show ?thesis unfolding blk_virtq_sm_handle_req_def Let_def prod.case sw by (auto simp: ok_defs)
    next
      case (Some ret)
      let ?p = "count_request ret (c', p')"
      have e: "blk_virtq_sm_handle_req env status (c, p) =
        (if ret \<noteq> 0 then (True, blk_io_error c', ?p)
         else if h_type (c_header c') = VIRTIO_BLK_T_GET_ID then (False, c', add_to_host 1 ?p)
         else (False, c', add_in_bdev 1 (?p\<lparr>vp_uncomp_bdev_cmds := vp_uncomp_bdev_cmds ?p + 1\<rparr>)))"
        using 2 Some unfolding blk_virtq_sm_handle_req_def Let_def prod.case sw by simp
      have fr: "sm_frame env (c, p) (c', ?p)" "quiet (c, p) (c', ?p)"
        using f by (simp_all add: sm_frame_def quiet_def c_fixed_def)
      consider "ret \<noteq> 0" | "ret = 0" "h_type (c_header c') = VIRTIO_BLK_T_GET_ID"
        | "ret = 0" "h_type (c_header c') \<noteq> VIRTIO_BLK_T_GET_ID" by blast
      then show ?thesis
      proof cases
        case 1
        with fr io [of c'] show ?thesis unfolding e by (simp add: handler_ok_def sm_frame_def quiet_def)
      next
        case 2
        with fr f Some show ?thesis
          unfolding e by (simp add: handler_ok_wait [where w = WDma] settled_def sm_frame_def quiet_def)
      next
        case 3
        with fr f Some show ?thesis
          unfolding e by (simp add: handler_ok_wait [where w = WBdev] settled_def sm_frame_def quiet_def bdev_states_def)
      qed
    qed
  qed
qed

lemma write_back_done_ok:
  "handler_ok {VIRTQ_CMD_STATE_WRITE_STATUS} VIRTQ_CMD_STATE_OUT_DATA_DONE env (c, p) (virtq_sm_write_back_done env status (c, p))"
  unfolding virtq_sm_write_back_done_def Let_def prod.case
  by (rule handler_ok_same) (simp_all add: c_fixed_def)

lemma write_data_loop_frame:
  "write_data_loop env off is (c, p) = (ret, c', p') \<Longrightarrow>
     c_fixed c' = c_fixed c \<and> c_state c' = c_state c \<and> vp_fixed p' = vp_fixed p \<and>
     dma_run (e_api env) (vp_dma_q p) (vp_dma_q p') \<and> quiet (c, p) (c', p')"
proof (induction "is" arbitrary: off c p)
  case Nil
  then show ?case by (simp add: run_refl quiet_def)
next
  case (Cons i "is")
  let ?d = "c_descs c i"
  obtain r q where w: "snap_dma_q_write (e_api env) (vp_dma_q p) (c_req_buf c + off) (ucast (d_len ?d)) (c_req_lkey c)
      (d_addr ?d) (va_dma_mkey p) (Some (c_idx c)) = (r, q)" by (metis surj_pair)
  let ?c = "c\<lparr>c_total_in_len := c_total_in_len c + d_len ?d\<rparr>"
  let ?p = "virtq_mark_dirty_mem env (d_addr ?d) (d_len ?d) False (p\<lparr>vp_dma_q := q\<rparr>)"
  have run: "dma_run (e_api env) (vp_dma_q p) (vp_dma_q ?p)"
    by (rule dma_run_trans [OF dma_run_mark_dirty]) (simp add: dma_run_write [OF w])
  show ?case
  proof (cases "r = 0")
    case False
    with Cons.prems w dma_run_write [OF w] show ?thesis by (auto simp: Let_def quiet_def)
  next
    case True
    with Cons.prems w have "write_data_loop env (off + ucast (d_len ?d)) is (?c, ?p) = (ret, c', p')"
      by (simp add: Let_def)
    from Cons.IH [OF this] run show ?thesis by (auto simp: quiet_def c_fixed_def intro: dma_run_trans)
  qed
qed

lemma in_iov_done_ok:
  "handler_ok {VIRTQ_CMD_STATE_WRITE_STATUS} VIRTQ_CMD_STATE_IN_DATA_DONE env (c, p)
    (blk_virtq_sm_handle_in_iov_done env status (c, p))"
proof -
  let ?c = "c\<lparr>c_comp_count := sint (ucast (c_num_desc c - 2) :: u32), c_state := VIRTQ_CMD_STATE_WRITE_STATUS\<rparr>"
  obtain ret c' p' where l: "write_data_loop env 0 (map Suc [0..<unat (c_num_desc ?c - 2)]) (?c, p) = (ret, c', p')"
    by (metis surj_pair)
  note f = write_data_loop_frame [OF l]
  show ?thesis
  proof (cases "status = VIRTQ_CMD_SM_OP_OK")
    case False
    then show ?thesis
      unfolding blk_virtq_sm_handle_in_iov_done_def Let_def prod.case
      by (simp add: handler_ok_same blk_io_error_def c_fixed_def)
  next
    case True
    then show ?thesis
      using f unfolding blk_virtq_sm_handle_in_iov_done_def Let_def prod.case l
      by (auto simp: ok_defs blk_io_error_def)
  qed
qed

lemma write_status_ok:
  "handler_ok {VIRTQ_CMD_STATE_SEND_COMP, VIRTQ_CMD_STATE_FATAL_ERR} VIRTQ_CMD_STATE_WRITE_STATUS env (c, p)
    (virtq_sm_write_status env status (c, p))"
proof -
  let ?a = "d_addr (c_descs c (status_desc c))"
  let ?c = "if status \<noteq> VIRTQ_CMD_SM_OP_OK then c\<lparr>c_status := VIRTIO_BLK_S_IOERR\<rparr> else c"
  obtain ret q where w: "snap_dma_q_write_short (e_api env) (vp_dma_q p) [c_status ?c] ?a (va_dma_mkey p) = (ret, q)"
    by (metis surj_pair)
  have c: "c_fixed ?c = c_fixed c" by (simp add: c_fixed_def)
  have r: "dma_run (e_api env) (vp_dma_q p) q" by (rule dma_run_write_short [OF _ w]) simp
  then have r2: "dma_run (e_api env) (vp_dma_q p) (vp_dma_q (virtq_mark_dirty_mem env ?a 1 False (p\<lparr>vp_dma_q := q\<rparr>)))"
    by (intro dma_run_trans [OF dma_run_mark_dirty]) simp
  obtain rr pp where s: "(case e_send_status env of Some f \<Rightarrow> (f (c_status ?c) ?a, p)
      | None \<Rightarrow> let (ret, q) = snap_dma_q_write_short (e_api env) (vp_dma_q p) [c_status ?c] ?a (va_dma_mkey p)
          in (ret, p\<lparr>vp_dma_q := q\<rparr>)) = (rr, pp)" by (metis surj_pair)
  then have pp: "pp = p \<or> pp = p\<lparr>vp_dma_q := q\<rparr>" using w by (auto split: option.splits)
  show ?thesis
    unfolding virtq_sm_write_status_def Let_def prod.case
    using pp c r r2 dma_run_mark_dirty [of env p] s [unfolded Let_def]
    by (auto simp: ok_defs run_refl)
qed

lemma length_comp_bytes: "length (comp_bytes c) = 8" "length (le16 w) = 2"
  by (simp_all add: comp_bytes_def le16_def le32_def htobe32_def)

lemma send_comp_frame:
  assumes "send_comp env (c, p) = (ret, p')"
  shows "vp_fixed p' = vp_fixed p \<and> dma_run (e_api env) (vp_dma_q p) (vp_dma_q p') \<and> quiet (c, p) (c, p')"
proof (cases "e_send_comp env")
  case TunnelComp
  then obtain q where "snap_dma_q_send_completion (e_api env) (vp_dma_q p) (comp_bytes c) = (ret, q)" "p' = p\<lparr>vp_dma_q := q\<rparr>"
    using assms by (auto simp: send_comp_def virtq_tunnel_send_comp_def split: prod.splits)
  moreover from dma_run_send_completion [OF _ this(1)] have "dma_run (e_api env) (vp_dma_q p) q"
    by (simp add: length_comp_bytes)
  ultimately show ?thesis by (simp add: quiet_def)
next
  case DpaComp
  with assms show ?thesis by (simp add: send_comp_def virtq_dpa_send_comp_def run_refl quiet_def)
next
  case SwComp
  let ?a = "va_device p + 4 + 8 * ucast (vp_hw_used_index p mod va_size p)"
  obtain r1 q1 where w1: "snap_dma_q_write_short (e_api env) (vp_dma_q p) (comp_bytes c) ?a (va_dma_mkey p) = (r1, q1)"
    by (metis surj_pair)
  let ?p = "p\<lparr>vp_dma_q := q1, vp_hw_used_index := vp_hw_used_index p + 1\<rparr>"
  obtain r2 q2 where w2: "snap_dma_q_write_short (e_api env) q1 (le16 (vp_hw_used_index p + 1)) (va_device p + 2)
      (va_dma_mkey p) = (r2, q2)" by (metis surj_pair)
  have r: "dma_run (e_api env) (vp_dma_q p) q1" "dma_run (e_api env) q1 q2"
    by (rule dma_run_write_short [OF _ w1] dma_run_write_short [OF _ w2]; simp add: length_comp_bytes)+
  have "p' = (if r1 \<noteq> 0 then p\<lparr>vp_dma_q := q1\<rparr> else ?p\<lparr>vp_dma_q := q2\<rparr>)"
    using SwComp assms w1 w2 by (simp add: send_comp_def virtq_sw_send_comp_def Let_def split: if_splits)
  with r(1) dma_run_trans [OF r(2,1)] show ?thesis by (simp add: quiet_def split: if_splits)
qed

text \<open>The completion handler is the only one that moves the used index.\<close>

lemma send_completion_frame:
  assumes "virtq_sm_send_completion env status (c, p) = (rep, c', p')"
  shows "sm_frame env (c, p) (c', p') \<and> vp_cntrs p' = vp_cntrs p \<and>
    (rep \<and> c_state c' = VIRTQ_CMD_STATE_FATAL_ERR \<and> vp_ctrl_used_index p' = vp_ctrl_used_index p \<or>
     rep \<and> c_state c' = VIRTQ_CMD_STATE_RELEASE \<and> status = VIRTQ_CMD_SM_OP_OK \<and>
       vp_ctrl_used_index p' = vp_ctrl_used_index p + 1 \<and>
       (vp_force_in_order p \<longrightarrow> c_cmd_available_index c = vp_ctrl_used_index p) \<or>
     \<not> rep \<and> c_state c' = VIRTQ_CMD_STATE_SEND_IN_ORDER_COMP \<and> vp_ctrl_used_index p' = vp_ctrl_used_index p \<and>
       vp_force_in_order p \<and> c_cmd_available_index c \<noteq> vp_ctrl_used_index p)"
proof -
  let ?u = "c_cmd_available_index c \<noteq> vp_ctrl_used_index p"
  let ?p = "if ?u then upd_stat (c_io_cmd_stat c) (\<lambda>k. k\<lparr>ct_unordered := ct_unordered k + 1\<rparr>) p else p"
  obtain ret p1 where s: "send_comp env (c, ?p) = (ret, p1)" by (cases "send_comp env (c, ?p)")
  have pf: "vp_fixed ?p = vp_fixed p" "vp_dma_q ?p = vp_dma_q p" "vp_cntrs ?p = vp_cntrs p"
    "vp_ctrl_used_index ?p = vp_ctrl_used_index p" "vp_force_in_order ?p = vp_force_in_order p" by simp_all
  note f = send_comp_frame [OF s, unfolded pf]
  have r2: "dma_run (e_api env) (vp_dma_q p) (vp_dma_q (virtq_mark_dirty_mem env 0 0 True p1))"
    using f by (intro dma_run_trans [OF dma_run_mark_dirty]) simp
  consider "status \<noteq> VIRTQ_CMD_SM_OP_OK" | "status = VIRTQ_CMD_SM_OP_OK" "vp_force_in_order p \<and> ?u"
    | "status = VIRTQ_CMD_SM_OP_OK" "\<not> (vp_force_in_order p \<and> ?u)" by blast
  then show ?thesis
  proof cases
    case 1
    with assms have "(rep, c', p') = (True, c\<lparr>c_state := VIRTQ_CMD_STATE_FATAL_ERR\<rparr>, p)"
      by (simp add: virtq_sm_send_completion_def)
    then show ?thesis by (simp add: sm_frame_def c_fixed_def run_refl)
  next
    case 2
    then have c: "vp_force_in_order ?p \<and> ?u" unfolding pf by simp
    have "(rep, c', p') = (False, c\<lparr>c_state := VIRTQ_CMD_STATE_SEND_IN_ORDER_COMP\<rparr>, ?p)"
      using assms 2(1) unfolding virtq_sm_send_completion_def Let_def prod.case if_P [OF c] by simp
    with 2 pf show ?thesis by (simp add: sm_frame_def c_fixed_def run_refl)
  next
    case 3
    let ?p2 = "virtq_mark_dirty_mem env 0 0 True p1"
    have "(rep, c', p') = (if ret \<noteq> 0 then (True, c\<lparr>c_state := VIRTQ_CMD_STATE_FATAL_ERR\<rparr>, p1)
        else (True, c\<lparr>c_state := VIRTQ_CMD_STATE_RELEASE\<rparr>, ?p2\<lparr>vp_ctrl_used_index := vp_ctrl_used_index ?p2 + 1\<rparr>))"
      using assms 3(1) unfolding virtq_sm_send_completion_def Let_def prod.case pf if_not_P [OF 3(2)] s by simp
    with f r2 3 show ?thesis
      by (cases "ret = 0") (simp_all add: sm_frame_def c_fixed_def quiet_def)
  qed
qed

lemma rel_req_desc_frame:
  assumes "virtq_rel_req_desc env (c, p) = (rep, c')"
  shows "c_fixed c' = c_fixed c \<and> c_state c' = (if rep then VIRTQ_CMD_STATE_FATAL_ERR else c_state c)"
proof -
  obtain rc c1 where a: "alloc_aux env (vp_seg_max p) c = (rc, c1)" by (cases "alloc_aux env (vp_seg_max p) c")
  then have "c_fixed c1 = c_fixed c \<and> c_state c1 = c_state c"
    by (auto simp: alloc_aux_def c_fixed_def Let_def split: option.splits)
  with a assms show ?thesis
    by (auto simp: virtq_rel_req_desc_def c_fixed_def split: if_splits)
qed

lemma common_release_frame:
  assumes "virtq_common_release env (c, p) = (rep, c')"
  shows "c_fixed c' = c_fixed c \<and> c_state c' = (if rep then VIRTQ_CMD_STATE_FATAL_ERR else c_state c)"
proof -
  let ?c = "if c_use_dmem c then virtq_rel_req_dbuf c else c"
  have c: "c_fixed ?c = c_fixed c" "c_state ?c = c_state c" by (simp_all add: virtq_rel_req_dbuf_def c_fixed_def)
  show ?thesis
  proof (cases "c_use_seg_dmem ?c")
    case True
    with assms have "virtq_rel_req_desc env (?c, p) = (rep, c')"
      unfolding virtq_common_release_def Let_def prod.case by simp
    from rel_req_desc_frame [OF this] c show ?thesis by simp
  next
    case False
    with assms c show ?thesis unfolding virtq_common_release_def Let_def prod.case by auto
  qed
qed

lemma release_frame:
  assumes "blk_virtq_sm_release env status (c, p) = (rep, c', p')" and "c_state c = VIRTQ_CMD_STATE_RELEASE"
  shows "sm_frame env (c, p) (c', p') \<and> vp_cntrs p' = settle WDone (vp_cntrs p) \<and> vp_ctrl_used_index p' = vp_ctrl_used_index p \<and>
    vp_dma_q p' = vp_dma_q p \<and>
    c_state c' = (if rep then VIRTQ_CMD_STATE_FATAL_ERR else VIRTQ_CMD_STATE_RELEASE)"
proof -
  define p1 where "p1 = (if \<not> c_in_bdev_detach c \<and> h_type (c_header c) \<noteq> VIRTIO_BLK_T_GET_ID \<and> vp_uncomp_bdev_cmds p > 0
      then p\<lparr>vp_uncomp_bdev_cmds := vp_uncomp_bdev_cmds p - 1\<rparr> else p)"
  have p1: "vp_fixed p1 = vp_fixed p" "vp_dma_q p1 = vp_dma_q p" "vp_cntrs p1 = vp_cntrs p"
    "vp_ctrl_used_index p1 = vp_ctrl_used_index p" by (simp_all add: p1_def)
  obtain r c1 where r: "virtq_common_release env (c, p1) = (r, c1)" by (cases "virtq_common_release env (c, p1)")
  have "(rep, c', p') = (r, c1, add_total (- 1) p1)"
    using assms(1) r by (simp add: blk_virtq_sm_release_def virtq_sm_release_def p1_def [symmetric] Let_def)
  with common_release_frame [OF r] p1 assms(2) show ?thesis by (simp add: sm_frame_def run_refl)
qed

lemma fatal_error_frame:
  assumes "virtq_sm_fatal_error env status (c, p) = (rep, c', p')" and "c_state c = VIRTQ_CMD_STATE_FATAL_ERR"
  shows "\<not> rep \<and> sm_frame env (c, p) (c', p') \<and> settled WFatal (c, p) (c', p') \<and> vp_fatal_err p' \<and>
    vp_dma_q p' = vp_dma_q p"
proof -
  obtain r c1 where r: "virtq_common_release env (c, p) = (r, c1)" by (cases "virtq_common_release env (c, p)")
  with assms(1) have "(rep, c', p') = (False, c1, add_fatal (p\<lparr>vp_fatal_err := True\<rparr>))"
    by (simp add: virtq_sm_fatal_error_def)
  moreover have "vp_fatal_err (add_fatal (p\<lparr>vp_fatal_err := True\<rparr>))" by (simp add: add_fatal_def)
  ultimately show ?thesis
    using common_release_frame [OF r] assms(2) by (simp add: sm_frame_def settled_def run_refl)
qed

section \<open>Running the state machine\<close>

text \<open>What the handlers up to the status write may move to.\<close>

fun moves_to :: "virtq_cmd_sm_state \<Rightarrow> virtq_cmd_sm_state set" where
  "moves_to VIRTQ_CMD_STATE_FETCH_CMD_DESCS = {VIRTQ_CMD_STATE_READ_HEADER, VIRTQ_CMD_STATE_FATAL_ERR}"
| "moves_to VIRTQ_CMD_STATE_READ_HEADER = {VIRTQ_CMD_STATE_FATAL_ERR}"
| "moves_to VIRTQ_CMD_STATE_PARSE_HEADER =
     {VIRTQ_CMD_STATE_READ_DATA, VIRTQ_CMD_STATE_HANDLE_REQ, VIRTQ_CMD_STATE_WRITE_STATUS}"
| "moves_to VIRTQ_CMD_STATE_READ_DATA = {VIRTQ_CMD_STATE_HANDLE_REQ, VIRTQ_CMD_STATE_FATAL_ERR}"
| "moves_to VIRTQ_CMD_STATE_HANDLE_REQ = {VIRTQ_CMD_STATE_WRITE_STATUS}"
| "moves_to VIRTQ_CMD_STATE_OUT_DATA_DONE = {VIRTQ_CMD_STATE_WRITE_STATUS}"
| "moves_to VIRTQ_CMD_STATE_IN_DATA_DONE = {VIRTQ_CMD_STATE_WRITE_STATUS}"
| "moves_to VIRTQ_CMD_STATE_WRITE_STATUS = {VIRTQ_CMD_STATE_SEND_COMP, VIRTQ_CMD_STATE_FATAL_ERR}"
| "moves_to _ = {}"

lemma blk_sm_ok:
  assumes "1 \<le> state_num (c_state c)" and "state_num (c_state c) \<le> 8"
  shows "handler_ok (moves_to (c_state c)) (c_state c) env (c, p) (blk_sm env (c_state c) status (c, p))"
  using assms fetch_cmd_descs_ok [of c env p status]
  by (cases "c_state c")
     (simp_all add: read_header_ok parse_header_ok read_data_ok handle_req_ok write_back_done_ok in_iov_done_ok write_status_ok)

lemma blk_sm_advances:
  assumes "blk_sm env (c_state c) status (c, p) = (True, c', p')"
  shows "state_num (c_state c) < state_num (c_state c')"
proof -
  have m: "state_num st < state_num st'" if "st' \<in> moves_to st" for st st'
    using that by (cases st) auto
  consider "c_state c = VIRTQ_CMD_STATE_IDLE" | "1 \<le> state_num (c_state c)" "state_num (c_state c) \<le> 8"
    | "c_state c = VIRTQ_CMD_STATE_SEND_COMP \<or> c_state c = VIRTQ_CMD_STATE_SEND_IN_ORDER_COMP"
    | "c_state c = VIRTQ_CMD_STATE_RELEASE" | "c_state c = VIRTQ_CMD_STATE_FATAL_ERR"
    by (cases "c_state c") auto
  then show ?thesis
  proof cases
    case 1
    with assms show ?thesis by simp
  next
    case 2
    from blk_sm_ok [OF 2, of env p status] assms m show ?thesis by (simp add: handler_ok_def)
  next
    case 3
    with assms have "virtq_sm_send_completion env status (c, p) = (True, c', p')" by auto
    from send_completion_frame [OF this] 3 show ?thesis by auto
  next
    case 4
    with assms release_frame [of env status c p True c' p'] show ?thesis by simp
  next
    case 5
    with assms fatal_error_frame [of env status c p True c' p'] show ?thesis by simp
  qed
qed

function virtq_cmd_progress :: "blk_env \<Rightarrow> virtq_cmd_sm_op_status \<Rightarrow> cmd_st \<Rightarrow> cmd_st" where
  "virtq_cmd_progress env status s =
     (let (rep, s') = blk_sm env (c_state (fst s)) status s
      in if rep then virtq_cmd_progress env status s' else s')"
  by pat_completeness auto

termination
proof (relation "measure (\<lambda>(env, status, s). 12 - state_num (c_state (fst s)))", simp)
  fix env status s x rep s'
  assume "x = blk_sm env (c_state (fst s)) status s" "(rep, s') = x" rep
  then have "blk_sm env (c_state (fst s)) status (fst s, snd s) = (True, fst s', snd s')" by simp
  from blk_sm_advances [OF this] have "state_num (c_state (fst s)) < state_num (c_state (fst s'))" .
  moreover have "state_num (c_state (fst s')) \<le> 12" by (cases "c_state (fst s')") auto
  ultimately show "((env, status, s'), env, status, s) \<in> measure (\<lambda>(env, status, s). 12 - state_num (c_state (fst s)))"
    by simp
qed

declare virtq_cmd_progress.simps [simp del]

lemma progress_stop: "blk_sm env (c_state (fst s)) status s = (False, s') \<Longrightarrow> virtq_cmd_progress env status s = s'"
  by (subst virtq_cmd_progress.simps) simp

lemma progress_repeat:
  "blk_sm env (c_state (fst s)) status s = (True, s') \<Longrightarrow> virtq_cmd_progress env status s = virtq_cmd_progress env status s'"
  by (subst virtq_cmd_progress.simps) simp

text \<open>
  The handlers of an activation, in the order of their calls; what the command is left waiting for, by
  the last one; and whether the command was completed, which is when the release handler is called.
\<close>

function cmd_trace :: "blk_env \<Rightarrow> virtq_cmd_sm_op_status \<Rightarrow> cmd_st \<Rightarrow> virtq_cmd_sm_state list" where
  "cmd_trace env status s =
     c_state (fst s) # (let (rep, s') = blk_sm env (c_state (fst s)) status s in if rep then cmd_trace env status s' else [])"
  by pat_completeness auto

termination
proof (relation "measure (\<lambda>(env, status, s). 12 - state_num (c_state (fst s)))", simp)
  fix env status s x rep s'
  assume "x = blk_sm env (c_state (fst s)) status s" "(rep, s') = x" rep
  then have "blk_sm env (c_state (fst s)) status (fst s, snd s) = (True, fst s', snd s')" by simp
  from blk_sm_advances [OF this] have "state_num (c_state (fst s)) < state_num (c_state (fst s'))" .
  moreover have "state_num (c_state (fst s')) \<le> 12" by (cases "c_state (fst s')") auto
  ultimately show "((env, status, s'), env, status, s) \<in> measure (\<lambda>(env, status, s). 12 - state_num (c_state (fst s)))"
    by simp
qed

declare cmd_trace.simps [simp del]

definition completes :: "blk_env \<Rightarrow> virtq_cmd_sm_op_status \<Rightarrow> cmd_st \<Rightarrow> bool" where
  "completes env status s \<longleftrightarrow> VIRTQ_CMD_STATE_RELEASE \<in> set (cmd_trace env status s)"

definition left_waiting :: "blk_env \<Rightarrow> virtq_cmd_sm_op_status \<Rightarrow> cmd_st \<Rightarrow> wait" where
  "left_waiting env status s =
     (let w = stop_wait (last (cmd_trace env status s)) (fst (virtq_cmd_progress env status s))
      in if w = WFatal \<and> completes env status s then WFatalDone else w)"

lemma trace_nonempty: "cmd_trace env status s \<noteq> []"
  by (subst cmd_trace.simps) simp

lemma trace_stop:
  assumes "blk_sm env (c_state (fst s)) status s = (False, s')"
  shows "completes env status s \<longleftrightarrow> c_state (fst s) = VIRTQ_CMD_STATE_RELEASE"
    and "left_waiting env status s = stop_wait (c_state (fst s)) (fst s')"
proof -
  have t: "cmd_trace env status s = [c_state (fst s)]" by (subst cmd_trace.simps) (simp add: assms)
  then show c: "completes env status s \<longleftrightarrow> c_state (fst s) = VIRTQ_CMD_STATE_RELEASE" by (auto simp: completes_def)
  show "left_waiting env status s = stop_wait (c_state (fst s)) (fst s')"
    using t c by (auto simp: left_waiting_def progress_stop [OF assms] Let_def)
qed

lemma trace_repeat:
  assumes "blk_sm env (c_state (fst s)) status s = (True, s')"
  shows "completes env status s \<longleftrightarrow> c_state (fst s) = VIRTQ_CMD_STATE_RELEASE \<or> completes env status s'"
    and "c_state (fst s) \<noteq> VIRTQ_CMD_STATE_RELEASE \<Longrightarrow> left_waiting env status s = left_waiting env status s'"
proof -
  have t: "cmd_trace env status s = c_state (fst s) # cmd_trace env status s'" by (subst cmd_trace.simps) (simp add: assms)
  then show c: "completes env status s \<longleftrightarrow> c_state (fst s) = VIRTQ_CMD_STATE_RELEASE \<or> completes env status s'"
    by (auto simp: completes_def)
  show "c_state (fst s) \<noteq> VIRTQ_CMD_STATE_RELEASE \<Longrightarrow> left_waiting env status s = left_waiting env status s'"
    using t c by (simp add: left_waiting_def progress_repeat [OF assms] trace_nonempty)
qed

text \<open>The outcome of an activation.\<close>

definition finishes :: "wait \<Rightarrow> bool" where
  "finishes w \<longleftrightarrow> w = WDone \<or> w = WFatalDone"

definition outcome :: "blk_env \<Rightarrow> wait \<Rightarrow> cmd_st \<Rightarrow> cmd_st \<Rightarrow> bool" where
  "outcome env w s s' \<longleftrightarrow> sm_frame env s s' \<and> rests_in w (c_state (fst s')) \<and>
     vp_cntrs (snd s') = settle w (vp_cntrs (snd s)) \<and>
     vp_ctrl_used_index (snd s') = vp_ctrl_used_index (snd s) + (if finishes w then 1 else 0) \<and>
     (finishes w \<and> vp_force_in_order (snd s) \<longrightarrow> c_cmd_available_index (fst s) = vp_ctrl_used_index (snd s)) \<and>
     (w = WOrder \<longrightarrow> vp_force_in_order (snd s) \<and> c_cmd_available_index (fst s) \<noteq> vp_ctrl_used_index (snd s))"

text \<open>A run of the state machine has the outcome that its last handler stands for.\<close>

definition runs_to :: "blk_env \<Rightarrow> virtq_cmd_sm_op_status \<Rightarrow> cmd_st \<Rightarrow> wait \<Rightarrow> bool" where
  "runs_to env status s w \<longleftrightarrow> outcome env w s (virtq_cmd_progress env status s) \<and>
     left_waiting env status s = w \<and> (completes env status s \<longleftrightarrow> finishes w)"

lemma vp_fixed_force: "vp_fixed p' = vp_fixed p \<Longrightarrow> vp_force_in_order p' = vp_force_in_order p"
  by (simp add: vp_fixed_def)

lemma c_fixed_avail: "c_fixed c' = c_fixed c \<Longrightarrow> c_cmd_available_index c' = c_cmd_available_index c"
  by (simp add: c_fixed_def)

text \<open>An outcome is not changed by what a quiet handler did before.\<close>

lemma outcome_quiet:
  assumes "outcome env w s1 s2" and "sm_frame env s s1" and "quiet s s1"
  shows "outcome env w s s2"
  using assms vp_fixed_force [of "snd s1" "snd s"] c_fixed_avail [of "fst s1" "fst s"] sm_frame_trans [of env s1 s2 s]
  by (simp add: outcome_def quiet_def sm_frame_def)

lemma runs_to_repeat:
  assumes "blk_sm env (c_state (fst s)) status s = (True, s')" and "c_state (fst s) \<noteq> VIRTQ_CMD_STATE_RELEASE"
    and "sm_frame env s s'" and "quiet s s'" and "runs_to env status s' w"
  shows "runs_to env status s w"
  using assms outcome_quiet [of env w s' "virtq_cmd_progress env status s'" s] trace_repeat [OF assms(1)]
  by (simp add: runs_to_def progress_repeat [OF assms(1)])

lemma progress_fatal:
  assumes "c_state c = VIRTQ_CMD_STATE_FATAL_ERR"
  shows "runs_to env status (c, p) WFatal"
    and "vp_dma_q (snd (virtq_cmd_progress env status (c, p))) = vp_dma_q p"
    and "vp_hw_used_index (snd (virtq_cmd_progress env status (c, p))) = vp_hw_used_index p"
proof -
  obtain rep c' p' where e: "virtq_sm_fatal_error env status (c, p) = (rep, c', p')"
    by (cases "virtq_sm_fatal_error env status (c, p)") auto
  note f = fatal_error_frame [OF e assms]
  have sm: "blk_sm env (c_state (fst (c, p))) status (c, p) = (False, c', p')" using e assms f by simp
  note pr = progress_stop [OF sm]
  have h: "vp_hw_used_index p' = vp_hw_used_index p"
    using e by (auto simp: virtq_sm_fatal_error_def add_fatal_def split: prod.splits)
  show "runs_to env status (c, p) WFatal" "vp_dma_q (snd (virtq_cmd_progress env status (c, p))) = vp_dma_q p"
    "vp_hw_used_index (snd (virtq_cmd_progress env status (c, p))) = vp_hw_used_index p"
    using f assms trace_stop [OF sm] h unfolding runs_to_def pr
    by (simp_all add: outcome_def finishes_def settled_def)
qed

lemma progress_release:
  assumes "c_state c = VIRTQ_CMD_STATE_RELEASE"
  shows "\<exists>w s'. finishes w \<and> virtq_cmd_progress env status (c, p) = s' \<and> sm_frame env (c, p) s' \<and>
    rests_in w (c_state (fst s')) \<and> vp_cntrs (snd s') = settle w (vp_cntrs p) \<and>
    vp_ctrl_used_index (snd s') = vp_ctrl_used_index p \<and> vp_dma_q (snd s') = vp_dma_q p \<and>
    left_waiting env status (c, p) = w \<and> completes env status (c, p)"
proof -
  obtain rep c' p' where e: "blk_virtq_sm_release env status (c, p) = (rep, c', p')"
    by (cases "blk_virtq_sm_release env status (c, p)") auto
  note f = release_frame [OF e assms]
  show ?thesis
  proof (cases rep)
    case False
    with e assms have sm: "blk_sm env (c_state (fst (c, p))) status (c, p) = (False, c', p')" by simp
    from f False assms trace_stop [OF sm] progress_stop [OF sm] show ?thesis
      by (intro exI [of _ WDone] exI [of _ "(c', p')"]) (simp add: finishes_def)
  next
    case True
    with e assms have sm: "blk_sm env (c_state (fst (c, p))) status (c, p) = (True, c', p')" by simp
    note pr = progress_repeat [OF sm]
    from f True have c': "c_state c' = VIRTQ_CMD_STATE_FATAL_ERR" by simp
    note fa = progress_fatal [OF c', of env status p', unfolded runs_to_def]
    have t: "cmd_trace env status (c, p) = VIRTQ_CMD_STATE_RELEASE # cmd_trace env status (c', p')"
      using sm assms by (subst cmd_trace.simps) simp
    then have cm: "completes env status (c, p)" by (simp add: completes_def)
    moreover have "left_waiting env status (c, p) = WFatalDone"
      using fa(1) t cm by (auto simp: left_waiting_def pr trace_nonempty finishes_def Let_def split: if_splits)
    ultimately show ?thesis using f fa unfolding pr
      by (intro exI [of _ WFatalDone] exI [of _ "virtq_cmd_progress env status (c', p')"])
         (auto simp: outcome_def finishes_def intro: sm_frame_trans)
  qed
qed

lemma progress_completion:
  assumes "c_state c = VIRTQ_CMD_STATE_SEND_COMP \<or> c_state c = VIRTQ_CMD_STATE_SEND_IN_ORDER_COMP"
  shows "\<exists>w. runs_to env status (c, p) w"
proof -
  obtain rep c' p' where e: "virtq_sm_send_completion env status (c, p) = (rep, c', p')"
    by (cases "virtq_sm_send_completion env status (c, p)") auto
  have sm: "blk_sm env (c_state (fst (c, p))) status (c, p) = (rep, c', p')" using assms e by auto
  note f = send_completion_frame [OF e]
  from f consider (fatal) "rep" "c_state c' = VIRTQ_CMD_STATE_FATAL_ERR" "vp_ctrl_used_index p' = vp_ctrl_used_index p"
    | (fin) "rep" "c_state c' = VIRTQ_CMD_STATE_RELEASE" "status = VIRTQ_CMD_SM_OP_OK"
      "vp_ctrl_used_index p' = vp_ctrl_used_index p + 1"
      "vp_force_in_order p \<longrightarrow> c_cmd_available_index c = vp_ctrl_used_index p"
    | (wait) "\<not> rep" "c_state c' = VIRTQ_CMD_STATE_SEND_IN_ORDER_COMP" "vp_ctrl_used_index p' = vp_ctrl_used_index p"
      "vp_force_in_order p" "c_cmd_available_index c \<noteq> vp_ctrl_used_index p" by blast
  then show ?thesis
  proof cases
    case fatal
    with sm have sm': "blk_sm env (c_state (fst (c, p))) status (c, p) = (True, c', p')" by simp
    from runs_to_repeat [OF sm' _ _ _ progress_fatal(1)] f fatal assms show ?thesis by (auto simp: quiet_def)
  next
    case fin
    with sm have sm': "blk_sm env (c_state (fst (c, p))) status (c, p) = (True, c', p')" by simp
    from progress_release [OF fin(2), of env status p'] obtain w s' where
      w: "finishes w" "virtq_cmd_progress env status (c', p') = s'" "sm_frame env (c', p') s'" "rests_in w (c_state (fst s'))"
      "vp_cntrs (snd s') = settle w (vp_cntrs p')" "vp_ctrl_used_index (snd s') = vp_ctrl_used_index p'"
      "left_waiting env status (c', p') = w" "completes env status (c', p')" by blast
    have "outcome env w (c, p) s'"
      using w f fin sm_frame_trans [OF w(3), of "(c, p)"] by (auto simp: outcome_def finishes_def)
    then have "runs_to env status (c, p) w"
      using w assms trace_repeat [OF sm'] by (auto simp: runs_to_def progress_repeat [OF sm'])
    then show ?thesis ..
  next
    case wait
    with sm have sm': "blk_sm env (c_state (fst (c, p))) status (c, p) = (False, c', p')" by simp
    have "runs_to env status (c, p) WOrder"
      using wait f assms trace_stop [OF sm'] by (auto simp: runs_to_def progress_stop [OF sm'] outcome_def finishes_def)
    then show ?thesis ..
  qed
qed

lemma progress_runs:
  assumes "1 \<le> state_num (c_state c)" and "state_num (c_state c) \<le> 10"
  shows "\<exists>w. runs_to env status (c, p) w"
  using assms
proof (induction "12 - state_num (c_state c)" arbitrary: c p rule: less_induct)
  case less
  show ?case
  proof (cases "state_num (c_state c) \<le> 8")
    case False
    with less.prems(2) have "c_state c = VIRTQ_CMD_STATE_SEND_COMP \<or> c_state c = VIRTQ_CMD_STATE_SEND_IN_ORDER_COMP"
      by (cases "c_state c") auto
    from progress_completion [OF this] show ?thesis .
  next
    case True
    then have nr: "c_state c \<noteq> VIRTQ_CMD_STATE_RELEASE" by auto
    obtain rep c' p' where e: "blk_sm env (c_state (fst (c, p))) status (c, p) = (rep, c', p')"
      by (cases "blk_sm env (c_state (fst (c, p))) status (c, p)") auto
    from blk_sm_ok [OF less.prems(1) True, of env p status] e
    have ok: "handler_ok (moves_to (c_state c)) (c_state c) env (c, p) (rep, c', p')" by simp
    show ?thesis
    proof (cases rep)
      case False
      with e have sm: "blk_sm env (c_state (fst (c, p))) status (c, p) = (False, c', p')" by simp
      have "runs_to env status (c, p) (stop_wait (c_state c) c')"
        using ok False nr trace_stop [OF sm]
        by (auto simp: runs_to_def progress_stop [OF sm] handler_ok_def outcome_def settled_def finishes_def)
      then show ?thesis ..
    next
      case rep: True
      with e have sm: "blk_sm env (c_state (fst (c, p))) status (c, p) = (True, c', p')" by simp
      from ok rep have f: "sm_frame env (c, p) (c', p')" "quiet (c, p) (c', p')" "c_state c' \<in> moves_to (c_state c)"
        by (auto simp: handler_ok_def)
      have "\<exists>w. runs_to env status (c', p') w"
      proof (cases "c_state c' = VIRTQ_CMD_STATE_FATAL_ERR")
        case True
        with progress_fatal show ?thesis by blast
      next
        case False
        have "state_num (c_state c') \<le> 10" "1 \<le> state_num (c_state c')"
          using f(3) False by (cases "c_state c"; auto)+
        moreover have "state_num (c_state c) < state_num (c_state c')" using sm blk_sm_advances [of env c status p c' p'] by simp
        ultimately show ?thesis using less.hyps [of c' p'] less.prems(2) by auto
      qed
      with runs_to_repeat [OF sm _ f(1,2)] nr show ?thesis by auto
    qed
  qed
qed

lemma progress_outcome:
  assumes "1 \<le> state_num (c_state c)" and "state_num (c_state c) \<le> 10"
  shows "outcome env (left_waiting env status (c, p)) (c, p) (virtq_cmd_progress env status (c, p))"
    and "completes env status (c, p) \<longleftrightarrow> finishes (left_waiting env status (c, p))"
  using progress_runs [OF assms, of env status p] by (auto simp: runs_to_def)

text \<open>
  The status of the failed operation is handed to every handler of the activation, the completion
  handler included: the handler of the command runs and the status byte is written, but the completion is not
  sent.
\<close>

definition error_status_write :: "blk_env \<Rightarrow> virtq_cmd \<Rightarrow> virtq_priv \<Rightarrow> snap_dma_q" where
  "error_status_write env c p =
     (let a = d_addr (c_descs c (status_desc c));
          (ret, p) = (case e_send_status env of
             Some f \<Rightarrow> (f VIRTIO_BLK_S_IOERR a, p)
           | None \<Rightarrow> let (ret, q) = snap_dma_q_write_short (e_api env) (vp_dma_q p) [VIRTIO_BLK_S_IOERR] a (va_dma_mkey p)
                      in (ret, p\<lparr>vp_dma_q := q\<rparr>))
      in vp_dma_q (if ret = 0 then virtq_mark_dirty_mem env a 1 False p else p))"

definition fails_with :: "blk_env \<Rightarrow> virtq_cmd_sm_op_status \<Rightarrow> cmd_st \<Rightarrow> snap_dma_q \<Rightarrow> bool" where
  "fails_with env status s q \<longleftrightarrow> runs_to env status s WFatal \<and>
     vp_dma_q (snd (virtq_cmd_progress env status s)) = q \<and>
     vp_hw_used_index (snd (virtq_cmd_progress env status s)) = vp_hw_used_index (snd s)"

lemma fails_with_repeat:
  assumes "blk_sm env (c_state (fst s)) status s = (True, s')" and "c_state (fst s) \<noteq> VIRTQ_CMD_STATE_RELEASE"
    and "sm_frame env s s'" and "quiet s s'" and "vp_hw_used_index (snd s') = vp_hw_used_index (snd s)"
    and "fails_with env status s' q"
  shows "fails_with env status s q"
  using assms runs_to_repeat [OF assms(1-4)] by (simp add: fails_with_def progress_repeat [OF assms(1)])

lemma fatal_fails: "c_state c = VIRTQ_CMD_STATE_FATAL_ERR \<Longrightarrow> fails_with env status (c, p) (vp_dma_q p)"
  by (simp add: fails_with_def progress_fatal)

lemma send_comp_fails:
  assumes "status \<noteq> VIRTQ_CMD_SM_OP_OK" and "c_state c = VIRTQ_CMD_STATE_SEND_COMP"
  shows "fails_with env status (c, p) (vp_dma_q p)"
proof -
  let ?c = "c\<lparr>c_state := VIRTQ_CMD_STATE_FATAL_ERR\<rparr>"
  have "blk_sm env (c_state (fst (c, p))) status (c, p) = (True, ?c, p)"
    using assms by (simp add: virtq_sm_send_completion_def)
  from fails_with_repeat [OF this _ _ _ _ fatal_fails [of ?c env status p]] assms(2) show ?thesis
    by (simp add: sm_frame_def quiet_def c_fixed_def run_refl)
qed

lemma write_status_fails:
  assumes "status \<noteq> VIRTQ_CMD_SM_OP_OK" and "c_state c = VIRTQ_CMD_STATE_WRITE_STATUS"
  shows "fails_with env status (c, p) (error_status_write env c p)"
proof -
  let ?a = "d_addr (c_descs c (status_desc c))"
  obtain ret p1 where r: "(case e_send_status env of Some f \<Rightarrow> (f VIRTIO_BLK_S_IOERR ?a, p)
      | None \<Rightarrow> let (ret, q) = snap_dma_q_write_short (e_api env) (vp_dma_q p) [VIRTIO_BLK_S_IOERR] ?a (va_dma_mkey p)
          in (ret, p\<lparr>vp_dma_q := q\<rparr>)) = (ret, p1)" by (metis surj_pair)
  let ?c = "c\<lparr>c_status := VIRTIO_BLK_S_IOERR\<rparr>"
  let ?c' = "if ret \<noteq> 0 then ?c\<lparr>c_state := VIRTQ_CMD_STATE_FATAL_ERR\<rparr>
    else ?c\<lparr>c_total_in_len := c_total_in_len ?c + 1, c_state := VIRTQ_CMD_STATE_SEND_COMP\<rparr>"
  let ?p' = "if ret \<noteq> 0 then p1 else virtq_mark_dirty_mem env ?a 1 False p1"
  have e: "virtq_sm_write_status env status (c, p) = (True, ?c', ?p')"
    using assms(1) r unfolding virtq_sm_write_status_def Let_def prod.case
    by (cases "e_send_status env") (auto split: prod.splits)
  have q: "error_status_write env c p = vp_dma_q ?p'"
    using r unfolding error_status_write_def Let_def by simp
  have h: "vp_hw_used_index ?p' = vp_hw_used_index p" using r by (auto split: option.splits prod.splits)
  have sm: "blk_sm env (c_state (fst (c, p))) status (c, p) = (True, ?c', ?p')" using e assms(2) by simp
  from write_status_ok [of env c p status] e have f: "sm_frame env (c, p) (?c', ?p')" "quiet (c, p) (?c', ?p')"
    by (auto simp: handler_ok_def)
  have "fails_with env status (?c', ?p') (vp_dma_q ?p')"
    using fatal_fails [of ?c' env status ?p'] send_comp_fails [OF assms(1), of ?c' env ?p'] by (cases "ret = 0") auto
  from fails_with_repeat [OF sm _ f _ this] h assms(2) show ?thesis unfolding q by simp
qed

lemma progress_error:
  assumes "status \<noteq> VIRTQ_CMD_SM_OP_OK"
    and "c_state c \<in> {VIRTQ_CMD_STATE_FETCH_CMD_DESCS, VIRTQ_CMD_STATE_PARSE_HEADER, VIRTQ_CMD_STATE_HANDLE_REQ,
      VIRTQ_CMD_STATE_OUT_DATA_DONE, VIRTQ_CMD_STATE_IN_DATA_DONE, VIRTQ_CMD_STATE_WRITE_STATUS}"
  shows "fails_with env status (c, p)
    (if c_state c = VIRTQ_CMD_STATE_FETCH_CMD_DESCS then vp_dma_q p else error_status_write env c p)"
proof -
  obtain rep c' p' where e: "blk_sm env (c_state (fst (c, p))) status (c, p) = (rep, c', p')"
    by (cases "blk_sm env (c_state (fst (c, p))) status (c, p)") auto
  consider "c_state c = VIRTQ_CMD_STATE_WRITE_STATUS"
    | "c_state c = VIRTQ_CMD_STATE_FETCH_CMD_DESCS" "rep" "c_state c' = VIRTQ_CMD_STATE_FATAL_ERR" "p' = p" "c_fixed c' = c_fixed c"
    | "c_state c \<noteq> VIRTQ_CMD_STATE_FETCH_CMD_DESCS" "c_state c \<noteq> VIRTQ_CMD_STATE_RELEASE" "rep"
      "c_state c' = VIRTQ_CMD_STATE_WRITE_STATUS" "p' = p" "c_fixed c' = c_fixed c"
      "c_descs c' = c_descs c" "c_num_desc c' = c_num_desc c"
    using assms e
    by (auto simp: virtq_sm_fetch_cmd_descs_def blk_virtq_sm_parse_header_def blk_virtq_sm_handle_req_def
        virtq_sm_write_back_done_def blk_virtq_sm_handle_in_iov_done_def blk_io_error_def c_fixed_def)
  then show ?thesis
  proof cases
    case 1
    with write_status_fails [OF assms(1)] show ?thesis by simp
  next
    case 2
    with e fails_with_repeat [of env "(c, p)" status "(c', p')", OF _ _ _ _ _ fatal_fails [of c']] show ?thesis
      by (simp add: sm_frame_def quiet_def run_refl)
  next
    case 3
    have "error_status_write env c' p = error_status_write env c p"
      using 3(7,8) by (simp add: error_status_write_def status_desc_def)
    with 3 e fails_with_repeat [of env "(c, p)" status "(c', p')", OF _ _ _ _ _ write_status_fails [OF assms(1), of c' env p']]
    show ?thesis by (simp add: sm_frame_def quiet_def run_refl)
  qed
qed

text \<open>
  The normal end of a command: the status byte is written to the last descriptor, then the
  completion with the head index and the length is sent, on the same DMA queue and in this order.
\<close>

lemma progress_write_status_sends:
  assumes st: "c_state c = VIRTQ_CMD_STATE_WRITE_STATUS" and env: "e_send_status env = None" "e_send_comp env = TunnelComp"
    and p: "\<not> vp_log_writes_to_host p" "\<not> vp_force_in_order p \<or> c_cmd_available_index c = vp_ctrl_used_index p"
    and w: "snap_dma_q_write_short (e_api env) (vp_dma_q p) [c_status c] (d_addr (c_descs c (status_desc c)))
      (va_dma_mkey p) = (0, q1)"
    and s: "snap_dma_q_send_completion (e_api env) q1
      (le32 (ucast (c_descr_head_idx c)) @ le32 (c_total_in_len c + 1)) = (0, q2)"
  shows "vp_dma_q (snd (virtq_cmd_progress env VIRTQ_CMD_SM_OP_OK (c, p))) = q2 \<and>
    vp_ctrl_used_index (snd (virtq_cmd_progress env VIRTQ_CMD_SM_OP_OK (c, p))) = vp_ctrl_used_index p + 1"
proof -
  let ?c1 = "c\<lparr>c_total_in_len := c_total_in_len c + 1, c_state := VIRTQ_CMD_STATE_SEND_COMP\<rparr>"
  let ?p1 = "p\<lparr>vp_dma_q := q1\<rparr>"
  let ?u = "c_cmd_available_index c \<noteq> vp_ctrl_used_index p"
  define p2 where "p2 = (if ?u then upd_stat (c_io_cmd_stat c) (\<lambda>k. k\<lparr>ct_unordered := ct_unordered k + 1\<rparr>) ?p1 else ?p1)"
  have lw: "vp_log_writes_to_host (upd_stat a f x) = vp_log_writes_to_host x" for a f x
    by (cases "(a, f, x)" rule: upd_stat.cases) simp_all
  have p2: "vp_dma_q p2 = q1" "vp_ctrl_used_index p2 = vp_ctrl_used_index p" "\<not> vp_log_writes_to_host p2"
    "\<not> (vp_force_in_order p2 \<and> ?u)"
    using p by (auto simp: p2_def lw)
  let ?c2 = "?c1\<lparr>c_state := VIRTQ_CMD_STATE_RELEASE\<rparr>"
  let ?p3 = "p2\<lparr>vp_dma_q := q2, vp_ctrl_used_index := vp_ctrl_used_index p + 1\<rparr>"
  have md: "virtq_mark_dirty_mem env a n b x = x" if "\<not> vp_log_writes_to_host x" for a n b x
    using that by (simp add: virtq_mark_dirty_mem_def)
  have 1: "virtq_cmd_progress env VIRTQ_CMD_SM_OP_OK (c, p) = virtq_cmd_progress env VIRTQ_CMD_SM_OP_OK (?c1, ?p1)"
  proof (rule progress_repeat)
    have "virtq_sm_write_status env VIRTQ_CMD_SM_OP_OK (c, p) = (True, ?c1, ?p1)"
      using env(1) w p(1) unfolding virtq_sm_write_status_def Let_def prod.case by (simp add: md)
    then show "blk_sm env (c_state (fst (c, p))) VIRTQ_CMD_SM_OP_OK (c, p) = (True, ?c1, ?p1)" using st by simp
  qed
  have cb: "comp_bytes ?c1 = le32 (ucast (c_descr_head_idx c)) @ le32 (c_total_in_len c + 1)"
    by (simp add: comp_bytes_def)
  have sc: "send_comp env (?c1, p2) = (0, p2\<lparr>vp_dma_q := q2\<rparr>)"
    using env s p2 by (simp add: send_comp_def virtq_tunnel_send_comp_def cb)
  have 2: "virtq_cmd_progress env VIRTQ_CMD_SM_OP_OK (?c1, ?p1) = virtq_cmd_progress env VIRTQ_CMD_SM_OP_OK (?c2, ?p3)"
  proof (rule progress_repeat)
    have u: "(if c_cmd_available_index ?c1 \<noteq> vp_ctrl_used_index ?p1
        then upd_stat (c_io_cmd_stat ?c1) (\<lambda>k. k\<lparr>ct_unordered := ct_unordered k + 1\<rparr>) ?p1 else ?p1) = p2"
      by (simp add: p2_def)
    have n: "\<not> (vp_force_in_order p2 \<and> c_cmd_available_index ?c1 \<noteq> vp_ctrl_used_index ?p1)" using p2(4) by simp
    have "virtq_sm_send_completion env VIRTQ_CMD_SM_OP_OK (?c1, ?p1) = (True, ?c2, ?p3)"
      unfolding virtq_sm_send_completion_def Let_def prod.case u if_not_P [OF n] sc using p2(2,3) by (simp add: md)
    then show "blk_sm env (c_state (fst (?c1, ?p1))) VIRTQ_CMD_SM_OP_OK (?c1, ?p1) = (True, ?c2, ?p3)" by simp
  qed
  obtain w' s' where r: "virtq_cmd_progress env VIRTQ_CMD_SM_OP_OK (?c2, ?p3) = s'" "sm_frame env (?c2, ?p3) s'"
    "vp_ctrl_used_index (snd s') = vp_ctrl_used_index ?p3" "vp_dma_q (snd s') = vp_dma_q ?p3"
    using progress_release [of ?c2 env VIRTQ_CMD_SM_OP_OK ?p3] by auto
  with 1 2 show ?thesis by simp
qed

end
