(* ===== verification/Virtq_Queue.thy ===== *)
theory Virtq_Queue
  imports Virtq_Handlers Dma_Sys
begin

text \<open>
  The queue around the command state machine: the callbacks that wake a command
  (\<^verbatim>\<open>sm_dma_cb\<close>, \<^verbatim>\<open>bdev_io_comp_cb\<close>, \<^verbatim>\<open>virtq_mem_ready\<close>), reception of new
  commands, in-order completion, suspending and one round of polling
  (\<^verbatim>\<open>ctrl/virtq_common.c\<close>, \<^verbatim>\<open>ctrl/snap_virtio_blk_virtq.c\<close>).

  Commands live in the array of the queue; a callback names its command by its index, which is also
  the identity of its DMA completion object.
\<close>

section \<open>Callbacks\<close>

definition run_cmd :: "blk_env \<Rightarrow> virtq_cmd_sm_op_status \<Rightarrow> nat \<Rightarrow> virtq_priv \<Rightarrow> virtq_priv" where
  "run_cmd env status i p =
     (let (c, p') = virtq_cmd_progress env status (vp_cmd_arr p ! i, p)
      in p'\<lparr>vp_cmd_arr := (vp_cmd_arr p')[i := c]\<rparr>)"

definition set_cmd :: "nat \<Rightarrow> (virtq_cmd \<Rightarrow> virtq_cmd) \<Rightarrow> virtq_priv \<Rightarrow> virtq_priv" where
  "set_cmd i f p = p\<lparr>vp_cmd_arr := (vp_cmd_arr p)[i := f (vp_cmd_arr p ! i)]\<rparr>"

definition sm_dma_cb :: "blk_env \<Rightarrow> nat \<Rightarrow> int \<Rightarrow> virtq_priv \<Rightarrow> virtq_priv" where
  "sm_dma_cb env i status p =
     run_cmd env (if status \<noteq> 0 then VIRTQ_CMD_SM_OP_ERR else VIRTQ_CMD_SM_OP_OK) i (add_to_host (- 1) p)"

definition bdev_io_comp_cb :: "blk_env \<Rightarrow> bool \<Rightarrow> nat \<Rightarrow> virtq_priv \<Rightarrow> virtq_priv" where
  "bdev_io_comp_cb env success i p =
     (let st = c_io_cmd_stat (vp_cmd_arr p ! i);
          p = (if success then upd_stat st (\<lambda>k. k\<lparr>ct_success := ct_success k + 1\<rparr>) p
               else upd_stat st (\<lambda>k. k\<lparr>ct_fail := ct_fail k + 1\<rparr>) (set_cmd i blk_io_error p))
      in run_cmd env VIRTQ_CMD_SM_OP_OK i (add_in_bdev (- 1) p))"

definition virtq_mem_ready :: "blk_env \<Rightarrow> u64 \<Rightarrow> u32 \<Rightarrow> nat \<Rightarrow> virtq_priv \<Rightarrow> virtq_priv" where
  "virtq_mem_ready env data lkey i p =
     run_cmd env VIRTQ_CMD_SM_OP_OK i (set_cmd i (\<lambda>c. c\<lparr>c_req_buf := data, c_req_lkey := lkey\<rparr>) p)"

section \<open>New commands\<close>

text \<open>\<^verbatim>\<open>struct virtq_split_tunnel_req_hdr\<close> with the descriptors that follow it and the table
  the DPA provider points to.\<close>

record tunnel_req =
  tr_descr_head_idx :: u16
  tr_num_desc :: u16
  tr_dpa_vq_table_flag :: u32
  tr_descs :: descs
  tr_table :: descs

definition rx_slot :: "tunnel_req \<Rightarrow> virtq_priv \<Rightarrow> nat" where
  "rx_slot r p = (if vp_force_in_order p then unat (vp_ctrl_available_index p mod va_size p)
                  else unat (tr_descr_head_idx r mod va_size p))"

definition virtq_rx_cb_common_set :: "tunnel_req \<Rightarrow> virtq_priv \<Rightarrow> nat \<times> virtq_priv" where
  "virtq_rx_cb_common_set r p =
     (let i = rx_slot r p
      in (i, set_cmd i (\<lambda>c. c\<lparr>c_num_desc := ucast (tr_num_desc r), c_descr_head_idx := tr_descr_head_idx r,
               c_total_seg_len := 0, c_total_in_len := 0, c_status := VIRTIO_BLK_S_OK, c_use_dmem := False,
               c_use_seg_dmem := False, c_req_buf := c_buf c, c_req_lkey := c_mr_lkey c,
               c_cmd_available_index := vp_ctrl_available_index p, c_is_indirect := False\<rparr>) p))"

text \<open>
  \<^verbatim>\<open>virtq_rx_cb_common_proc\<close>: \<open>None\<close> when the chain of a DPA table has no end, otherwise
  whether the command was taken.
\<close>

definition load_descs :: "tunnel_req \<Rightarrow> virtq_cmd \<Rightarrow> virtq_cmd option" where
  "load_descs r c =
     (let c = c\<lparr>c_descs := (\<lambda>j. if j < unat (tr_num_desc r) then tr_descs r j else c_descs c j)\<rparr>
      in if tr_dpa_vq_table_flag r = VQ_TABLE_REC
         then (case arrange_descs (tr_table r) (c_descs c) (unat (tr_descr_head_idx r)) of
                 None \<Rightarrow> None
               | Some (n, ds) \<Rightarrow> Some (c\<lparr>c_descs := ds, c_num_desc := of_nat n\<rparr>))
         else Some c)"

definition virtq_rx_cb_common_proc :: "blk_env \<Rightarrow> tunnel_req \<Rightarrow> nat \<Rightarrow> virtq_priv \<Rightarrow> (bool \<times> virtq_priv) option" where
  "virtq_rx_cb_common_proc env r i p =
     (if vp_swq_state p = SW_VIRTQ_FLUSHING then Some (False, p)
      else case load_descs r (vp_cmd_arr p ! i) of
             None \<Rightarrow> None
           | Some c \<Rightarrow>
               let p = add_total 1 (set_cmd i (\<lambda>_. c) p);
                   p = p\<lparr>vp_ctrl_available_index := vp_ctrl_available_index p + 1\<rparr>;
                   p = set_cmd i (\<lambda>c. c\<lparr>c_state := VIRTQ_CMD_STATE_FETCH_CMD_DESCS\<rparr>) p
               in Some (True, run_cmd env VIRTQ_CMD_SM_OP_OK i p))"

definition blk_virtq_rx_cb :: "blk_env \<Rightarrow> tunnel_req \<Rightarrow> virtq_priv \<Rightarrow> virtq_priv option" where
  "blk_virtq_rx_cb env r p =
     (let (i, p) = virtq_rx_cb_common_set r p
      in map_option snd (virtq_rx_cb_common_proc env r i p))"

section \<open>Suspending\<close>

definition virtq_start :: "int \<Rightarrow> virtq_priv \<Rightarrow> virtq_priv" where
  "virtq_start pg_id p = p\<lparr>vp_pg_id := pg_id\<rparr>"

definition virtq_suspend :: "virtq_priv \<Rightarrow> int \<times> virtq_priv" where
  "virtq_suspend p =
     (if vp_swq_state p \<noteq> SW_VIRTQ_RUNNING then (- EBUSY, p)
      else (0, p\<lparr>vp_swq_state := SW_VIRTQ_FLUSHING\<rparr>))"

definition virtq_is_suspended :: "virtq_priv \<Rightarrow> bool" where
  "virtq_is_suspended p \<longleftrightarrow> vp_swq_state p = SW_VIRTQ_SUSPENDED"

definition virtq_check_outstanding_progress_suspend :: "virtq_priv \<Rightarrow> bool" where
  "virtq_check_outstanding_progress_suspend p =
     (let k = vp_cntrs p
      in if cnt_fatal k \<noteq> 0 then outstanding_in_bdev k = 0 \<and> outstanding_to_host k = 0
         else outstanding_total k = 0 \<and> outstanding_in_bdev k = 0 \<and> outstanding_to_host k = 0)"

text \<open>
  \<^verbatim>\<open>virtq_progress_suspend\<close>: \<open>None\<close> when the flush of the DMA queue never returns. The
  failure of the move to the suspended hardware state is only logged.
\<close>

definition virtq_progress_suspend ::
  "blk_env \<Rightarrow> (snap_dma_q \<Rightarrow> snap_dma_q) \<Rightarrow> virtq_priv \<Rightarrow> virtq_priv option"
where
  "virtq_progress_suspend env hw p =
     (if \<not> virtq_check_outstanding_progress_suspend p then Some p
      else case dv_dma_q_flush (e_api env) hw None (\<lambda>i. c_comp_count (vp_cmd_arr p ! i)) (vp_dma_q p) of
             None \<Rightarrow> None
           | Some (n, counts, q) \<Rightarrow> Some (p\<lparr>vp_dma_q := q, vp_swq_state := SW_VIRTQ_SUSPENDED\<rparr>))"

section \<open>In-order completion\<close>

lemma run_cmd_outcome:
  assumes "1 \<le> state_num (c_state (vp_cmd_arr p ! i))" and "state_num (c_state (vp_cmd_arr p ! i)) \<le> 10"
  obtains c' p' where "virtq_cmd_progress env status (vp_cmd_arr p ! i, p) = (c', p')"
    "outcome env (left_waiting env status (vp_cmd_arr p ! i, p)) (vp_cmd_arr p ! i, p) (c', p')" "vp_fixed p' = vp_fixed p"
    "run_cmd env status i p = p'\<lparr>vp_cmd_arr := (vp_cmd_arr p)[i := c']\<rparr>"
proof -
  obtain c' p' where e: "virtq_cmd_progress env status (vp_cmd_arr p ! i, p) = (c', p')"
    by (cases "virtq_cmd_progress env status (vp_cmd_arr p ! i, p)")
  from progress_outcome(1) [OF assms, of env status p] e have
    w: "outcome env (left_waiting env status (vp_cmd_arr p ! i, p)) (vp_cmd_arr p ! i, p) (c', p')" by simp
  then have "vp_fixed p' = vp_fixed p" by (simp add: outcome_def sm_frame_def)
  moreover from this have "run_cmd env status i p = p'\<lparr>vp_cmd_arr := (vp_cmd_arr p)[i := c']\<rparr>"
    using e by (simp add: run_cmd_def vp_fixed_def)
  ultimately show ?thesis using that e w by blast
qed

definition waits_in_order :: "virtq_cmd \<Rightarrow> bool" where
  "waits_in_order c \<longleftrightarrow> c_state c = VIRTQ_CMD_STATE_SEND_IN_ORDER_COMP"

lemma run_cmd_in_order:
  assumes "i < length (vp_cmd_arr p)" and "waits_in_order (vp_cmd_arr p ! i)"
    and "c_cmd_available_index (vp_cmd_arr p ! i) = vp_ctrl_used_index p"
  shows "\<exists>c'. vp_cmd_arr (run_cmd env status i p) = (vp_cmd_arr p)[i := c'] \<and> \<not> waits_in_order c'"
proof -
  have s: "1 \<le> state_num (c_state (vp_cmd_arr p ! i))" "state_num (c_state (vp_cmd_arr p ! i)) \<le> 10"
    using assms(2) by (simp_all add: waits_in_order_def)
  let ?w = "left_waiting env status (vp_cmd_arr p ! i, p)"
  obtain c' p' where o: "outcome env ?w (vp_cmd_arr p ! i, p) (c', p')"
    "run_cmd env status i p = p'\<lparr>vp_cmd_arr := (vp_cmd_arr p)[i := c']\<rparr>"
    by (rule run_cmd_outcome [OF s, where env = env and status = status])
  then have "?w \<noteq> WOrder" "rests_in ?w (c_state c')" using assms(3) by (auto simp: outcome_def)
  then have "\<not> waits_in_order c'" by (cases ?w) (auto simp: waits_in_order_def)
  with o(2) show ?thesis by auto
qed

lemma filter_update_less:
  "i < length xs \<Longrightarrow> P (xs ! i) \<Longrightarrow> \<not> P y \<Longrightarrow> length (filter P (xs[i := y])) < length (filter P xs)"
  by (induction xs arbitrary: i) (auto simp: nth_Cons' split: nat.splits if_splits)

text \<open>The loop condition of \<^verbatim>\<open>virtq_progress_unordered\<close>: the command at the used index waits
  and it is its turn. The array has as many commands as the queue has entries.\<close>

definition head_slot :: "virtq_priv \<Rightarrow> nat" where
  "head_slot p = unat (vp_ctrl_used_index p mod va_size p)"

definition head_waits :: "virtq_priv \<Rightarrow> bool" where
  "head_waits p \<longleftrightarrow> head_slot p < length (vp_cmd_arr p) \<and> waits_in_order (vp_cmd_arr p ! head_slot p) \<and>
     c_cmd_available_index (vp_cmd_arr p ! head_slot p) = vp_ctrl_used_index p"

function virtq_progress_unordered :: "blk_env \<Rightarrow> virtq_priv \<Rightarrow> virtq_priv" where
  "virtq_progress_unordered env p =
     (if head_waits p then virtq_progress_unordered env (run_cmd env VIRTQ_CMD_SM_OP_OK (head_slot p) p) else p)"
  by pat_completeness auto

termination
proof (relation "measure (\<lambda>(env, p). length (filter waits_in_order (vp_cmd_arr p)))", simp)
  fix env and p :: virtq_priv
  assume h: "head_waits p"
  then obtain c' where "vp_cmd_arr (run_cmd env VIRTQ_CMD_SM_OP_OK (head_slot p) p) = (vp_cmd_arr p)[head_slot p := c']"
    "\<not> waits_in_order c'"
    using run_cmd_in_order unfolding head_waits_def by blast
  with h show "((env, run_cmd env VIRTQ_CMD_SM_OP_OK (head_slot p) p), env, p) \<in>
      measure (\<lambda>(env, p). length (filter waits_in_order (vp_cmd_arr p)))"
    by (simp add: filter_update_less head_waits_def)
qed

declare virtq_progress_unordered.simps [simp del]

section \<open>One round of polling\<close>

text \<open>
  \<^verbatim>\<open>snap_dma_q_progress\<close> with the callbacks of this queue. The completion counters of the DMA
  layer are the \<^verbatim>\<open>dma_comp.count\<close> of the commands; callbacks run between the polling of the
  completion ring and the doorbell, as in \<^verbatim>\<open>dv_dma_q_progress_tx\<close>.
\<close>

fun virtq_run_comps :: "blk_env \<Rightarrow> (mlx5_cqe64 \<times> comp_id option) list \<Rightarrow> virtq_priv \<Rightarrow> virtq_priv" where
  "virtq_run_comps env [] p = p"
| "virtq_run_comps env ((cqe, None) # cs) p = virtq_run_comps env cs p"
| "virtq_run_comps env ((cqe, Some i) # cs) p =
     (let p = set_cmd i (\<lambda>c. c\<lparr>c_comp_count := c_comp_count c - 1\<rparr>) p;
          status = (if cqe_opcode cqe \<noteq> MLX5_CQE_REQ then cqe_syndrome cqe else 0)
      in virtq_run_comps env cs
           (if c_comp_count (vp_cmd_arr p ! i) = 0 then sm_dma_cb env i status p else p))"

definition virtq_progress_tx :: "blk_env \<Rightarrow> virtq_priv \<Rightarrow> nat \<times> virtq_priv" where
  "virtq_progress_tx env p =
     (let max_n = SNAP_DMA_MAX_TX_COMPLETIONS;
          (cs, cps, q) = tx_poll_loop None (tx_poll_fuel (vp_dma_q p) max_n) max_n (vp_dma_q p);
          p = virtq_run_comps env cs (p\<lparr>vp_dma_q := q\<rparr>);
          q = vp_dma_q p;
          dv = snap_dv_tx_complete (dq_dv q);
          dv = dv\<lparr>dv_tx_total_completed := dv_tx_total_completed dv + length cs\<rparr>
      in (length cs, p\<lparr>vp_dma_q := q\<lparr>dq_dv := dv\<rparr>\<rparr>))"

fun virtq_run_rx :: "blk_env \<Rightarrow> (snap_rx_completion \<Rightarrow> tunnel_req) \<Rightarrow> snap_rx_completion list \<Rightarrow> virtq_priv \<Rightarrow> virtq_priv option" where
  "virtq_run_rx env req [] p = Some p"
| "virtq_run_rx env req (r # rs) p =
     (case blk_virtq_rx_cb env (req r) p of None \<Rightarrow> None | Some p \<Rightarrow> virtq_run_rx env req rs p)"

definition virtq_progress_rx :: "blk_env \<Rightarrow> (snap_rx_completion \<Rightarrow> tunnel_req) \<Rightarrow> virtq_priv \<Rightarrow> (nat \<times> virtq_priv) option" where
  "virtq_progress_rx env req p =
     (let (cs, err, q) = rx_poll_loop SNAP_DMA_MAX_RX_COMPLETIONS (vp_dma_q p);
          n = length cs; p = p\<lparr>vp_dma_q := q\<rparr>
      in if err then Some (n, p)
         else case virtq_run_rx env req cs p of
                None \<Rightarrow> None
              | Some p \<Rightarrow>
                  if n = 0 then Some (0, p)
                  else let dv = dq_dv (vp_dma_q p);
                           dv = snap_dv_ring_rx_db (dv\<lparr>rq_ci := rq_ci dv + of_nat n\<rparr>);
                           dv = dv\<lparr>dv_rx_total_completed := dv_rx_total_completed dv + n\<rparr>
                       in Some (n, p\<lparr>vp_dma_q := (vp_dma_q p)\<lparr>dq_dv := dv\<rparr>\<rparr>))"

text \<open>
  \<^verbatim>\<open>virtq_progress\<close>. \<open>req\<close> reads a tunnel request out of a received message, \<open>hw\<close> is the
  device while the flush of a suspending queue waits for it.
\<close>

definition virtq_progress ::
  "blk_env \<Rightarrow> (snap_rx_completion \<Rightarrow> tunnel_req) \<Rightarrow> (snap_dma_q \<Rightarrow> snap_dma_q) \<Rightarrow> int \<Rightarrow> virtq_priv \<Rightarrow>
   (nat \<times> virtq_priv) option"
where
  "virtq_progress env req hw thread_id p =
     (if vp_swq_state p = SW_VIRTQ_SUSPENDED then Some (0, p)
      else
        let (n, p) = virtq_progress_tx env (p\<lparr>vp_thread_id := thread_id\<rparr>)
        in case virtq_progress_rx env req p of
             None \<Rightarrow> None
           | Some (m, p) \<Rightarrow>
               let p = (if vp_force_in_order p then virtq_progress_unordered env p else p)
               in map_option (Pair (n + m))
                    (if vp_swq_state p = SW_VIRTQ_FLUSHING then virtq_progress_suspend env hw p else Some p))"

section \<open>Accounting\<close>

text \<open>
  What every command of the array waits for; a free slot counts as finished. The counters of the
  queue are the numbers of commands in each kind of wait.
\<close>

definition alive :: "wait \<Rightarrow> bool" where
  "alive w \<longleftrightarrow> \<not> finishes w"

definition num_cmds :: "nat \<Rightarrow> (wait \<Rightarrow> bool) \<Rightarrow> (nat \<Rightarrow> wait) \<Rightarrow> nat" where
  "num_cmds n P W = card {i. i < n \<and> P (W i)}"

definition counters :: "nat \<Rightarrow> (nat \<Rightarrow> wait) \<Rightarrow> queue_out_counter" where
  "counters n W =
     \<lparr>outstanding_total = of_nat (num_cmds n alive W), outstanding_in_bdev = of_nat (num_cmds n (\<lambda>w. w = WBdev) W),
      outstanding_to_host = of_nat (num_cmds n (\<lambda>w. w = WDma) W),
      cnt_fatal = of_nat (num_cmds n (\<lambda>w. w = WFatal \<or> w = WFatalDone) W)\<rparr>"

lemma num_cmds_split:
  assumes "i < n"
  shows "num_cmds n P W = card {j. j < n \<and> j \<noteq> i \<and> P (W j)} + (if P (W i) then 1 else 0)"
proof -
  have s: "{j. j < n \<and> P (W j)} = (if P (W i) then insert i {j. j < n \<and> j \<noteq> i \<and> P (W j)} else {j. j < n \<and> j \<noteq> i \<and> P (W j)})"
    using assms by auto
  have "i \<notin> {j. j < n \<and> j \<noteq> i \<and> P (W j)}" "finite {j. j < n \<and> j \<noteq> i \<and> P (W j)}" by simp_all
  then show ?thesis unfolding num_cmds_def by (subst s) (simp add: card_insert_disjoint)
qed

lemma num_cmds_update:
  assumes "i < n"
  shows "of_nat (num_cmds n P (W(i := w))) =
    (of_nat (num_cmds n P W) + (if P w then 1 else 0) - (if P (W i) then 1 else 0) :: u32)"
proof -
  have "{j. j < n \<and> j \<noteq> i \<and> P ((W(i := w)) j)} = {j. j < n \<and> j \<noteq> i \<and> P (W j)}" by auto
  with num_cmds_split [OF assms, of P W] num_cmds_split [OF assms, of P "W(i := w)"] show ?thesis by simp
qed

lemma counters_settle:
  assumes "i < n" and "W i = WPool"
  shows "counters n (W(i := w)) = settle w (counters n W)"
  using assms(2) by (cases w) (simp_all add: counters_def num_cmds_update [OF assms(1)] alive_def finishes_def)

lemma counters_wake:
  assumes "i < n"
  shows "W i = WDma \<Longrightarrow> counters n (W(i := WPool)) =
      (counters n W)\<lparr>outstanding_to_host := outstanding_to_host (counters n W) - 1\<rparr>"
    and "W i = WBdev \<Longrightarrow> counters n (W(i := WPool)) =
      (counters n W)\<lparr>outstanding_in_bdev := outstanding_in_bdev (counters n W) - 1\<rparr>"
    and "W i = WOrder \<Longrightarrow> counters n (W(i := WPool)) = counters n W"
    and "W i = WDone \<Longrightarrow> counters n (W(i := WPool)) =
      (counters n W)\<lparr>outstanding_total := outstanding_total (counters n W) + 1\<rparr>"
  by (simp_all add: counters_def num_cmds_update [OF assms] alive_def finishes_def)

section \<open>Reachable states of a queue\<close>

text \<open>
  An activation of command \<open>i\<close> runs the code. \<open>W\<close> follows what the commands wait for, as the handlers
  that were run left them, and \<open>d\<close> collects the available index of every command that was completed.
\<close>

definition activates ::
  "blk_env \<Rightarrow> virtq_cmd_sm_op_status \<Rightarrow> nat \<Rightarrow> virtq_priv \<Rightarrow> (nat \<Rightarrow> wait) \<Rightarrow> u16 list \<Rightarrow>
   virtq_priv \<Rightarrow> (nat \<Rightarrow> wait) \<Rightarrow> u16 list \<Rightarrow> bool"
where
  "activates env status i p W d p' W' d' \<longleftrightarrow>
     p' = run_cmd env status i p \<and> W' = W(i := left_waiting env status (vp_cmd_arr p ! i, p)) \<and>
     d' = d @ (if completes env status (vp_cmd_arr p ! i, p) then [c_cmd_available_index (vp_cmd_arr p ! i)] else [])"

text \<open>
  The steps: a new command in a free slot, the callbacks of the commands that wait for them, the
  memory of a command that a DMA transfer changes, the turn of a command that waits for it, and what
  changes the DMA queue or the queue's own state without touching commands.

  The environment is assumed to use a slot only for one command at a time and to call back only
  a command that waits: the driver posts no more commands than the queue has entries, and no completion
  of an earlier use of a slot arrives once its command has ended or died. The code does not enforce the
  latter: when a later write of \<^verbatim>\<open>blk_virtq_sm_handle_in_iov_done\<close> cannot be posted, the command goes on while
  the earlier ones are still in flight. The block device calls back after the request function has returned.
\<close>

inductive virtq_reach :: "u16 \<Rightarrow> virtq_priv \<Rightarrow> (nat \<Rightarrow> wait) \<Rightarrow> u16 list \<Rightarrow> bool" for a0 where
  vq_init: "length (vp_cmd_arr p) = unat (va_size p) \<Longrightarrow> vp_cntrs p = counters (unat (va_size p)) (\<lambda>_. WDone) \<Longrightarrow>
     vp_ctrl_used_index p = a0 \<Longrightarrow> list_all (\<lambda>c. c_state c = VIRTQ_CMD_STATE_IDLE) (vp_cmd_arr p) \<Longrightarrow>
     virtq_reach a0 p (\<lambda>_. WDone) []"
| vq_rx: "virtq_reach a0 p W d \<Longrightarrow> virtq_rx_cb_common_set r p = (i, p1) \<Longrightarrow> W i = WDone \<Longrightarrow> i < length (vp_cmd_arr p) \<Longrightarrow>
     vp_swq_state p \<noteq> SW_VIRTQ_FLUSHING \<Longrightarrow> load_descs r (vp_cmd_arr p1 ! i) = Some c \<Longrightarrow>
     p2 = (add_total 1 (set_cmd i (\<lambda>_. c\<lparr>c_state := VIRTQ_CMD_STATE_FETCH_CMD_DESCS\<rparr>) p1))
        \<lparr>vp_ctrl_available_index := vp_ctrl_available_index p + 1\<rparr> \<Longrightarrow>
     activates env VIRTQ_CMD_SM_OP_OK i p2 W d p' W' d' \<Longrightarrow> virtq_reach a0 p' W' d'"
| vq_drop: "virtq_reach a0 p W d \<Longrightarrow> virtq_rx_cb_common_set r p = (i, p1) \<Longrightarrow> W i = WDone \<Longrightarrow> i < length (vp_cmd_arr p) \<Longrightarrow>
     vp_swq_state p = SW_VIRTQ_FLUSHING \<Longrightarrow> virtq_reach a0 p1 W d"
| vq_mem: "virtq_reach a0 p W d \<Longrightarrow> W i = WDma \<Longrightarrow> i < length (vp_cmd_arr p) \<Longrightarrow>
     virtq_reach a0 (set_cmd i (\<lambda>c. c\<lparr>c_header := h, c_descs := ds, c_comp_count := k\<rparr>) p) W d"
| vq_dma: "virtq_reach a0 p W d \<Longrightarrow> W i = WDma \<Longrightarrow> i < length (vp_cmd_arr p) \<Longrightarrow>
     activates env status i (add_to_host (- 1) p) W d p' W' d' \<Longrightarrow> virtq_reach a0 p' W' d'"
| vq_bdev: "virtq_reach a0 p W d \<Longrightarrow> W i = WBdev \<Longrightarrow> i < length (vp_cmd_arr p) \<Longrightarrow>
     p1 = (if success then upd_stat st f p else upd_stat st f (set_cmd i blk_io_error p)) \<Longrightarrow>
     activates env VIRTQ_CMD_SM_OP_OK i (add_in_bdev (- 1) p1) W d p' W' d' \<Longrightarrow> virtq_reach a0 p' W' d'"
| vq_pool: "virtq_reach a0 p W d \<Longrightarrow> W i = WPool \<Longrightarrow> i < length (vp_cmd_arr p) \<Longrightarrow>
     p1 = set_cmd i (\<lambda>c. c\<lparr>c_req_buf := data, c_req_lkey := lkey\<rparr>) p \<Longrightarrow>
     activates env VIRTQ_CMD_SM_OP_OK i p1 W d p' W' d' \<Longrightarrow> virtq_reach a0 p' W' d'"
| vq_order: "virtq_reach a0 p W d \<Longrightarrow> W i = WOrder \<Longrightarrow> i < length (vp_cmd_arr p) \<Longrightarrow>
     activates env VIRTQ_CMD_SM_OP_OK i p W d p' W' d' \<Longrightarrow> virtq_reach a0 p' W' d'"
| vq_other: "virtq_reach a0 p W d \<Longrightarrow>
     virtq_reach a0 (p\<lparr>vp_dma_q := q, vp_swq_state := s, vp_thread_id := t, vp_pg_id := g, vp_pending_bdev_detach := b\<rparr>) W d"

definition slot_ok :: "wait \<Rightarrow> virtq_cmd_sm_state \<Rightarrow> bool" where
  "slot_ok w st \<longleftrightarrow> rests_in w st \<or> w = WDone \<and> st = VIRTQ_CMD_STATE_IDLE"

definition virtq_inv :: "u16 \<Rightarrow> virtq_priv \<Rightarrow> (nat \<Rightarrow> wait) \<Rightarrow> u16 list \<Rightarrow> bool" where
  "virtq_inv a0 p W d \<longleftrightarrow>
     length (vp_cmd_arr p) = unat (va_size p) \<and> vp_cntrs p = counters (length (vp_cmd_arr p)) W \<and>
     (\<forall>i < length (vp_cmd_arr p). slot_ok (W i) (c_state (vp_cmd_arr p ! i))) \<and>
     vp_ctrl_used_index p = a0 + of_nat (length d) \<and>
     (vp_force_in_order p \<longrightarrow> d = map (\<lambda>k. a0 + of_nat k) [0..<length d])"

text \<open>A command that has just been woken waits for nothing that is counted, and has a handler to run.\<close>

definition runnable :: "virtq_cmd \<Rightarrow> bool" where
  "runnable c \<longleftrightarrow> 1 \<le> state_num (c_state c) \<and> state_num (c_state c) \<le> 10"

definition woken :: "u16 \<Rightarrow> nat \<Rightarrow> virtq_priv \<Rightarrow> (nat \<Rightarrow> wait) \<Rightarrow> u16 list \<Rightarrow> bool" where
  "woken a0 i p W d \<longleftrightarrow>
     i < length (vp_cmd_arr p) \<and> length (vp_cmd_arr p) = unat (va_size p) \<and> runnable (vp_cmd_arr p ! i) \<and>
     vp_cntrs p = counters (length (vp_cmd_arr p)) (W(i := WPool)) \<and>
     (\<forall>j < length (vp_cmd_arr p). j \<noteq> i \<longrightarrow> slot_ok (W j) (c_state (vp_cmd_arr p ! j))) \<and>
     vp_ctrl_used_index p = a0 + of_nat (length d) \<and>
     (vp_force_in_order p \<longrightarrow> d = map (\<lambda>k. a0 + of_nat k) [0..<length d])"

lemma activates_inv:
  assumes wk: "woken a0 i p W d" and act: "activates env status i p W d p' W' d'"
  shows "virtq_inv a0 p' W' d'"
proof -
  let ?n = "length (vp_cmd_arr p)" and ?c = "vp_cmd_arr p ! i"
  let ?w = "left_waiting env status (?c, p)"
  have i: "i < ?n" and s: "1 \<le> state_num (c_state ?c)" "state_num (c_state ?c) \<le> 10"
    using wk by (simp_all add: woken_def runnable_def)
  obtain c' q where o: "outcome env ?w (?c, p) (c', q)" and f: "vp_fixed q = vp_fixed p"
    and r: "run_cmd env status i p = q\<lparr>vp_cmd_arr := (vp_cmd_arr p)[i := c']\<rparr>"
    by (rule run_cmd_outcome [OF s, where env = env and status = status])
  have p': "p' = q\<lparr>vp_cmd_arr := (vp_cmd_arr p)[i := c']\<rparr>" and W': "W' = W(i := ?w)"
    and d': "d' = d @ (if finishes ?w then [c_cmd_available_index ?c] else [])"
    using act r progress_outcome(2) [OF s] by (simp_all add: activates_def)
  have "vp_cntrs p' = counters ?n W'"
    using o W' p' wk counters_settle [OF i, of "W(i := WPool)" ?w] by (simp add: outcome_def woken_def)
  moreover have "\<forall>j < ?n. slot_ok (W' j) (c_state (vp_cmd_arr p' ! j))"
  proof (intro allI impI)
    fix j assume j: "j < ?n"
    show "slot_ok (W' j) (c_state (vp_cmd_arr p' ! j))"
      using o W' p' wk j i by (cases "j = i") (simp_all add: outcome_def woken_def slot_ok_def)
  qed
  moreover have "vp_ctrl_used_index p' = a0 + of_nat (length d')"
    using o d' p' wk by (simp add: outcome_def woken_def)
  moreover have "vp_force_in_order p' \<longrightarrow> d' = map (\<lambda>k. a0 + of_nat k) [0..<length d']"
  proof
    assume "vp_force_in_order p'"
    then have "vp_force_in_order p" using p' f by (simp add: vp_fixed_def)
    with o wk have d: "d = map (\<lambda>k. a0 + of_nat k) [0..<length d]"
      "finishes ?w \<Longrightarrow> c_cmd_available_index ?c = a0 + of_nat (length d)"
      by (simp_all add: outcome_def woken_def)
    show "d' = map (\<lambda>k. a0 + of_nat k) [0..<length d']"
      unfolding d' using d by (cases "finishes ?w") simp_all
  qed
  moreover have "va_size p' = va_size p" "length (vp_cmd_arr p') = ?n"
    using p' f by (simp_all add: vp_fixed_def)
  ultimately show ?thesis using wk by (simp add: virtq_inv_def woken_def)
qed

lemma woken_upd:
  assumes inv: "virtq_inv a0 p W d" and i: "i < length (vp_cmd_arr p)" and "runnable c"
    and c: "vp_cmd_arr p1 = (vp_cmd_arr p)[i := c]" "va_size p1 = va_size p"
      "vp_cntrs p1 = counters (length (vp_cmd_arr p)) (W(i := WPool))"
      "vp_ctrl_used_index p1 = vp_ctrl_used_index p" "vp_force_in_order p1 = vp_force_in_order p"
  shows "woken a0 i p1 W d"
  using assms by (auto simp: woken_def virtq_inv_def)

lemma rests_in_range: "w \<in> {WDma, WBdev, WPool, WOrder} \<Longrightarrow> rests_in w st \<Longrightarrow> 1 \<le> state_num st \<and> state_num st \<le> 10"
  by (cases w) auto

lemma inv_runnable:
  assumes "virtq_inv a0 p W d" and "i < length (vp_cmd_arr p)" and "W i \<in> {WDma, WBdev, WPool, WOrder}"
  shows "runnable (vp_cmd_arr p ! i)"
proof -
  have "slot_ok (W i) (c_state (vp_cmd_arr p ! i))" using assms(1,2) unfolding virtq_inv_def by blast
  with assms(3) have "rests_in (W i) (c_state (vp_cmd_arr p ! i))" unfolding slot_ok_def by fastforce
  with rests_in_range [OF assms(3)] show ?thesis by (simp add: runnable_def)
qed

lemma inv_cntrs: "virtq_inv a0 p W d \<Longrightarrow> vp_cntrs p = counters (length (vp_cmd_arr p)) W"
  by (simp add: virtq_inv_def)

lemma vp_upd_stat [simp]:
  "vp_cmd_arr (upd_stat s f p) = vp_cmd_arr p" "va_size (upd_stat s f p) = va_size p"
  by (cases "(s, f, p)" rule: upd_stat.cases; simp)+

lemma virtq_reach_inv: "virtq_reach a0 p W d \<Longrightarrow> virtq_inv a0 p W d"
proof (induction rule: virtq_reach.induct)
  case (vq_init p)
  then show ?case by (simp add: virtq_inv_def slot_ok_def list_all_length)
next
  case (vq_drop p W d r i p1)
  then show ?case
    by (auto simp: virtq_inv_def virtq_rx_cb_common_set_def set_cmd_def Let_def nth_list_update)
next
  case (vq_rx p W d r i p1 c p2 env p' W' d')
  have "woken a0 i p2 W d"
    using vq_rx.IH vq_rx.hyps inv_cntrs [OF vq_rx.IH] counters_wake(4) [of i "length (vp_cmd_arr p)" W]
    by (intro woken_upd [of a0 p W d i "c\<lparr>c_state := VIRTQ_CMD_STATE_FETCH_CMD_DESCS\<rparr>"])
       (auto simp: virtq_rx_cb_common_set_def set_cmd_def add_total_def Let_def runnable_def)
  from activates_inv [OF this vq_rx.hyps(8)] show ?case .
next
  case (vq_mem p W d i h ds k)
  then show ?case by (auto simp: virtq_inv_def set_cmd_def nth_list_update)
next
  case (vq_dma p W d i env status p' W' d')
  have "woken a0 i (add_to_host (- 1) p) W d"
    using vq_dma.IH vq_dma.hyps inv_cntrs [OF vq_dma.IH] counters_wake(1) [of i "length (vp_cmd_arr p)" W]
      inv_runnable [OF vq_dma.IH, of i]
    by (intro woken_upd [of a0 p W d i "vp_cmd_arr p ! i"]) (auto simp: add_to_host_def)
  from activates_inv [OF this vq_dma.hyps(4)] show ?case .
next
  case (vq_bdev p W d i p1 success st f env p' W' d')
  have "woken a0 i (add_in_bdev (- 1) p1) W d"
    using vq_bdev.IH vq_bdev.hyps inv_cntrs [OF vq_bdev.IH] counters_wake(2) [of i "length (vp_cmd_arr p)" W]
      inv_runnable [OF vq_bdev.IH, of i]
    by (intro woken_upd [of a0 p W d i "if success then vp_cmd_arr p ! i else blk_io_error (vp_cmd_arr p ! i)"])
       (auto simp: set_cmd_def add_in_bdev_def runnable_def blk_io_error_def)
  from activates_inv [OF this vq_bdev.hyps(5)] show ?case .
next
  case (vq_pool p W d i p1 lkey data env p' W' d')
  have "woken a0 i p1 W d"
    using vq_pool.IH vq_pool.hyps inv_cntrs [OF vq_pool.IH] inv_runnable [OF vq_pool.IH, of i]
    by (intro woken_upd [of a0 p W d i "(vp_cmd_arr p ! i)\<lparr>c_req_buf := data, c_req_lkey := lkey\<rparr>"])
       (auto simp: set_cmd_def fun_upd_idem runnable_def)
  from activates_inv [OF this vq_pool.hyps(5)] show ?case .
next
  case (vq_order p W d i env p' W' d')
  have "woken a0 i p W d"
    using vq_order.IH vq_order.hyps inv_cntrs [OF vq_order.IH] counters_wake(3) [of i "length (vp_cmd_arr p)" W]
      inv_runnable [OF vq_order.IH, of i]
    by (intro woken_upd [of a0 p W d i "vp_cmd_arr p ! i"]) auto
  from activates_inv [OF this vq_order.hyps(4)] show ?case .
next
  case (vq_other p W d q s t g b)
  then show ?case by (simp add: virtq_inv_def)
qed

section \<open>The callbacks are steps\<close>

lemma activates_run:
  "activates env status i p W d (run_cmd env status i p) (W(i := left_waiting env status (vp_cmd_arr p ! i, p)))
     (d @ (if completes env status (vp_cmd_arr p ! i, p) then [c_cmd_available_index (vp_cmd_arr p ! i)] else []))"
  by (simp add: activates_def)

lemma reach_rests:
  assumes "virtq_reach a0 p W d" and "i < length (vp_cmd_arr p)" and "W i \<in> {WDma, WBdev, WPool, WOrder}"
  shows "1 \<le> state_num (c_state (vp_cmd_arr p ! i)) \<and> state_num (c_state (vp_cmd_arr p ! i)) \<le> 10"
  using inv_runnable [OF virtq_reach_inv [OF assms(1)] assms(2,3)] by (simp add: runnable_def)

lemma add_arr [simp]:
  "vp_cmd_arr (add_to_host n p) = vp_cmd_arr p" "vp_cmd_arr (add_in_bdev n p) = vp_cmd_arr p"
  "vp_cmd_arr (add_total n p) = vp_cmd_arr p"
  by (simp_all add: add_to_host_def add_in_bdev_def add_total_def)

lemma set_cmd_nth [simp]: "i < length (vp_cmd_arr p) \<Longrightarrow> vp_cmd_arr (set_cmd i f p) ! i = f (vp_cmd_arr p ! i)"
  by (simp add: set_cmd_def)

definition dma_status :: "int \<Rightarrow> virtq_cmd_sm_op_status" where
  "dma_status st = (if st \<noteq> 0 then VIRTQ_CMD_SM_OP_ERR else VIRTQ_CMD_SM_OP_OK)"

lemma reach_dma_cb:
  assumes r: "virtq_reach a0 p W d" and i: "i < length (vp_cmd_arr p)" "W i = WDma"
  shows "\<exists>d'. virtq_reach a0 (sm_dma_cb env i st p)
    (W(i := left_waiting env (dma_status st) (vp_cmd_arr p ! i, add_to_host (- 1) p))) d'"
  using vq_dma [OF r i(2,1) activates_run, of env "dma_status st"] unfolding sm_dma_cb_def dma_status_def add_arr by blast

lemma reach_bdev_cb:
  assumes r: "virtq_reach a0 p W d" and i: "i < length (vp_cmd_arr p)" "W i = WBdev"
  shows "\<exists>W' d'. virtq_reach a0 (bdev_io_comp_cb env success i p) W' d'"
proof -
  define f :: "queue_counter \<Rightarrow> queue_counter" where "f = (if success then (\<lambda>k. k\<lparr>ct_success := ct_success k + 1\<rparr>) else (\<lambda>k. k\<lparr>ct_fail := ct_fail k + 1\<rparr>))"
  define p1 where "p1 = (if success then upd_stat (c_io_cmd_stat (vp_cmd_arr p ! i)) f p
    else upd_stat (c_io_cmd_stat (vp_cmd_arr p ! i)) f (set_cmd i blk_io_error p))"
  have cb: "bdev_io_comp_cb env success i p = run_cmd env VIRTQ_CMD_SM_OP_OK i (add_in_bdev (- 1) p1)"
    by (simp add: bdev_io_comp_cb_def p1_def f_def Let_def)
  from vq_bdev [OF r i(2,1) p1_def activates_run] show ?thesis unfolding cb by blast
qed

lemma reach_mem_ready:
  assumes r: "virtq_reach a0 p W d" and i: "i < length (vp_cmd_arr p)" "W i = WPool"
  shows "\<exists>W' d'. virtq_reach a0 (virtq_mem_ready env data lkey i p) W' d'"
  using vq_pool [OF r i(2,1) refl activates_run] unfolding virtq_mem_ready_def by blast

text \<open>The state in which the new command of a request is first run.\<close>

definition rx_taken :: "tunnel_req \<Rightarrow> virtq_priv \<Rightarrow> virtq_priv option" where
  "rx_taken r p =
     (let (i, p1) = virtq_rx_cb_common_set r p
      in map_option (\<lambda>c. (add_total 1 (set_cmd i (\<lambda>_. c\<lparr>c_state := VIRTQ_CMD_STATE_FETCH_CMD_DESCS\<rparr>) p1))
           \<lparr>vp_ctrl_available_index := vp_ctrl_available_index p + 1\<rparr>) (load_descs r (vp_cmd_arr p1 ! i)))"

lemma rx_cb_taken:
  assumes "rx_slot req p < length (vp_cmd_arr p)" and "vp_swq_state p \<noteq> SW_VIRTQ_FLUSHING"
  shows "blk_virtq_rx_cb env req p = map_option (run_cmd env VIRTQ_CMD_SM_OP_OK (rx_slot req p)) (rx_taken req p)"
proof -
  let ?i = "rx_slot req p"
  obtain p1 where p1: "virtq_rx_cb_common_set req p = (?i, p1)"
    by (auto simp: virtq_rx_cb_common_set_def Let_def)
  then have p1f: "length (vp_cmd_arr p1) = length (vp_cmd_arr p)" "vp_swq_state p1 = vp_swq_state p"
    "vp_ctrl_available_index p1 = vp_ctrl_available_index p"
    by (auto simp: virtq_rx_cb_common_set_def set_cmd_def Let_def)
  have "set_cmd ?i (\<lambda>c. c\<lparr>c_state := VIRTQ_CMD_STATE_FETCH_CMD_DESCS\<rparr>)
      ((add_total 1 (set_cmd ?i (\<lambda>_. c) p1))\<lparr>vp_ctrl_available_index := vp_ctrl_available_index p + 1\<rparr>) =
      (add_total 1 (set_cmd ?i (\<lambda>_. c\<lparr>c_state := VIRTQ_CMD_STATE_FETCH_CMD_DESCS\<rparr>) p1))
        \<lparr>vp_ctrl_available_index := vp_ctrl_available_index p + 1\<rparr>" for c
    using assms(1) p1f by (cases p1) (simp add: set_cmd_def add_total_def)
  moreover have "vp_ctrl_available_index (add_total 1 (set_cmd ?i (\<lambda>_. c) p1)) = vp_ctrl_available_index p" for c
    using p1f by (simp add: add_total_def set_cmd_def)
  ultimately show ?thesis
    using p1 p1f assms(2)
    by (simp add: blk_virtq_rx_cb_def virtq_rx_cb_common_proc_def rx_taken_def Let_def option.map_comp comp_def split: option.split)
qed

lemma reach_rx_cb:
  assumes r: "virtq_reach a0 p W d" and i: "rx_slot req p < length (vp_cmd_arr p)" "W (rx_slot req p) = WDone"
    and s: "vp_swq_state p \<noteq> SW_VIRTQ_FLUSHING" and t: "rx_taken req p = Some p2"
  shows "\<exists>d'. virtq_reach a0 (run_cmd env VIRTQ_CMD_SM_OP_OK (rx_slot req p) p2)
    (W(rx_slot req p := left_waiting env VIRTQ_CMD_SM_OP_OK (vp_cmd_arr p2 ! rx_slot req p, p2))) d'"
proof -
  let ?i = "rx_slot req p"
  obtain p1 where p1: "virtq_rx_cb_common_set req p = (?i, p1)"
    by (auto simp: virtq_rx_cb_common_set_def Let_def)
  with t obtain c where c: "load_descs req (vp_cmd_arr p1 ! ?i) = Some c"
    "p2 = (add_total 1 (set_cmd ?i (\<lambda>_. c\<lparr>c_state := VIRTQ_CMD_STATE_FETCH_CMD_DESCS\<rparr>) p1))
        \<lparr>vp_ctrl_available_index := vp_ctrl_available_index p + 1\<rparr>"
    by (auto simp: rx_taken_def)
  from vq_rx [OF r p1 i(2,1) s c activates_run] show ?thesis by blast
qed

lemma reach_unordered: "virtq_reach a0 p W d \<Longrightarrow> \<exists>W' d'. virtq_reach a0 (virtq_progress_unordered env p) W' d'"
proof (induction env p arbitrary: W d rule: virtq_progress_unordered.induct)
  case (1 env p)
  show ?case
  proof (cases "head_waits p")
    case True
    let ?i = "head_slot p"
    from True have i: "?i < length (vp_cmd_arr p)" "c_state (vp_cmd_arr p ! ?i) = VIRTQ_CMD_STATE_SEND_IN_ORDER_COMP"
      by (simp_all add: head_waits_def waits_in_order_def)
    then have "slot_ok (W ?i) VIRTQ_CMD_STATE_SEND_IN_ORDER_COMP"
      using virtq_reach_inv [OF 1(2)] unfolding virtq_inv_def by metis
    then have w: "W ?i = WOrder" by (cases "W ?i") (auto simp: slot_ok_def)
    from 1(1) [OF True vq_order [OF 1(2) w i(1) activates_run]] True show ?thesis
      by (simp add: virtq_progress_unordered.simps [of env p])
  next
    case False
    with 1(2) show ?thesis by (auto simp: virtq_progress_unordered.simps [of env p])
  qed
qed


section \<open>Properties of the queue\<close>

lemma num_cmds_le: "num_cmds n P W \<le> n"
  unfolding num_cmds_def by (rule order_trans [OF card_mono [of "{..<n}"]]) auto

lemma num_cmds_0: "num_cmds n P W = 0 \<longleftrightarrow> (\<forall>i < n. \<not> P (W i))"
  by (auto simp: num_cmds_def card_eq_0_iff)

lemma reach_counters:
  assumes "virtq_reach a0 p W d"
  shows "vp_cntrs p = counters (length (vp_cmd_arr p)) W" and "length (vp_cmd_arr p) < 2 ^ 16"
    and "unat (of_nat (num_cmds (length (vp_cmd_arr p)) P W) :: u32) = num_cmds (length (vp_cmd_arr p)) P W"
proof -
  note inv = virtq_reach_inv [OF assms]
  show "vp_cntrs p = counters (length (vp_cmd_arr p)) W" using inv by (simp add: virtq_inv_def)
  show l: "length (vp_cmd_arr p) < 2 ^ 16"
    using inv unsigned_less [of "va_size p", where 'a = nat] by (simp add: virtq_inv_def)
  show "unat (of_nat (num_cmds (length (vp_cmd_arr p)) P W) :: u32) = num_cmds (length (vp_cmd_arr p)) P W"
    using num_cmds_le [of "length (vp_cmd_arr p)" P W] l by (intro unat_of_nat_small) simp
qed

text \<open>C1. In every state the queue can reach by running its callbacks, each for a command that waits for it, the
  four outstanding counters are exact, without wrap-around: the total counts the commands that have not ended, the other three those that
  the handlers run last left waiting for the block device, those left waiting for a DMA completion, and those
  that ended in a fatal error.\<close>

theorem virtq_counters_exact:
  assumes "virtq_reach a0 p W d"
  shows "unat (outstanding_total (vp_cntrs p)) = card {i. i < length (vp_cmd_arr p) \<and> W i \<notin> {WDone, WFatalDone}} \<and>
     unat (outstanding_in_bdev (vp_cntrs p)) = card {i. i < length (vp_cmd_arr p) \<and> W i = WBdev} \<and>
     unat (outstanding_to_host (vp_cntrs p)) = card {i. i < length (vp_cmd_arr p) \<and> W i = WDma} \<and>
     unat (cnt_fatal (vp_cntrs p)) = card {i. i < length (vp_cmd_arr p) \<and> W i \<in> {WFatal, WFatalDone}}"
  using reach_counters(1) [OF assms] reach_counters(3) [OF assms, of alive]
    reach_counters(3) [OF assms, of "\<lambda>w. w = WBdev"] reach_counters(3) [OF assms, of "\<lambda>w. w = WDma"]
    reach_counters(3) [OF assms, of "\<lambda>w. w = WFatal \<or> w = WFatalDone"]
  by (simp add: counters_def num_cmds_def alive_def finishes_def)

lemma suspend_check_quiescent:
  assumes "virtq_reach a0 p W d" and ck: "virtq_check_outstanding_progress_suspend p" and "i < length (vp_cmd_arr p)"
  shows "W i \<noteq> WDma \<and> W i \<noteq> WBdev \<and> (cnt_fatal (vp_cntrs p) = 0 \<longrightarrow> W i = WDone)"
proof -
  let ?n = "length (vp_cmd_arr p)"
  have z: "of_nat (num_cmds ?n P W) = (0 :: u32) \<longleftrightarrow> (\<forall>i < ?n. \<not> P (W i))" for P
    using reach_counters(3) [OF assms(1), of P] num_cmds_0 [of ?n P W] by (metis unat_0 unat_eq_zero)
  note cs = reach_counters(1) [OF assms(1)]
  have "\<not> W i = WDma" "\<not> W i = WBdev"
    using ck assms(3) unfolding virtq_check_outstanding_progress_suspend_def Let_def cs
    by (auto simp: counters_def z split: if_splits)
  moreover have "W i = WDone" if "cnt_fatal (vp_cntrs p) = 0"
  proof -
    have "outstanding_total (vp_cntrs p) = 0"
      using ck that by (simp add: virtq_check_outstanding_progress_suspend_def Let_def)
    with that have "\<forall>i < ?n. \<not> alive (W i)" "\<forall>i < ?n. \<not> (W i = WFatal \<or> W i = WFatalDone)"
      unfolding cs by (simp_all add: counters_def z)
    then show ?thesis using assms(3) by (auto simp: alive_def finishes_def)
  qed
  ultimately show ?thesis by blast
qed

text \<open>C2. \<^verbatim>\<open>virtq_progress_suspend\<close> moves a reachable queue to the suspended state only when no
  command waits for the host memory or for the block device; without fatal commands, only when every
  command has completed.\<close>

theorem virtq_suspend_quiescent:
  assumes "virtq_reach a0 p W d" and "virtq_progress_suspend env hw p = Some p'"
    and "\<not> virtq_is_suspended p" and "virtq_is_suspended p'" and "i < length (vp_cmd_arr p)"
  shows "W i \<noteq> WDma \<and> W i \<noteq> WBdev \<and> (cnt_fatal (vp_cntrs p) = 0 \<longrightarrow> W i = WDone)"
proof -
  have "virtq_check_outstanding_progress_suspend p"
    using assms(2-4) by (auto simp: virtq_progress_suspend_def split: if_splits)
  from suspend_check_quiescent [OF assms(1) this assms(5)] show ?thesis .
qed

text \<open>A queue with a fatal command does not wait for the pool: its callback finds a suspended queue.\<close>

lemma suspend_ignores_pool:
  assumes "vp_cntrs p = counters 2 (\<lambda>i. if i = 0 then WFatal else WPool)"
  shows "virtq_check_outstanding_progress_suspend p"
proof -
  have "{i :: nat. i < 2 \<and> (i = 0)} = {0}" by auto
  then have "num_cmds 2 (\<lambda>w. w = WFatal \<or> w = WFatalDone) (\<lambda>i. if i = 0 then WFatal else WPool) = 1"
    by (simp add: num_cmds_def if_distrib [of "\<lambda>w. w = _"] cong: if_cong)
  moreover have "num_cmds 2 (\<lambda>w. w = WDma) (\<lambda>i. if i = 0 then WFatal else WPool) = 0"
    "num_cmds 2 (\<lambda>w. w = WBdev) (\<lambda>i. if i = 0 then WFatal else WPool) = 0"
    by (simp_all add: num_cmds_0)
  ultimately show ?thesis using assms by (simp add: virtq_check_outstanding_progress_suspend_def counters_def)
qed

text \<open>C7. With \<^verbatim>\<open>force_in_order\<close> the commands complete in the order in which they became available:
  the available indices of the commands that were released after their completion was sent, in the order
  in which the callbacks, each run for a command that waits for it, released them, are consecutive, and the used index is the next one.\<close>

theorem virtq_completions_in_order:
  assumes "virtq_reach a0 p W d" and "vp_force_in_order p"
  shows "d = map (\<lambda>k. a0 + of_nat k) [0..<length d] \<and> vp_ctrl_used_index p = a0 + of_nat (length d)"
  using virtq_reach_inv [OF assms(1)] assms(2) by (simp add: virtq_inv_def)


text \<open>
  A round of polling. \<open>track_comps\<close> and \<open>track_rx\<close> follow what the commands wait for through the callbacks
  of the polled completions and messages, and are \<open>None\<close> when one comes that nobody waits for.
\<close>

fun track_comps ::
  "blk_env \<Rightarrow> (mlx5_cqe64 \<times> comp_id option) list \<Rightarrow> virtq_priv \<Rightarrow> (nat \<Rightarrow> wait) \<Rightarrow> (nat \<Rightarrow> wait) option"
where
  "track_comps env [] p W = Some W"
| "track_comps env ((cqe, None) # cs) p W = track_comps env cs p W"
| "track_comps env ((cqe, Some i) # cs) p W =
     (if i < length (vp_cmd_arr p) \<and> W i = WDma
      then let p = set_cmd i (\<lambda>c. c\<lparr>c_comp_count := c_comp_count c - 1\<rparr>) p;
               status = (if cqe_opcode cqe \<noteq> MLX5_CQE_REQ then cqe_syndrome cqe else 0)
           in if c_comp_count (vp_cmd_arr p ! i) = 0
              then track_comps env cs (sm_dma_cb env i status p)
                     (W(i := left_waiting env (dma_status status) (vp_cmd_arr p ! i, add_to_host (- 1) p)))
              else track_comps env cs p W
      else None)"

fun track_rx ::
  "blk_env \<Rightarrow> (snap_rx_completion \<Rightarrow> tunnel_req) \<Rightarrow> snap_rx_completion list \<Rightarrow> virtq_priv \<Rightarrow> (nat \<Rightarrow> wait) \<Rightarrow>
   (nat \<Rightarrow> wait) option"
where
  "track_rx env req [] p W = Some W"
| "track_rx env req (r # rs) p W =
     (let i = rx_slot (req r) p
      in if i < length (vp_cmd_arr p) \<and> W i = WDone
         then if vp_swq_state p = SW_VIRTQ_FLUSHING
              then track_rx env req rs (snd (virtq_rx_cb_common_set (req r) p)) W
              else case rx_taken (req r) p of
                     None \<Rightarrow> None
                   | Some p \<Rightarrow> track_rx env req rs (run_cmd env VIRTQ_CMD_SM_OP_OK i p)
                       (W(i := left_waiting env VIRTQ_CMD_SM_OP_OK (vp_cmd_arr p ! i, p)))
         else None)"

definition round_expected ::
  "blk_env \<Rightarrow> (snap_rx_completion \<Rightarrow> tunnel_req) \<Rightarrow> virtq_priv \<Rightarrow> (nat \<Rightarrow> wait) \<Rightarrow> bool"
where
  "round_expected env req p W \<longleftrightarrow>
     (let max_n = SNAP_DMA_MAX_TX_COMPLETIONS;
          (cs, cps, q) = tx_poll_loop None (tx_poll_fuel (vp_dma_q p) max_n) max_n (vp_dma_q p)
      in case track_comps env cs (p\<lparr>vp_dma_q := q\<rparr>) W of
           None \<Rightarrow> False
         | Some W1 \<Rightarrow>
             let p1 = snd (virtq_progress_tx env p);
                 (rs, err, q) = rx_poll_loop SNAP_DMA_MAX_RX_COMPLETIONS (vp_dma_q p1)
             in err \<or> track_rx env req rs (p1\<lparr>vp_dma_q := q\<rparr>) W1 \<noteq> None)"

lemma run_cmd_swq:
  assumes "runnable (vp_cmd_arr p ! i)"
  shows "vp_swq_state (run_cmd env status i p) = vp_swq_state p"
proof -
  have s: "1 \<le> state_num (c_state (vp_cmd_arr p ! i))" "state_num (c_state (vp_cmd_arr p ! i)) \<le> 10"
    using assms by (simp_all add: runnable_def)
  obtain c' q where "vp_fixed q = vp_fixed p" "run_cmd env status i p = q\<lparr>vp_cmd_arr := (vp_cmd_arr p)[i := c']\<rparr>"
    by (rule run_cmd_outcome [OF s, where env = env and status = status])
  then show ?thesis by (simp add: vp_fixed_def)
qed

lemma reach_run_comps:
  "virtq_reach a0 p W d \<Longrightarrow> track_comps env cs p W = Some W' \<Longrightarrow>
     (\<exists>d'. virtq_reach a0 (virtq_run_comps env cs p) W' d') \<and> vp_swq_state (virtq_run_comps env cs p) = vp_swq_state p"
proof (induction env cs p W arbitrary: d rule: track_comps.induct)
  case (3 env cqe i cs p W)
  define p1 where "p1 = set_cmd i (\<lambda>c. c\<lparr>c_comp_count := c_comp_count c - 1\<rparr>) p"
  define st where "st = (if cqe_opcode cqe \<noteq> MLX5_CQE_REQ then cqe_syndrome cqe else 0)"
  let ?c = "vp_cmd_arr p ! i"
  let ?W = "W(i := left_waiting env (dma_status st) (vp_cmd_arr p1 ! i, add_to_host (- 1) p1))"
  have run: "virtq_run_comps env ((cqe, Some i) # cs) p =
      virtq_run_comps env cs (if c_comp_count (vp_cmd_arr p1 ! i) = 0 then sm_dma_cb env i st p1 else p1)"
    unfolding virtq_run_comps.simps Let_def p1_def st_def ..
  from 3(4) have i: "i < length (vp_cmd_arr p)" "W i = WDma" by (auto split: if_splits)
  have tr: "(if c_comp_count (vp_cmd_arr p1 ! i) = 0 then track_comps env cs (sm_dma_cb env i st p1) ?W
      else track_comps env cs p1 W) = Some W'"
    using 3(4) i unfolding track_comps.simps Let_def p1_def st_def by simp
  have "set_cmd i (\<lambda>c. c\<lparr>c_header := c_header ?c, c_descs := c_descs ?c, c_comp_count := c_comp_count ?c - 1\<rparr>) p = p1"
    by (simp add: set_cmd_def p1_def)
  with vq_mem [OF 3(3) i(2,1), of "c_comp_count ?c - 1" "c_descs ?c" "c_header ?c"] have r: "virtq_reach a0 p1 W d" by simp
  have i': "i < length (vp_cmd_arr p1)" and s: "vp_swq_state p1 = vp_swq_state p" using i by (simp_all add: set_cmd_def p1_def)
  have iw: "i < length (vp_cmd_arr p) \<and> W i = WDma" using i by simp
  show ?case
  proof (cases "c_comp_count (vp_cmd_arr p1 ! i) = 0")
    case True
    obtain d' where r': "virtq_reach a0 (sm_dma_cb env i st p1) ?W d'" using reach_dma_cb [OF r i' i(2)] by blast
    have "vp_swq_state (sm_dma_cb env i st p1) = vp_swq_state p"
      using inv_runnable [OF virtq_reach_inv [OF r] i'] i(2) s
      unfolding sm_dma_cb_def by (subst run_cmd_swq) (simp_all add: add_to_host_def)
    with 3(1) [OF iw p1_def st_def True r'] tr True show ?thesis unfolding run by (simp add: fun_upd_def)
  next
    case False
    with 3(2) [OF iw p1_def st_def False r] tr s show ?thesis unfolding run by simp
  qed
qed auto

lemma reach_run_rx:
  "virtq_reach a0 p W d \<Longrightarrow> track_rx env req rs p W = Some W' \<Longrightarrow>
     \<exists>p'. virtq_run_rx env req rs p = Some p' \<and> (\<exists>d'. virtq_reach a0 p' W' d') \<and> vp_swq_state p' = vp_swq_state p"
proof (induction rs arbitrary: p W d)
  case (Cons r rs)
  let ?i = "rx_slot (req r) p"
  from Cons.prems(2) have i: "?i < length (vp_cmd_arr p)" "W ?i = WDone" by (auto simp: Let_def split: if_splits)
  show ?case
  proof (cases "vp_swq_state p = SW_VIRTQ_FLUSHING")
    case True
    obtain p1 where p1: "virtq_rx_cb_common_set (req r) p = (?i, p1)" by (auto simp: virtq_rx_cb_common_set_def Let_def)
    then have s: "vp_swq_state p1 = vp_swq_state p" by (auto simp: virtq_rx_cb_common_set_def set_cmd_def Let_def)
    have "virtq_reach a0 p1 W d" by (rule vq_drop [OF Cons.prems(1) p1 i(2,1) True])
    from Cons.IH [OF this] Cons.prems(2) True i p1 s show ?thesis
      by (simp add: Let_def blk_virtq_rx_cb_def virtq_rx_cb_common_proc_def)
  next
    case False
    from Cons.prems(2) False i obtain p2 where p2: "rx_taken (req r) p = Some p2"
      "track_rx env req rs (run_cmd env VIRTQ_CMD_SM_OP_OK ?i p2)
         (W(?i := left_waiting env VIRTQ_CMD_SM_OP_OK (vp_cmd_arr p2 ! ?i, p2))) = Some W'"
      by (auto simp: Let_def split: option.splits)
    obtain d' where r: "virtq_reach a0 (run_cmd env VIRTQ_CMD_SM_OP_OK ?i p2)
        (W(?i := left_waiting env VIRTQ_CMD_SM_OP_OK (vp_cmd_arr p2 ! ?i, p2))) d'"
      using reach_rx_cb [OF Cons.prems(1) i False p2(1)] by blast
    have t: "vp_swq_state p2 = vp_swq_state p" "runnable (vp_cmd_arr p2 ! ?i)"
      using p2(1) i(1) by (auto simp: rx_taken_def virtq_rx_cb_common_set_def set_cmd_def add_total_def runnable_def Let_def)
    have cb: "blk_virtq_rx_cb env (req r) p = Some (run_cmd env VIRTQ_CMD_SM_OP_OK ?i p2)"
      using rx_cb_taken [OF i(1) False] p2(1) by simp
    from Cons.IH [OF r p2(2)] cb t run_cmd_swq [OF t(2)] show ?thesis by simp
  qed
qed auto

lemma reach_dma_only: "virtq_reach a0 p W d \<Longrightarrow> virtq_reach a0 (p\<lparr>vp_dma_q := q\<rparr>) W d"
  using vq_other [of a0 p W d, where q = q and s = "vp_swq_state p" and t = "vp_thread_id p" and g = "vp_pg_id p"
    and b = "vp_pending_bdev_detach p"] by simp

lemma unordered_swq:
  "virtq_reach a0 p W d \<Longrightarrow> vp_swq_state (virtq_progress_unordered env p) = vp_swq_state p"
proof (induction env p arbitrary: W d rule: virtq_progress_unordered.induct)
  case (1 env p)
  show ?case
  proof (cases "head_waits p")
    case True
    let ?i = "head_slot p"
    from True have i: "?i < length (vp_cmd_arr p)" "c_state (vp_cmd_arr p ! ?i) = VIRTQ_CMD_STATE_SEND_IN_ORDER_COMP"
      by (simp_all add: head_waits_def waits_in_order_def)
    then have "slot_ok (W ?i) VIRTQ_CMD_STATE_SEND_IN_ORDER_COMP"
      using virtq_reach_inv [OF 1(2)] unfolding virtq_inv_def by metis
    then have w: "W ?i = WOrder" by (cases "W ?i") (auto simp: slot_ok_def)
    from 1(1) [OF True vq_order [OF 1(2) w i(1) activates_run]] True i(2) run_cmd_swq [of p ?i] show ?thesis
      by (simp add: virtq_progress_unordered.simps [of env p] runnable_def)
  qed (simp add: virtq_progress_unordered.simps [of env p])
qed

lemma reach_polled:
  assumes r: "virtq_reach a0 p W d" and e: "round_expected env req p W"
    and x: "virtq_progress_rx env req (snd (virtq_progress_tx env p)) = Some (m, p')"
  shows "\<exists>W' d'. virtq_reach a0 p' W' d' \<and> vp_swq_state p' = vp_swq_state p"
proof -
  let ?max = "SNAP_DMA_MAX_TX_COMPLETIONS"
  obtain cs cps q where l: "tx_poll_loop None (tx_poll_fuel (vp_dma_q p) ?max) ?max (vp_dma_q p) = (cs, cps, q)"
    by (cases "tx_poll_loop None (tx_poll_fuel (vp_dma_q p) ?max) ?max (vp_dma_q p)")
  let ?p1 = "snd (virtq_progress_tx env p)"
  obtain rs err q2 where l2: "rx_poll_loop SNAP_DMA_MAX_RX_COMPLETIONS (vp_dma_q ?p1) = (rs, err, q2)"
    by (cases "rx_poll_loop SNAP_DMA_MAX_RX_COMPLETIONS (vp_dma_q ?p1)")
  from e obtain W1 where W1: "track_comps env cs (p\<lparr>vp_dma_q := q\<rparr>) W = Some W1"
    "err \<or> track_rx env req rs (?p1\<lparr>vp_dma_q := q2\<rparr>) W1 \<noteq> None"
    unfolding round_expected_def Let_def l prod.case l2 by (auto split: option.splits)
  from reach_run_comps [OF reach_dma_only [OF r] W1(1)] obtain d1 where
    c: "virtq_reach a0 (virtq_run_comps env cs (p\<lparr>vp_dma_q := q\<rparr>)) W1 d1"
    "vp_swq_state (virtq_run_comps env cs (p\<lparr>vp_dma_q := q\<rparr>)) = vp_swq_state p" by auto
  have p1: "\<exists>q'. ?p1 = (virtq_run_comps env cs (p\<lparr>vp_dma_q := q\<rparr>))\<lparr>vp_dma_q := q'\<rparr>"
    unfolding virtq_progress_tx_def Let_def l prod.case snd_conv by blast
  then have r1: "virtq_reach a0 (?p1\<lparr>vp_dma_q := q2\<rparr>) W1 d1" and s1: "vp_swq_state (?p1\<lparr>vp_dma_q := q2\<rparr>) = vp_swq_state p"
    using c reach_dma_only by auto
  show ?thesis
  proof (cases err)
    case True
    with x l2 have "p' = ?p1\<lparr>vp_dma_q := q2\<rparr>" by (simp add: virtq_progress_rx_def Let_def)
    with r1 s1 show ?thesis by blast
  next
    case False
    with W1(2) reach_run_rx [OF r1] obtain p2 W2 d2 where
      p2: "virtq_run_rx env req rs (?p1\<lparr>vp_dma_q := q2\<rparr>) = Some p2" "virtq_reach a0 p2 W2 d2" "vp_swq_state p2 = vp_swq_state p"
      using s1 by (metis not_None_eq)
    have "\<exists>q. p' = p2\<lparr>vp_dma_q := q\<rparr>"
      using x p2(1) False unfolding virtq_progress_rx_def Let_def l2 prod.case
      by (cases "length rs = 0") (auto intro: exI [of _ "vp_dma_q p2"])
    with p2(3) reach_dma_only [OF p2(2)] show ?thesis by fastforce
  qed
qed

text \<open>C12. One round of polling keeps the queue within its reachable states when every DMA completion
  and every message that it polls belongs to a command that waits for it or to a free slot. So what holds of every
  reachable state holds after it; and when the round suspends the queue, no command waits for the host
  memory or for the block device any more.\<close>

theorem virtq_progress_round:
  assumes "virtq_reach a0 p W d" and "round_expected env req (p\<lparr>vp_thread_id := t\<rparr>) W"
    and "virtq_progress env req hw t p = Some (n, p')"
  shows "\<exists>W' d'. virtq_reach a0 p' W' d' \<and>
     (\<not> virtq_is_suspended p \<and> virtq_is_suspended p' \<longrightarrow>
        (\<forall>i < length (vp_cmd_arr p'). W' i \<noteq> WDma \<and> W' i \<noteq> WBdev \<and> (cnt_fatal (vp_cntrs p') = 0 \<longrightarrow> W' i = WDone)))"
proof (cases "vp_swq_state p = SW_VIRTQ_SUSPENDED")
  case True
  with assms show ?thesis by (auto simp: virtq_progress_def virtq_is_suspended_def)
next
  case False
  let ?p = "p\<lparr>vp_thread_id := t\<rparr>"
  have r: "virtq_reach a0 ?p W d"
    using vq_other [OF assms(1), where q = "vp_dma_q p" and s = "vp_swq_state p" and t = t and g = "vp_pg_id p"
      and b = "vp_pending_bdev_detach p"] by simp
  obtain n1 p1 where tx: "virtq_progress_tx env ?p = (n1, p1)" by (cases "virtq_progress_tx env ?p")
  define u where "u = (\<lambda>p. if vp_force_in_order p then virtq_progress_unordered env p else p)"
  obtain m p2 where rx: "virtq_progress_rx env req p1 = Some (m, p2)"
    and fin: "(if vp_swq_state (u p2) = SW_VIRTQ_FLUSHING then virtq_progress_suspend env hw (u p2) else Some (u p2)) = Some p'"
    using assms(3) False tx unfolding virtq_progress_def u_def Let_def by (auto split: option.splits)
  from reach_polled [OF r assms(2)] tx rx obtain W2 d2 where
    r2: "virtq_reach a0 p2 W2 d2" and s2: "vp_swq_state p2 = vp_swq_state p" by auto
  obtain W3 d3 where r3: "virtq_reach a0 (u p2) W3 d3" and s3: "vp_swq_state (u p2) = vp_swq_state p"
    using reach_unordered [OF r2, of env] r2 unordered_swq [OF r2, of env] s2
    by (cases "vp_force_in_order p2") (auto simp: u_def)
  show ?thesis
  proof (cases "vp_swq_state (u p2) = SW_VIRTQ_FLUSHING \<and> virtq_check_outstanding_progress_suspend (u p2)")
    case True
    with fin obtain q where p': "p' = (u p2)\<lparr>vp_dma_q := q, vp_swq_state := SW_VIRTQ_SUSPENDED\<rparr>"
      by (auto simp: virtq_progress_suspend_def split: option.splits)
    have "virtq_reach a0 p' W3 d3"
      using vq_other [OF r3, where q = q and s = SW_VIRTQ_SUSPENDED and t = "vp_thread_id (u p2)" and g = "vp_pg_id (u p2)"
        and b = "vp_pending_bdev_detach (u p2)"] p' by simp
    with suspend_check_quiescent [OF r3] True p' show ?thesis by (intro exI [of _ W3] exI [of _ d3]) simp
  next
    case nf: False
    with fin have "p' = u p2" by (auto simp: virtq_progress_suspend_def split: if_splits)
    with r3 s3 False show ?thesis by (auto simp: virtq_is_suspended_def)
  qed
qed

lemma error_status_add: "error_status_write env c (add_to_host n p) = error_status_write env c p"
proof -
  have m: "vp_dma_q (virtq_mark_dirty_mem env a l b (add_to_host n p)) = vp_dma_q (virtq_mark_dirty_mem env a l b p)"
    "(add_to_host n p)\<lparr>vp_dma_q := q\<rparr> = add_to_host n (p\<lparr>vp_dma_q := q\<rparr>)" "va_dma_mkey (add_to_host n p) = va_dma_mkey p" for a l b p q
    by (auto simp: virtq_mark_dirty_mem_def add_to_host_def Let_def split: option.split prod.split)
  show ?thesis by (auto simp: error_status_write_def m Let_def split: option.split prod.split)
qed

text \<open>C11. A DMA transfer that fails ends its command in the fatal state without a completion,
  whatever the command was doing: the used indices stay, the fatal counter grows, and all that the DMA queue
  receives is the write of the status byte \<^verbatim>\<open>VIRTIO_BLK_S_IOERR\<close> to the status descriptor with its dirty
  marks, or nothing while descriptors are being fetched. In particular no completion is posted and the release
  handler is not called.\<close>

theorem virtq_dma_error_fatal:
  assumes "virtq_reach a0 p W d" and "i < length (vp_cmd_arr p)" and "W i = WDma" and "st \<noteq> 0"
    and "c = vp_cmd_arr p ! i" and "p' = sm_dma_cb env i st p"
  shows "c_state (vp_cmd_arr p' ! i) = VIRTQ_CMD_STATE_FATAL_ERR \<and>
     vp_ctrl_used_index p' = vp_ctrl_used_index p \<and> vp_hw_used_index p' = vp_hw_used_index p \<and>
     cnt_fatal (vp_cntrs p') = cnt_fatal (vp_cntrs p) + 1 \<and>
     vp_dma_q p' = (if c_state c = VIRTQ_CMD_STATE_FETCH_CMD_DESCS then vp_dma_q p else error_status_write env c p) \<and>
     \<not> completes env VIRTQ_CMD_SM_OP_ERR (c, add_to_host (- 1) p)"
proof -
  let ?p = "add_to_host (- 1) p"
  have "slot_ok (W i) (c_state c)" using virtq_reach_inv [OF assms(1)] assms(2,5) unfolding virtq_inv_def by blast
  then have "c_state c \<in> {VIRTQ_CMD_STATE_FETCH_CMD_DESCS, VIRTQ_CMD_STATE_PARSE_HEADER, VIRTQ_CMD_STATE_HANDLE_REQ,
      VIRTQ_CMD_STATE_OUT_DATA_DONE, VIRTQ_CMD_STATE_IN_DATA_DONE, VIRTQ_CMD_STATE_WRITE_STATUS}"
    using assms(3) by (auto simp: slot_ok_def)
  from progress_error [OF _ this, of VIRTQ_CMD_SM_OP_ERR env ?p]
  have fw: "fails_with env VIRTQ_CMD_SM_OP_ERR (c, ?p)
    (if c_state c = VIRTQ_CMD_STATE_FETCH_CMD_DESCS then vp_dma_q p else error_status_write env c p)"
    by (simp only: error_status_add add_fixed virtq_cmd_sm_op_status.distinct not_False_eq_True)
  obtain c' q where e: "virtq_cmd_progress env VIRTQ_CMD_SM_OP_ERR (c, ?p) = (c', q)"
    by (cases "virtq_cmd_progress env VIRTQ_CMD_SM_OP_ERR (c, ?p)")
  have o: "outcome env WFatal (c, ?p) (c', q)" and nc: "\<not> completes env VIRTQ_CMD_SM_OP_ERR (c, ?p)"
    using fw e by (auto simp: fails_with_def runs_to_def finishes_def)
  have cb: "p' = q\<lparr>vp_cmd_arr := (vp_cmd_arr q)[i := c']\<rparr>"
    using assms(4-6) e by (simp add: sm_dma_cb_def run_cmd_def)
  have "vp_cmd_arr q = vp_cmd_arr p" using o by (simp add: outcome_def sm_frame_def vp_fixed_def)
  with o e cb fw nc assms(2) show ?thesis
    by (simp add: outcome_def finishes_def fails_with_def) (simp add: add_to_host_def)
qed

text \<open>C20. A successful read of a request that has no data descriptor hangs: the command waits for a
  DMA completion, counted as outstanding towards the host, although nothing was posted on the DMA queue, so that
  neither the command completes nor the queue can be suspended.\<close>

theorem virtq_empty_read_hangs:
  assumes "i < length (vp_cmd_arr p)" and "c = vp_cmd_arr p ! i" and "c_state c = VIRTQ_CMD_STATE_IN_DATA_DONE"
    and "c_num_desc c = 2" and "p' = bdev_io_comp_cb env True i p"
  shows "vp_dma_q p' = vp_dma_q p \<and> c_state (vp_cmd_arr p' ! i) = VIRTQ_CMD_STATE_WRITE_STATUS \<and>
     c_comp_count (vp_cmd_arr p' ! i) = 0 \<and> vp_ctrl_used_index p' = vp_ctrl_used_index p \<and>
     outstanding_to_host (vp_cntrs p') = outstanding_to_host (vp_cntrs p) + 1"
proof -
  let ?p = "add_in_bdev (- 1) (upd_stat (c_io_cmd_stat c) (\<lambda>k. k\<lparr>ct_success := ct_success k + 1\<rparr>) p)"
  let ?c = "c\<lparr>c_comp_count := 0, c_state := VIRTQ_CMD_STATE_WRITE_STATUS\<rparr>"
  have "blk_virtq_sm_handle_in_iov_done env VIRTQ_CMD_SM_OP_OK (c, ?p) = (False, ?c, add_to_host 1 ?p)"
    using assms(4) by (simp add: blk_virtq_sm_handle_in_iov_done_def Let_def)
  then have "blk_sm env (c_state (fst (c, ?p))) VIRTQ_CMD_SM_OP_OK (c, ?p) = (False, ?c, add_to_host 1 ?p)"
    using assms(3) by simp
  from progress_stop [OF this] assms show ?thesis
    by (simp add: bdev_io_comp_cb_def run_cmd_def Let_def) (simp add: add_in_bdev_def)
qed

text \<open>C9. When the block device ends a write, a flush or a zero-copy request, or fails any request,
  the status byte, \<^verbatim>\<open>VIRTIO_BLK_S_IOERR\<close> on failure, is written to the status descriptor and then,
  on the same DMA queue, one completion with the head index and the number of written bytes is sent; the
  used index advances by one.\<close>

theorem virtq_bdev_completion:
  assumes c: "c = vp_cmd_arr p ! i" and i: "i < length (vp_cmd_arr p)"
    and st: "c_state c = VIRTQ_CMD_STATE_WRITE_STATUS \<or> c_state c = VIRTQ_CMD_STATE_OUT_DATA_DONE \<or> \<not> success"
    and env: "e_send_status env = None" "e_send_comp env = TunnelComp"
    and p: "\<not> vp_log_writes_to_host p" "\<not> vp_force_in_order p \<or> c_cmd_available_index c = vp_ctrl_used_index p"
    and w: "snap_dma_q_write_short (e_api env) (vp_dma_q p) [if success then c_status c else VIRTIO_BLK_S_IOERR]
      (d_addr (c_descs c (status_desc c))) (va_dma_mkey p) = (0, q1)"
    and s: "snap_dma_q_send_completion (e_api env) q1
      (le32 (ucast (c_descr_head_idx c)) @ le32 (c_total_in_len c + 1)) = (0, q2)"
  shows "vp_dma_q (bdev_io_comp_cb env success i p) = q2 \<and>
     vp_ctrl_used_index (bdev_io_comp_cb env success i p) = vp_ctrl_used_index p + 1"
proof -
  define c1 where "c1 = (if success then c else blk_io_error c)"
  define p1 where "p1 = add_in_bdev (- 1) (if success then upd_stat (c_io_cmd_stat c) (\<lambda>k. k\<lparr>ct_success := ct_success k + 1\<rparr>) p
      else upd_stat (c_io_cmd_stat c) (\<lambda>k. k\<lparr>ct_fail := ct_fail k + 1\<rparr>) (set_cmd i blk_io_error p))"
  let ?c2 = "c1\<lparr>c_state := VIRTQ_CMD_STATE_WRITE_STATUS\<rparr>"
  have lw: "vp_log_writes_to_host (upd_stat a f x) = vp_log_writes_to_host x" "va_dma_mkey (upd_stat a f x) = va_dma_mkey x" for a f x
    by (cases "(a, f, x)" rule: upd_stat.cases; simp)+
  have p1: "vp_cmd_arr p1 ! i = c1" "vp_dma_q p1 = vp_dma_q p" "\<not> vp_log_writes_to_host p1"
    "va_dma_mkey p1 = va_dma_mkey p" "vp_ctrl_used_index p1 = vp_ctrl_used_index p" "vp_force_in_order p1 = vp_force_in_order p"
    using p i c by (simp_all add: p1_def c1_def add_in_bdev_def set_cmd_def lw)
  have cb: "vp_dma_q (bdev_io_comp_cb env success i p) = vp_dma_q (snd (virtq_cmd_progress env VIRTQ_CMD_SM_OP_OK (c1, p1)))"
    "vp_ctrl_used_index (bdev_io_comp_cb env success i p) = vp_ctrl_used_index (snd (virtq_cmd_progress env VIRTQ_CMD_SM_OP_OK (c1, p1)))"
  proof -
    have "bdev_io_comp_cb env success i p = run_cmd env VIRTQ_CMD_SM_OP_OK i p1"
      using c by (simp add: bdev_io_comp_cb_def p1_def Let_def)
    then show "vp_dma_q (bdev_io_comp_cb env success i p) = vp_dma_q (snd (virtq_cmd_progress env VIRTQ_CMD_SM_OP_OK (c1, p1)))"
      "vp_ctrl_used_index (bdev_io_comp_cb env success i p) = vp_ctrl_used_index (snd (virtq_cmd_progress env VIRTQ_CMD_SM_OP_OK (c1, p1)))"
      using p1(1) by (simp_all add: run_cmd_def split: prod.split)
  qed
  have "c_state c1 = VIRTQ_CMD_STATE_OUT_DATA_DONE \<or> c_state c1 = VIRTQ_CMD_STATE_WRITE_STATUS"
    using st by (auto simp: c1_def blk_io_error_def)
  then have "virtq_cmd_progress env VIRTQ_CMD_SM_OP_OK (c1, p1) = virtq_cmd_progress env VIRTQ_CMD_SM_OP_OK (?c2, p1)"
  proof
    assume "c_state c1 = VIRTQ_CMD_STATE_OUT_DATA_DONE"
    then show ?thesis by (intro progress_repeat) (simp add: virtq_sm_write_back_done_def)
  next
    assume "c_state c1 = VIRTQ_CMD_STATE_WRITE_STATUS"
    then have "?c2 = c1" by (cases c1) simp
    then show ?thesis by simp
  qed
  moreover have "vp_dma_q (snd (virtq_cmd_progress env VIRTQ_CMD_SM_OP_OK (?c2, p1))) = q2 \<and>
    vp_ctrl_used_index (snd (virtq_cmd_progress env VIRTQ_CMD_SM_OP_OK (?c2, p1))) = vp_ctrl_used_index p1 + 1"
    by (rule progress_write_status_sends [OF _ env _ _ _])
       (use p p1 w s in \<open>auto simp: c1_def blk_io_error_def status_desc_def split: if_splits\<close>)
  ultimately show ?thesis using cb p1 by simp
qed

lemma dma_run_reach:
  assumes "dma_run api q q'" and "dma_reach api L q P C es rep dev" and "8 \<le> L" and "L < 2 ^ 15"
  shows "\<exists>P' dev'. P \<le> P' \<and> dma_reach api L q' P' C es rep (dev @ dev')"
  using assms(1,2)
proof (induction rule: dma_run.induct)
  case (run_refl q)
  then show ?case by (metis append_Nil2 order_refl)
next
  case (run_step q q1 c rc q2)
  then obtain P1 d1 where r: "P \<le> P1" "dma_reach api L q1 P1 C es rep (dev @ d1)" by blast
  have "inline_len c \<le> L" using run_step.hyps(3) assms(3) by simp
  from dma_reach_exec [OF r(2) this run_step.hyps(2)] r show ?case by (metis append_assoc order_trans)
qed

text \<open>C10. Whatever a command does when it is woken, the DMA queue it shares stays within the states
  that data-path calls reach, so the credit and completion-queue properties of the DMA queue hold under the
  block queue.\<close>

theorem virtq_keeps_dma_credits:
  assumes "virtq_reach a0 p W d" and "i < length (vp_cmd_arr p)" and "W i \<in> {WDma, WBdev, WPool, WOrder}"
    and "dma_reach (e_api env) L (vp_dma_q p) P C es rep dev" and "8 \<le> L" and "L < 2 ^ 15"
  shows "\<exists>P' dev'. P \<le> P' \<and> dma_reach (e_api env) L (vp_dma_q (run_cmd env status i p)) P' C es rep (dev @ dev')"
proof -
  have s: "1 \<le> state_num (c_state (vp_cmd_arr p ! i))" "state_num (c_state (vp_cmd_arr p ! i)) \<le> 10"
    using reach_rests [OF assms(1-3)] by blast+
  obtain c' p' where o: "outcome env (left_waiting env status (vp_cmd_arr p ! i, p)) (vp_cmd_arr p ! i, p) (c', p')"
    "run_cmd env status i p = p'\<lparr>vp_cmd_arr := (vp_cmd_arr p)[i := c']\<rparr>"
    by (rule run_cmd_outcome [OF s, where env = env and status = status])
  then have "dma_run (e_api env) (vp_dma_q p) (vp_dma_q (run_cmd env status i p))"
    by (simp add: outcome_def sm_frame_def)
  from dma_run_reach [OF this assms(4-6)] show ?thesis .
qed

section \<open>A concrete queue\<close>

definition cmd0 :: "nat \<Rightarrow> virtq_cmd" where
  "cmd0 i = \<lparr>c_idx = i, c_descr_head_idx = 0, c_num_desc = 0, c_num_merges = 0, c_state = VIRTQ_CMD_STATE_IDLE,
     c_buf = 0x1000, c_req_size = 4096, c_aux = 0x3000, c_aux_lkey = 9, c_header = zero_header, c_descs = (\<lambda>_. zero_desc),
     c_status = 0, c_mr_lkey = 8, c_req_buf = 0x1000, c_req_lkey = 8, c_comp_count = 0, c_total_seg_len = 0,
     c_total_in_len = 0, c_use_dmem = False, c_io_cmd_stat = None, c_cmd_available_index = 0, c_indirect_pos = 0,
     c_indirect_len = 0, c_use_seg_dmem = False, c_is_indirect = False, c_zcopy = False, c_offset_blocks = 0,
     c_num_blocks = 0, c_in_bdev_detach = False, c_max_iov_cnt = 8, c_iov = []\<rparr>"

definition vq0 :: virtq_priv where
  "vq0 = \<lparr>vp_swq_state = SW_VIRTQ_RUNNING, vp_fatal_err = False, vp_dma_q = dma_q0 64, vp_cmd_arr = [cmd0 0, cmd0 1],
     vp_cntrs = \<lparr>outstanding_total = 0, outstanding_in_bdev = 0, outstanding_to_host = 0, cnt_fatal = 0\<rparr>,
     vp_seg_max = 4, vp_pg_id = 0, vp_ctrl_available_index = 0, vp_force_in_order = True, vp_ctrl_used_index = 0,
     vp_zcopy = False, vp_merge_descs = False, vp_use_mem_pool = False, vp_thread_id = 0, va_size = 2, va_desc = 0x5000,
     va_device = 0x7000, va_dma_mkey = 5, vp_hw_used_index = 0, vp_uncomp_bdev_cmds = 0,
     vp_io_read = \<lparr>ct_total = 0, ct_success = 0, ct_fail = 0, ct_unordered = 0, ct_merged_desc = 0, ct_long_desc_chain = 0,
       ct_large_in_buf = 0\<rparr>,
     vp_io_write = \<lparr>ct_total = 0, ct_success = 0, ct_fail = 0, ct_unordered = 0, ct_merged_desc = 0, ct_long_desc_chain = 0,
       ct_large_in_buf = 0\<rparr>,
     vp_io_flush = \<lparr>ct_total = 0, ct_success = 0, ct_fail = 0, ct_unordered = 0, ct_merged_desc = 0, ct_long_desc_chain = 0,
       ct_large_in_buf = 0\<rparr>,
     vp_log_writes_to_host = False, vp_lm_channel = False, vp_dp_map = None, vp_pending_bdev_detach = False\<rparr>"

definition env0 :: blk_env where
  "env0 = \<lparr>e_api = api0, e_calloc = (\<lambda>_. None), e_ibv_reg_mr = (\<lambda>_ _. None), e_dma_malloc = (\<lambda>_. None),
     e_dma_pool_malloc = (\<lambda>_. 0), e_zcopy_validate = None, e_block_size = 512, e_num_blocks = 1000,
     e_write = (\<lambda>_ _ _. 0), e_read = (\<lambda>_ _ _. 0), e_writev_blocks = (\<lambda>_ _ _. 0), e_readv_blocks = (\<lambda>_ _ _. 0),
     e_flush = (\<lambda>_ _. 0), e_bdev_name = ''bdev0'', e_send_comp = TunnelComp, e_send_status = None,
     e_dpa_complete = (\<lambda>_ _. 0), e_uninit = (0, 0)\<rparr>"

text \<open>A flush request of a header and a status descriptor: its arrival, the header that the DMA read
  brings, and the end of the flush at the block device.\<close>

definition req0 :: tunnel_req where
  "req0 = \<lparr>tr_descr_head_idx = 1, tr_num_desc = 2, tr_dpa_vq_table_flag = 0,
     tr_descs = (\<lambda>j. if j = 0 then \<lparr>d_addr = 0x10000, d_len = 16, d_flags = 1, d_next = 1\<rparr>
                     else \<lparr>d_addr = 0x20000, d_len = 1, d_flags = 2, d_next = 0\<rparr>),
     tr_table = (\<lambda>_. zero_desc)\<rparr>"

definition vq1 :: virtq_priv where
  "vq1 = the (blk_virtq_rx_cb env0 req0 vq0)"

definition vq2 :: virtq_priv where
  "vq2 = sm_dma_cb env0 0 0 (set_cmd 0 (\<lambda>c. c\<lparr>c_header := \<lparr>h_type = 4, h_ioprio = 0, h_sector = 0\<rparr>,
     c_descs := tr_descs req0, c_comp_count := 0\<rparr>) vq1)"

definition vq3 :: virtq_priv where
  "vq3 = bdev_io_comp_cb env0 True 0 vq2"

lemma counters_one:
  assumes "W 1 = WDone"
  shows "counters 2 W = \<lparr>outstanding_total = (if alive (W 0) then 1 else 0), outstanding_in_bdev = (if W 0 = WBdev then 1 else 0),
     outstanding_to_host = (if W 0 = WDma then 1 else 0), cnt_fatal = (if W 0 = WFatal \<or> W 0 = WFatalDone then 1 else 0)\<rparr>"
proof -
  have "num_cmds 2 P W = (if P (W 0) then 1 else 0)" if "\<not> P WDone" for P
  proof -
    have "{i. i < 2 \<and> P (W i)} = (if P (W 0) then {0} else {})" using that assms by (auto simp: less_2_cases_iff intro: gr0I)
    then show ?thesis by (simp add: num_cmds_def)
  qed
  then show ?thesis by (simp add: counters_def alive_def finishes_def)
qed

lemma slot_idle:
  assumes "virtq_reach a0 p W d" and "i < length (vp_cmd_arr p)" and "c_state (vp_cmd_arr p ! i) = VIRTQ_CMD_STATE_IDLE"
  shows "W i = WDone"
proof -
  have "slot_ok (W i) (c_state (vp_cmd_arr p ! i))" using virtq_reach_inv [OF assms(1)] assms(2) unfolding virtq_inv_def by blast
  then show ?thesis using assms(3) by (cases "W i") (auto simp: slot_ok_def)
qed

lemma vq0_reach: "virtq_reach 0 vq0 (\<lambda>_. WDone) []"
  by (rule vq_init) (simp_all add: vq0_def cmd0_def counters_one [of "\<lambda>_. WDone"] alive_def finishes_def)

lemma vq1_eval:
  "length (vp_cmd_arr vq1) = 2" "c_state (vp_cmd_arr vq1 ! Suc 0) = VIRTQ_CMD_STATE_IDLE" "vp_ctrl_used_index vq1 = 0"
  "outstanding_to_host (vp_cntrs vq1) = 1" "blk_virtq_rx_cb env0 req0 vq0 \<noteq> None"
  by code_simp+

lemma vq1_reach: "\<exists>W d. virtq_reach 0 vq1 W d \<and> W 0 = WDma \<and> W 1 = WDone"
proof -
  have s: "rx_slot req0 vq0 < length (vp_cmd_arr vq0)" "vp_swq_state vq0 \<noteq> SW_VIRTQ_FLUSHING" by code_simp+
  with rx_cb_taken [OF s, of env0] vq1_eval(5) obtain p2 where
    "rx_taken req0 vq0 = Some p2" "vq1 = run_cmd env0 VIRTQ_CMD_SM_OP_OK (rx_slot req0 vq0) p2" by (auto simp: vq1_def)
  with reach_rx_cb [OF vq0_reach s(1) refl s(2)] obtain W d where r: "virtq_reach 0 vq1 W d" by metis
  have d: "W 1 = WDone" by (rule slot_idle [OF r]) (simp_all add: vq1_eval)
  with reach_counters(1) [OF r] vq1_eval have "W 0 = WDma" by (simp add: counters_one split: if_splits)
  with r d show ?thesis by blast
qed

lemma vq2_eval:
  "length (vp_cmd_arr vq2) = 2" "c_state (vp_cmd_arr vq2 ! Suc 0) = VIRTQ_CMD_STATE_IDLE"
  "c_state (vp_cmd_arr vq2 ! 0) = VIRTQ_CMD_STATE_WRITE_STATUS" "outstanding_in_bdev (vp_cntrs vq2) = 1"
  "vp_ctrl_used_index vq2 = 0" "c_cmd_available_index (vp_cmd_arr vq2 ! 0) = 0" "\<not> vp_log_writes_to_host vq2"
  by code_simp+

lemma vq2_reach: "\<exists>W d. virtq_reach 0 vq2 W d \<and> W 0 = WBdev"
proof -
  obtain W d where w: "virtq_reach 0 vq1 W d" "W 0 = WDma" using vq1_reach by blast
  have l: "0 < length (vp_cmd_arr vq1)" by (simp add: vq1_eval)
  from reach_dma_cb [OF vq_mem [OF w l] _ w(2), where env = env0 and st = 0] l obtain W d where r: "virtq_reach 0 vq2 W d"
    unfolding vq2_def by (force simp: set_cmd_def)
  have d: "W 1 = WDone" by (rule slot_idle [OF r]) (simp_all add: vq2_eval)
  with reach_counters(1) [OF r] vq2_eval have "W 0 = WBdev" by (simp add: counters_one split: if_splits)
  with r show ?thesis by blast
qed

lemma vq3_reach: "\<exists>W d. virtq_reach 0 vq3 W d"
  using vq2_reach reach_bdev_cb [of 0 vq2 _ _ 0 env0 True] vq2_eval(1) unfolding vq3_def by fastforce

theorem virtq_counters_exact_witness:
  "\<exists>W d. virtq_reach 0 vq1 W d \<and> card {i. i < length (vp_cmd_arr vq1) \<and> W i = WDma} = 1"
proof -
  obtain W d where r: "virtq_reach 0 vq1 W d" using vq1_reach by blast
  from virtq_counters_exact [OF r] have "card {i. i < length (vp_cmd_arr vq1) \<and> W i = WDma} = 1"
    by (simp add: vq1_eval(4) del: vq1_eval(1))
  with r show ?thesis by blast
qed

theorem virtq_completions_in_order_witness:
  "\<exists>W d. virtq_reach 0 vq3 W d \<and> hd d = 0 \<and> length d mod 2 ^ 16 = 1"
proof -
  obtain W d where r: "virtq_reach 0 vq3 W d" using vq3_reach by blast
  have "vp_force_in_order vq3" and u: "vp_ctrl_used_index vq3 = 1" by code_simp+
  from virtq_completions_in_order [OF r this(1)] have
    d: "d = map (\<lambda>k. of_nat k) [0..<length d]" and l: "of_nat (length d) = (1 :: u16)" using u by simp_all
  from arg_cong [OF l, of unat] have m: "length d mod 2 ^ 16 = 1" by (simp add: unat_of_nat)
  have n: "0 < length d" using l by (cases d) auto
  have "hd d = (0 :: u16)" 
    using arg_cong [OF d, of hd] by (simp add: upt_conv_Cons [OF n])
  with r m show ?thesis by blast
qed


text \<open>The queue in which the header of the first command has arrived and its completion is in the ring.\<close>

definition vq1c :: virtq_priv where
  "vq1c = (set_cmd 0 (\<lambda>c. c\<lparr>c_header := \<lparr>h_type = 4, h_ioprio = 0, h_sector = 0\<rparr>, c_descs := tr_descs req0, c_comp_count := 1\<rparr>) vq1)
     \<lparr>vp_dma_q := (vp_dma_q vq1)\<lparr>dq_tx_cq := cq_device_write 0 cqe0 (dq_tx_cq (vp_dma_q vq1))\<rparr>\<rparr>"

lemma vq1c_eval:
  "map (\<lambda>(e, cm). cm) (fst (tx_poll_loop None (tx_poll_fuel (vp_dma_q vq1c) SNAP_DMA_MAX_TX_COMPLETIONS)
     SNAP_DMA_MAX_TX_COMPLETIONS (vp_dma_q vq1c))) = [Some 0]"
  "fst (rx_poll_loop SNAP_DMA_MAX_RX_COMPLETIONS (vp_dma_q (snd (virtq_progress_tx env0 (vq1c\<lparr>vp_thread_id := 3\<rparr>))))) = []"
  "map_option (\<lambda>(n, p). (n, outstanding_in_bdev (vp_cntrs p))) (virtq_progress env0 (\<lambda>_. req0) (\<lambda>q. q) 3 vq1c) = Some (1, 1)"
  "length (vp_cmd_arr vq1c) = 2"
  by code_simp+

lemma vq1c_reach: "\<exists>W d. virtq_reach 0 vq1c W d \<and> W 0 = WDma"
proof -
  obtain W d where w: "virtq_reach 0 vq1 W d" "W 0 = WDma" using vq1_reach by blast
  have "0 < length (vp_cmd_arr vq1)" by (simp add: vq1_eval)
  from reach_dma_only [OF vq_mem [OF w this]] w(2) show ?thesis unfolding vq1c_def by blast
qed

lemma vq1c_expected:
  assumes "W 0 = WDma"
  shows "round_expected env0 (\<lambda>_. req0) (vq1c\<lparr>vp_thread_id := 3\<rparr>) W"
proof -
  let ?p = "vq1c\<lparr>vp_thread_id := 3\<rparr>"
  obtain cs cps q where l: "tx_poll_loop None (tx_poll_fuel (vp_dma_q vq1c) SNAP_DMA_MAX_TX_COMPLETIONS)
     SNAP_DMA_MAX_TX_COMPLETIONS (vp_dma_q vq1c) = (cs, cps, q)" using prod_cases3 by blast
  with vq1c_eval(1) obtain e where cs: "cs = [(e, Some 0)]" by auto
  have "\<exists>W'. track_comps env0 cs (?p\<lparr>vp_dma_q := q\<rparr>) W = Some W'"
    using assms vq1c_eval(4) unfolding cs by (simp add: Let_def)
  then show ?thesis
    using vq1c_eval(2) l by (auto simp: round_expected_def Let_def split: prod.split)
qed

theorem virtq_progress_round_witness:
  "\<exists>p' W' d'. virtq_progress env0 (\<lambda>_. req0) (\<lambda>q. q) 3 vq1c = Some (1, p') \<and> virtq_reach 0 p' W' d' \<and>
     outstanding_in_bdev (vp_cntrs p') = 1"
proof -
  obtain W d where r: "virtq_reach 0 vq1c W d" "W 0 = WDma" using vq1c_reach by blast
  obtain p' where p': "virtq_progress env0 (\<lambda>_. req0) (\<lambda>q. q) 3 vq1c = Some (1, p')" "outstanding_in_bdev (vp_cntrs p') = 1"
    using vq1c_eval(3) by auto
  from virtq_progress_round [OF r(1) vq1c_expected [of W, OF r(2)] p'(1)] p' show ?thesis by blast
qed

theorem virtq_dma_error_fatal_witness:
  "c_state (vp_cmd_arr (sm_dma_cb env0 0 1 vq1) ! 0) = VIRTQ_CMD_STATE_FATAL_ERR \<and>
     vp_ctrl_used_index (sm_dma_cb env0 0 1 vq1) = 0 \<and>
     vp_dma_q (sm_dma_cb env0 0 1 vq1) = error_status_write env0 (vp_cmd_arr vq1 ! 0) vq1"
proof -
  obtain W d where r: "virtq_reach 0 vq1 W d" "W 0 = WDma" using vq1_reach by blast
  have "c_state (vp_cmd_arr vq1 ! 0) \<noteq> VIRTQ_CMD_STATE_FETCH_CMD_DESCS" by code_simp
  with virtq_dma_error_fatal [OF r(1) _ r(2) _ refl refl, of 1 env0] show ?thesis using vq1_eval by simp
qed

theorem virtq_keeps_dma_credits_witness:
  "\<exists>P' dev'. dma_reach api0 64 (vp_dma_q (run_cmd env0 VIRTQ_CMD_SM_OP_OK 0 (vq1\<lparr>vp_dma_q := dma_q0 64\<rparr>))) P' 0 [] [] dev'"
proof -
  obtain W d where r: "virtq_reach 0 vq1 W d" "W 0 = WDma" using vq1_reach by blast
  let ?p = "vq1\<lparr>vp_dma_q := dma_q0 64\<rparr>"
  have p: "virtq_reach 0 ?p W d"
    using vq_other [OF r(1), where q = "dma_q0 64" and s = "vp_swq_state vq1" and t = "vp_thread_id vq1" and g = "vp_pg_id vq1"
       and b = "vp_pending_bdev_detach vq1"]
    by simp
  have "dma_reach (e_api env0) 64 (vp_dma_q ?p) 0 0 [] [] []" using dma_q0_reach by (simp add: env0_def)
  from virtq_keeps_dma_credits [OF p _ _ this, of 0 VIRTQ_CMD_SM_OP_OK] r(2) vq1_eval(1) show ?thesis
    by (auto simp: env0_def)
qed

theorem virtq_bdev_completion_witness:
  "vp_ctrl_used_index (bdev_io_comp_cb env0 True 0 vq2) = 1"
proof -
  let ?c = "vp_cmd_arr vq2 ! 0"
  let ?w = "snap_dma_q_write_short (e_api env0) (vp_dma_q vq2) [if True then c_status ?c else VIRTIO_BLK_S_IOERR]
      (d_addr (c_descs ?c (status_desc ?c))) (va_dma_mkey vq2)"
  let ?s = "snap_dma_q_send_completion (e_api env0) (snd ?w)
      (le32 (ucast (c_descr_head_idx ?c)) @ le32 (c_total_in_len ?c + 1))"
  have w: "fst ?w = 0" by code_simp
  have s: "fst ?s = 0" by code_simp
  have "e_send_status env0 = None" "e_send_comp env0 = TunnelComp" by (simp_all add: env0_def)
  from virtq_bdev_completion [OF refl _ _ this, where p = vq2 and i = 0 and success = True and ?q1.0 = "snd ?w" and ?q2.0 = "snd ?s"] show ?thesis
    using w s vq2_eval by (simp add: prod_eq_iff)
qed

theorem virtq_empty_read_hangs_witness:
  "vp_dma_q (bdev_io_comp_cb env0 True 0 (set_cmd 0 (\<lambda>c. c\<lparr>c_state := VIRTQ_CMD_STATE_IN_DATA_DONE\<rparr>) vq2)) = vp_dma_q vq2"
proof -
  let ?p = "set_cmd 0 (\<lambda>c. c\<lparr>c_state := VIRTQ_CMD_STATE_IN_DATA_DONE\<rparr>) vq2"
  have "0 < length (vp_cmd_arr ?p)" "c_state (vp_cmd_arr ?p ! 0) = VIRTQ_CMD_STATE_IN_DATA_DONE" "vp_dma_q ?p = vp_dma_q vq2"
    using vq2_eval(1) by (simp_all add: set_cmd_def)
  moreover have "c_num_desc (vp_cmd_arr ?p ! 0) = 2" by code_simp
  ultimately show ?thesis using virtq_empty_read_hangs [OF _ refl _ _ refl, of 0 ?p env0] by simp
qed

theorem virtq_suspend_quiescent_witness:
  "\<exists>p'. virtq_progress_suspend env0 (\<lambda>q. q) (vq0\<lparr>vp_swq_state := SW_VIRTQ_FLUSHING\<rparr>) = Some p' \<and> virtq_is_suspended p'"
proof -
  let ?p = "vq0\<lparr>vp_swq_state := SW_VIRTQ_FLUSHING\<rparr>"
  have r: "virtq_reach 0 ?p (\<lambda>_. WDone) []"
    using vq_other [OF vq0_reach, where q = "vp_dma_q vq0" and s = SW_VIRTQ_FLUSHING and t = "vp_thread_id vq0"
       and g = "vp_pg_id vq0" and b = "vp_pending_bdev_detach vq0"]
    by (simp add: vq0_def)
  have "map_option virtq_is_suspended (virtq_progress_suspend env0 (\<lambda>q. q) ?p) = Some True" by code_simp
  then obtain p' where p: "virtq_progress_suspend env0 (\<lambda>q. q) ?p = Some p'" "virtq_is_suspended p'" by auto
  have n: "\<not> virtq_is_suspended ?p" "0 < length (vp_cmd_arr ?p)" by (simp_all add: virtq_is_suspended_def vq0_def)
  from virtq_suspend_quiescent [OF r p(1) n(1) p(2) n(2)] p show ?thesis by blast
qed


end
