(* ===== verification/Poll_Groups.thy ===== *)
theory Poll_Groups
  imports Snap_Prelude
begin

text \<open>
  The polling groups of \<^verbatim>\<open>ctrl/snap_poll_groups.c\<close>: every controller has its own groups, each
  with the list of the queues it polls and a spin lock; the number of queues that all controllers
  have put into the group of each index is kept in one process-wide array, which
  \<^verbatim>\<open>snap_pg_get_next\<close> uses to choose the least loaded group.

  Queues are identified by their address. \<^term>\<open>lock_fault\<close> records that a lock was taken
  while it was held or released while it was free.
\<close>

section \<open>State\<close>

record snap_pg =
  pg_id :: int
  q_list :: "nat list"
  pg_locked :: bool

record snap_pg_ctx =
  pgs :: "snap_pg list"
  npgs :: nat
  lock_fault :: bool

record pg_globals =
  virtio_pg_usage :: "u64 list option"
  virtio_pg_ref_count :: u64

section \<open>Operations\<close>

text \<open>\<^term>\<open>calloc_pgs\<close> and \<^term>\<open>calloc_usage\<close> say whether the allocations succeed.\<close>

definition snap_pgs_alloc :: "bool \<Rightarrow> bool \<Rightarrow> nat \<Rightarrow> pg_globals \<Rightarrow> int \<times> snap_pg_ctx \<times> pg_globals" where
  "snap_pgs_alloc calloc_pgs calloc_usage n g =
     (let ctx0 = \<lparr>pgs = [], npgs = 0, lock_fault = False\<rparr>;
          ctx = \<lparr>pgs = replicate n \<lparr>pg_id = 0, q_list = [], pg_locked = False\<rparr>, npgs = n, lock_fault = False\<rparr>
      in if \<not> calloc_pgs then (- 1, ctx0, g)
         else if virtio_pg_usage g = None \<and> \<not> calloc_usage then (- 1, ctx0, g)
         else
           let g = (if virtio_pg_usage g = None
                    then g\<lparr>virtio_pg_usage := Some (replicate n 0), virtio_pg_ref_count := 0\<rparr> else g)
           in (0, ctx, g\<lparr>virtio_pg_ref_count := virtio_pg_ref_count g + 1\<rparr>))"

definition snap_pgs_free :: "snap_pg_ctx \<Rightarrow> pg_globals \<Rightarrow> pg_globals" where
  "snap_pgs_free ctx g =
     (if npgs ctx = 0 then g
      else
        let g = g\<lparr>virtio_pg_ref_count := virtio_pg_ref_count g - 1\<rparr>
        in if virtio_pg_ref_count g = 0 then g\<lparr>virtio_pg_usage := None\<rparr> else g)"

definition pg_lock :: "nat \<Rightarrow> snap_pg_ctx \<Rightarrow> snap_pg_ctx" where
  "pg_lock i ctx =
     (if pg_locked (pgs ctx ! i) then ctx\<lparr>lock_fault := True\<rparr>
      else ctx\<lparr>pgs := (pgs ctx)[i := (pgs ctx ! i)\<lparr>pg_locked := True\<rparr>]\<rparr>)"

definition pg_unlock :: "nat \<Rightarrow> snap_pg_ctx \<Rightarrow> snap_pg_ctx" where
  "pg_unlock i ctx =
     (if \<not> pg_locked (pgs ctx ! i) then ctx\<lparr>lock_fault := True\<rparr>
      else ctx\<lparr>pgs := (pgs ctx)[i := (pgs ctx ! i)\<lparr>pg_locked := False\<rparr>]\<rparr>)"

definition snap_pgs_suspend :: "snap_pg_ctx \<Rightarrow> snap_pg_ctx" where
  "snap_pgs_suspend ctx = fold pg_lock [0..<npgs ctx] ctx"

definition snap_pgs_resume :: "snap_pg_ctx \<Rightarrow> snap_pg_ctx" where
  "snap_pgs_resume ctx = fold pg_unlock (rev [0..<npgs ctx]) ctx"

text \<open>The loop of \<^verbatim>\<open>snap_pg_get_next\<close>: the first index with the smallest usage.\<close>

definition min_usage :: "u64 list \<Rightarrow> nat \<Rightarrow> nat" where
  "min_usage us n = fold (\<lambda>i pg_index. if us ! i < us ! pg_index then i else pg_index) [1..<n] 0"

text \<open>\<open>None\<close> when the code reads outside the usage array.\<close>

definition snap_pg_get_next :: "snap_pg_ctx \<Rightarrow> pg_globals \<Rightarrow> (nat \<times> snap_pg_ctx \<times> pg_globals) option" where
  "snap_pg_get_next ctx g =
     (case virtio_pg_usage g of
        None \<Rightarrow> None
      | Some us \<Rightarrow>
          if length us < max 1 (npgs ctx) then None
          else
            let i = min_usage us (npgs ctx)
            in Some (i, ctx\<lparr>pgs := (pgs ctx)[i := (pgs ctx ! i)\<lparr>pg_id := int i\<rparr>]\<rparr>,
                     g\<lparr>virtio_pg_usage := Some (us[i := us ! i + 1])\<rparr>))"

definition snap_pg_usage_decrease :: "nat \<Rightarrow> pg_globals \<Rightarrow> pg_globals option" where
  "snap_pg_usage_decrease i g =
     (case virtio_pg_usage g of
        None \<Rightarrow> None
      | Some us \<Rightarrow> if length us \<le> i then None else Some (g\<lparr>virtio_pg_usage := Some (us[i := us ! i - 1])\<rparr>))"

definition snap_pg_get_admin :: "snap_pg_ctx \<Rightarrow> nat \<times> snap_pg_ctx" where
  "snap_pg_get_admin ctx = (0, ctx\<lparr>pgs := (pgs ctx)[0 := (pgs ctx ! 0)\<lparr>pg_id := 0\<rparr>]\<rparr>)"

section \<open>Locks\<close>

text \<open>Between calls every lock is free and no lock was misused.\<close>

definition locks_free :: "snap_pg_ctx \<Rightarrow> bool" where
  "locks_free ctx \<longleftrightarrow> length (pgs ctx) = npgs ctx \<and> \<not> lock_fault ctx \<and> list_all (\<lambda>pg. \<not> pg_locked pg) (pgs ctx)"

definition locks_held :: "snap_pg_ctx \<Rightarrow> bool" where
  "locks_held ctx \<longleftrightarrow> length (pgs ctx) = npgs ctx \<and> \<not> lock_fault ctx \<and> list_all pg_locked (pgs ctx)"

lemma pg_lock_map:
  assumes "i \<le> length xs" and "list_all (\<lambda>pg. \<not> pg_locked pg) xs" and "\<not> lock_fault ctx"
  shows "fold pg_lock [0..<i] (ctx\<lparr>pgs := xs\<rparr>) =
     ctx\<lparr>pgs := map (pg_locked_update (\<lambda>_. True)) (take i xs) @ drop i xs\<rparr>"
  using assms(1)
proof (induction i)
  case (Suc i)
  then have "\<not> pg_locked (xs ! i)" using assms(2) by (simp add: list_all_length)
  with Suc show ?case
    by (simp add: pg_lock_def nth_append list_update_append take_Suc_conv_app_nth Cons_nth_drop_Suc [symmetric]
        del: upt_Suc) (simp add: upt_Suc pg_lock_def nth_append list_update_append Cons_nth_drop_Suc [symmetric])
qed simp

lemma pg_unlock_map:
  assumes "i \<le> length xs" and "\<forall>j < i. pg_locked (xs ! j)" and "\<not> lock_fault ctx"
  shows "fold pg_unlock (rev [0..<i]) (ctx\<lparr>pgs := xs\<rparr>) =
     ctx\<lparr>pgs := map (pg_locked_update (\<lambda>_. False)) (take i xs) @ drop i xs\<rparr>"
  using assms(1,2)
proof (induction i arbitrary: xs)
  case (Suc i)
  let ?xs = "xs[i := (xs ! i)\<lparr>pg_locked := False\<rparr>]"
  have "fold pg_unlock (rev [0..<Suc i]) (ctx\<lparr>pgs := xs\<rparr>) = fold pg_unlock (rev [0..<i]) (ctx\<lparr>pgs := ?xs\<rparr>)"
    using Suc.prems by (simp add: pg_unlock_def)
  also have "\<dots> = ctx\<lparr>pgs := map (pg_locked_update (\<lambda>_. False)) (take i ?xs) @ drop i ?xs\<rparr>"
    using Suc.prems by (intro Suc.IH) simp_all
  also have "drop i ?xs = (xs ! i)\<lparr>pg_locked := False\<rparr> # drop (Suc i) xs"
    using Suc.prems by (simp add: drop_update_swap Cons_nth_drop_Suc [symmetric])
  finally show ?case using Suc.prems by (simp add: take_Suc_conv_app_nth)
qed simp

definition set_locks :: "bool \<Rightarrow> snap_pg_ctx \<Rightarrow> snap_pg_ctx" where
  "set_locks b ctx = ctx\<lparr>pgs := map (pg_locked_update (\<lambda>_. b)) (pgs ctx)\<rparr>"

lemma set_locks_simps [simp]:
  "npgs (set_locks b ctx) = npgs ctx" "lock_fault (set_locks b ctx) = lock_fault ctx"
  "length (pgs (set_locks b ctx)) = length (pgs ctx)"
  "i < length (pgs ctx) \<Longrightarrow> q_list (pgs (set_locks b ctx) ! i) = q_list (pgs ctx ! i)"
  "i < length (pgs ctx) \<Longrightarrow> pg_id (pgs (set_locks b ctx) ! i) = pg_id (pgs ctx ! i)"
  by (simp_all add: set_locks_def)

lemma snap_pgs_suspend_locks:
  assumes "locks_free ctx"
  shows "snap_pgs_suspend ctx = set_locks True ctx" and "locks_held (snap_pgs_suspend ctx)"
proof -
  show "snap_pgs_suspend ctx = set_locks True ctx"
    using assms pg_lock_map [of "npgs ctx" "pgs ctx" ctx]
    by (simp add: snap_pgs_suspend_def locks_free_def set_locks_def)
  then show "locks_held (snap_pgs_suspend ctx)"
    using assms by (simp add: locks_held_def locks_free_def set_locks_def list_all_iff)
qed

lemma snap_pgs_resume_locks:
  assumes "locks_held ctx"
  shows "snap_pgs_resume ctx = set_locks False ctx" and "locks_free (snap_pgs_resume ctx)"
proof -
  show "snap_pgs_resume ctx = set_locks False ctx"
    using assms pg_unlock_map [of "npgs ctx" "pgs ctx" ctx]
    by (simp add: snap_pgs_resume_def locks_held_def set_locks_def list_all_length)
  then show "locks_free (snap_pgs_resume ctx)"
    using assms by (simp add: locks_held_def locks_free_def set_locks_def list_all_iff)
qed

lemma locks_free_set_locks: "locks_free ctx \<Longrightarrow> set_locks False (set_locks True ctx) = ctx"
proof -
  assume "locks_free ctx"
  then have "map (pg_locked_update (\<lambda>_. False)) (pgs ctx) = pgs ctx"
    by (intro nth_equalityI) (auto simp: locks_free_def list_all_length)
  then show ?thesis by (simp add: set_locks_def comp_def)
qed

text \<open>Stopping and releasing all groups leaves them as they were.\<close>

lemma snap_pgs_suspend_resume: "locks_free ctx \<Longrightarrow> snap_pgs_resume (snap_pgs_suspend ctx) = ctx"
  using snap_pgs_suspend_locks snap_pgs_resume_locks locks_free_set_locks by metis

section \<open>Choice of a group\<close>

lemma min_usage_least:
  assumes "0 < n"
  shows "min_usage us n < n \<and> (\<forall>j < n. us ! min_usage us n \<le> us ! j) \<and> (\<forall>j < min_usage us n. us ! min_usage us n < us ! j)"
  using assms
proof (induction n)
  case (Suc n)
  show ?case
  proof (cases n)
    case 0
    then show ?thesis by (simp add: min_usage_def)
  next
    case (Suc m)
    let ?b = "min_usage us n"
    have step: "min_usage us (Suc n) = (if us ! n < us ! ?b then n else ?b)"
      using Suc by (simp add: min_usage_def)
    from Suc.IH Suc have ih: "?b < n" "\<forall>j < n. us ! ?b \<le> us ! j" "\<forall>j < ?b. us ! ?b < us ! j" by auto
    show ?thesis
    proof (cases "us ! n < us ! ?b")
      case True
      with ih step show ?thesis by (auto simp: less_Suc_eq intro: order_less_le_trans less_imp_le)
    next
      case False
      with ih step show ?thesis by (auto simp: less_Suc_eq not_less)
    qed
  qed
qed simp

lemma snap_pg_get_next_least:
  assumes "snap_pg_get_next ctx g = Some (i, ctx', g')" and "0 < npgs ctx"
  shows "\<exists>us. virtio_pg_usage g = Some us \<and> i < npgs ctx \<and> (\<forall>j < npgs ctx. us ! i \<le> us ! j) \<and>
     virtio_pg_usage g' = Some (us[i := us ! i + 1])"
  using assms min_usage_least [of "npgs ctx"]
  by (auto simp: snap_pg_get_next_def Let_def split: option.splits if_splits)

definition balanced :: "nat \<Rightarrow> pg_globals \<Rightarrow> bool" where
  "balanced n g \<longleftrightarrow> (\<exists>us. virtio_pg_usage g = Some us \<and> n \<le> length us \<and>
     (\<forall>i < n. \<forall>j < n. unat (us ! i) \<le> unat (us ! j) + 1))"

text \<open>C21. Taking the least used group for a queue keeps the load balanced: if the usage counters of the
  groups differ by at most one before, they do so after, as long as the chosen counter does not wrap.\<close>

theorem snap_pg_get_next_balanced:
  assumes "snap_pg_get_next ctx g = Some (i, ctx', g')" and "0 < npgs ctx" and "balanced (npgs ctx) g"
    and "\<forall>us. virtio_pg_usage g = Some us \<longrightarrow> us ! i \<noteq> - 1"
  shows "balanced (npgs ctx) g'"
proof -
  obtain us where us: "virtio_pg_usage g = Some us" "npgs ctx \<le> length us" "i = min_usage us (npgs ctx)"
    "virtio_pg_usage g' = Some (us[i := us ! i + 1])"
    using assms(1) by (auto simp: snap_pg_get_next_def Let_def split: option.splits if_splits)
  have b: "unat (us ! a) \<le> unat (us ! c) + 1" if "a < npgs ctx" "c < npgs ctx" for a c
    using assms(3) us(1) that by (auto simp: balanced_def)
  have i: "i < npgs ctx" "\<forall>j < npgs ctx. us ! i \<le> us ! j" using min_usage_least [OF assms(2)] us(3) by blast+
  have inc: "unat (us ! i + 1) = unat (us ! i) + 1"
    using assms(4) us(1) by (metis Suc_eq_plus1 add_neg_numeral_special(7) eq_neg_iff_add_eq_0 unatSuc add.commute)
  have le: "unat (us ! i) \<le> unat (us ! j)" if "j < npgs ctx" for j using i(2) that by (simp add: word_le_nat_alt)
  have "unat (us[i := us ! i + 1] ! a) \<le> unat (us[i := us ! i + 1] ! c) + 1"
    if "a < npgs ctx" "c < npgs ctx" for a c
    using b [of a c] le [of c] that i us(2) inc by (auto simp: nth_list_update)
  with us show ?thesis by (auto simp: balanced_def)
qed

theorem snap_pg_get_next_balanced_witness:
  "\<exists>i ctx' g'. snap_pg_get_next \<lparr>pgs = replicate 3 \<lparr>pg_id = 0, q_list = [], pg_locked = False\<rparr>, npgs = 3, lock_fault = False\<rparr>
      \<lparr>virtio_pg_usage = Some [2, 1, 2], virtio_pg_ref_count = 1\<rparr> = Some (i, ctx', g') \<and>
     i = 1 \<and> virtio_pg_usage g' = Some [2, 2, 2] \<and> balanced 3 g'"
proof -
  let ?g = "\<lparr>virtio_pg_usage = Some [2, 1, 2], virtio_pg_ref_count = 1\<rparr>"
  let ?c = "\<lparr>pgs = replicate 3 \<lparr>pg_id = 0, q_list = [], pg_locked = False\<rparr>, npgs = 3, lock_fault = False\<rparr>"
  obtain c' where n: "snap_pg_get_next ?c ?g = Some (1, c', \<lparr>virtio_pg_usage = Some [2, 2, 2], virtio_pg_ref_count = 1\<rparr>)"
    by (simp add: snap_pg_get_next_def min_usage_def upt_rec Let_def numeral_3_eq_3)
  have b: "balanced 3 ?g" by (auto simp: balanced_def less_Suc_eq numeral_3_eq_3)
  from snap_pg_get_next_balanced [OF n] b have "balanced 3 \<lparr>virtio_pg_usage = Some [2, 2, 2], virtio_pg_ref_count = 1\<rparr>" by simp
  with n show ?thesis by simp
qed

text \<open>The usage array has the size that the first controller asked for. A controller with more groups
  reads behind it.\<close>

lemma snap_pgs_usage_overrun:
  assumes "snap_pgs_alloc True True n \<lparr>virtio_pg_usage = None, virtio_pg_ref_count = 0\<rparr> = (0, ctx1, g1)"
    and "snap_pgs_alloc True True m g1 = (0, ctx2, g2)" and "n < m"
  shows "snap_pg_get_next ctx2 g2 = None"
  using assms by (auto simp: snap_pgs_alloc_def snap_pg_get_next_def Let_def)

end
