(* ===== verification/Virtio_Ctrl.thy ===== *)
theory Virtio_Ctrl
  imports Poll_Groups
begin

text \<open>
  The life cycle of a virtio controller, \<^verbatim>\<open>ctrl/snap_virtio_common_ctrl.c\<close>: starting,
  suspending, resuming and stopping the queues, the reaction to changes of the device registers
  (DRIVER_OK, reset, function-level reset), and the live-migration states.

  Queues are objects of an explicit heap: \<^verbatim>\<open>ctrl->queues\<close> and the lists of the polling groups
  hold their addresses, so that a destroyed queue that is still referenced is visible. \<^verbatim>\<open>fault\<close>
  records the use of a destroyed queue, an access outside the usage array, and a progress lock that
  is taken twice or released while free. The implementation of the queues (\<^verbatim>\<open>q_ops\<close>), the device
  registers (\<^verbatim>\<open>bar_ops\<close>) and the callbacks of the application are arguments: function pointers in
  the code. The n-th query of the device registers is a function of n.
\<close>

section \<open>Data\<close>

datatype snap_virtio_ctrl_state =
    SNAP_VIRTIO_CTRL_STOPPED
  | SNAP_VIRTIO_CTRL_STARTED
  | SNAP_VIRTIO_CTRL_SUSPENDED
  | SNAP_VIRTIO_CTRL_SUSPENDING

datatype snap_virtio_ctrl_lm_state =
    SNAP_VIRTIO_CTRL_LM_INIT
  | SNAP_VIRTIO_CTRL_LM_RUNNING
  | SNAP_VIRTIO_CTRL_LM_QUIESCED
  | SNAP_VIRTIO_CTRL_LM_FREEZED

abbreviation (input) SNAP_VIRTIO_DEVICE_S_ACKNOWLEDGE :: u8 where "SNAP_VIRTIO_DEVICE_S_ACKNOWLEDGE \<equiv> 1"
abbreviation (input) SNAP_VIRTIO_DEVICE_S_DRIVER_OK :: u8 where "SNAP_VIRTIO_DEVICE_S_DRIVER_OK \<equiv> 4"
abbreviation (input) SNAP_VIRTIO_DEVICE_S_DEVICE_NEEDS_RESET :: u8 where "SNAP_VIRTIO_DEVICE_S_DEVICE_NEEDS_RESET \<equiv> 64"
abbreviation (input) SNAP_VIRTIO_DEVICE_S_FAILED :: u8 where "SNAP_VIRTIO_DEVICE_S_FAILED \<equiv> 128"
abbreviation (input) SNAP_VIRTIO_MOD_DEV_STATUS :: u64 where "SNAP_VIRTIO_MOD_DEV_STATUS \<equiv> 1"
abbreviation (input) SNAP_VIRTIO_MOD_RESET :: u64 where "SNAP_VIRTIO_MOD_RESET \<equiv> 4"
abbreviation (input) SNAP_VIRTIO_MOD_PCI_HOTPLUG_STATE :: u64 where "SNAP_VIRTIO_MOD_PCI_HOTPLUG_STATE \<equiv> 1024"

datatype snap_virtio_adm_status_qualifier =
    SNAP_VIRTIO_ADMIN_STATUS_Q_OK
  | SNAP_VIRTIO_ADMIN_STATUS_Q_INVALID_COMMAND
  | SNAP_VIRTIO_ADMIN_STATUS_Q_INVALID_OPCODE
  | SNAP_VIRTIO_ADMIN_STATUS_Q_INVALID_FIELD
  | SNAP_VIRTIO_ADMIN_STATUS_Q_INVALID_GROUP
  | SNAP_VIRTIO_ADMIN_STATUS_Q_INVALID_MEMBER
  | SNAP_VIRTIO_ADMIN_STATUS_Q_NORESOURCE
  | SNAP_VIRTIO_ADMIN_STATUS_Q_TRYAGAIN

record snap_virtio_queue_attr =
  va_size :: u16
  va_msix_vector :: u16
  va_enable :: u16
  va_notify_off :: u16
  va_desc :: u64
  va_driver :: u64
  va_device :: u64

text \<open>The part of the attributes that only a block device has, \<^verbatim>\<open>snap_virtio_blk_device_attr\<close>; \<open>ba_hw_index\<close>
  holds the pairs of \<^verbatim>\<open>hw_available_index\<close> and \<^verbatim>\<open>hw_used_index\<close> of its queues.\<close>

record snap_virtio_blk_attr =
  ba_capacity :: u64
  ba_size_max :: u32
  ba_seg_max :: u32
  ba_blk_size :: u32
  ba_max_blk_queues :: u16
  ba_hw_index :: "(u16 \<times> u16) list"

record snap_virtio_device_attr =
  device_feature :: u64
  driver_feature :: u64
  msix_config :: u16
  attr_max_queues :: u16
  attr_max_queue_size :: u16
  num_msix :: u16
  pci_bdf :: u16
  status :: u8
  enabled :: bool
  reset :: bool
  num_of_vfs :: u16
  config_generation :: u8
  device_feature_select :: u8
  driver_feature_select :: u8
  queue_select :: u16
  pci_hotplug_state :: u8
  q_attrs :: "snap_virtio_queue_attr list"
  blk_attr :: snap_virtio_blk_attr

record 'q snap_virtio_ctrl_queue =
  cq_index :: nat
  cq_pg :: "nat option"
  cq_log_writes_to_host :: bool
  cq_thread_id :: int
  cq_impl :: 'q

text \<open>\<^verbatim>\<open>quiesce_cmd\<close> is the pending admin command; \<^verbatim>\<open>adm_completed\<close> lists the commands
  whose completion was reported, \<^verbatim>\<open>vfs_changed\<close> the numbers of virtual functions reported to the
  application or to the scan of the functions.\<close>

record 'q snap_virtio_ctrl =
  ctrl_state :: snap_virtio_ctrl_state
  progress_locked :: bool
  transitional_device :: bool
  max_queues :: nat
  queues :: "nat option list"
  heap :: "nat \<Rightarrow> 'q snap_virtio_ctrl_queue option"
  heap_next :: nat
  bar_curr :: snap_virtio_device_attr
  bar_prev :: snap_virtio_device_attr
  bar_queries :: nat
  pg_ctx :: snap_pg_ctx
  pg_glob :: pg_globals
  log_writes_to_host :: bool
  pending_reset :: bool
  ignore_reset :: bool
  pending_flr :: bool
  lm_state :: snap_virtio_ctrl_lm_state
  is_quiesce :: bool
  quiesce_cmd :: "nat option"
  adm_completed :: "(nat \<times> snap_virtio_adm_status_qualifier) list"
  pending_resume :: bool
  vfs_changed :: "u16 list"
  fault :: bool

text \<open>The queue implementation. \<^verbatim>\<open>create\<close> sees the controller state and the registers; \<^verbatim>\<open>start\<close> the
  index of the polling group.\<close>

record 'q snap_virtio_queue_ops =
  qo_create :: "snap_virtio_ctrl_state \<Rightarrow> snap_virtio_device_attr \<Rightarrow> nat \<Rightarrow> 'q option"
  qo_progress :: "int \<Rightarrow> 'q \<Rightarrow> int \<times> 'q"
  qo_start :: "(int \<Rightarrow> 'q \<Rightarrow> 'q) option"
  qo_suspend :: "('q \<Rightarrow> 'q) option"
  qo_is_suspended :: "'q \<Rightarrow> bool"
  qo_resume :: "(snap_virtio_device_attr \<Rightarrow> nat \<Rightarrow> 'q \<Rightarrow> int \<times> 'q) option"
  qo_get_state :: "('q \<Rightarrow> int \<times> u16 \<times> u16) option"
  qo_is_admin :: "('q \<Rightarrow> bool) option"

text \<open>The register operations and the application callbacks. A callback that is not set is \<open>None\<close>.\<close>

record 'q ctrl_env =
  q_ops :: "'q snap_virtio_queue_ops"
  bo_copy :: "snap_virtio_device_attr \<Rightarrow> snap_virtio_device_attr \<Rightarrow> snap_virtio_device_attr"
  bo_update :: "nat \<Rightarrow> snap_virtio_device_attr \<Rightarrow> int \<times> snap_virtio_device_attr"
  bo_modify :: "u64 \<Rightarrow> snap_virtio_device_attr \<Rightarrow> int"
  bo_get_attr :: "(int \<times> snap_virtio_device_attr) option"
  cb_validate :: "int option"
  cb_start :: "int option"
  cb_stop :: "int option"
  cb_pre_flr :: "int option"
  snap_open_device :: "nat \<Rightarrow> bool"

section \<open>Registers\<close>

definition SNAP_VIRTIO_CTRL_RESET_DETECTED :: "'q snap_virtio_ctrl \<Rightarrow> bool" where
  "SNAP_VIRTIO_CTRL_RESET_DETECTED c \<longleftrightarrow> reset (bar_curr c)"

definition SNAP_VIRTIO_CTRL_FLR_DETECTED :: "'q snap_virtio_ctrl \<Rightarrow> bool" where
  "SNAP_VIRTIO_CTRL_FLR_DETECTED c \<longleftrightarrow> \<not> enabled (bar_curr c)"

definition SNAP_VIRTIO_CTRL_LIVE_DETECTED :: "'q snap_virtio_ctrl \<Rightarrow> bool" where
  "SNAP_VIRTIO_CTRL_LIVE_DETECTED c \<longleftrightarrow> status (bar_curr c) AND SNAP_VIRTIO_DEVICE_S_DRIVER_OK \<noteq> 0"

definition snap_virtio_ctrl_critical_bar_change_detected :: "'q snap_virtio_ctrl \<Rightarrow> bool" where
  "snap_virtio_ctrl_critical_bar_change_detected c \<longleftrightarrow>
     status (bar_curr c) \<noteq> status (bar_prev c) \<or> enabled (bar_curr c) \<noteq> enabled (bar_prev c) \<or>
     SNAP_VIRTIO_CTRL_RESET_DETECTED c \<or> SNAP_VIRTIO_CTRL_FLR_DETECTED c"

definition snap_virtio_ctrl_bar_copy ::
  "'q ctrl_env \<Rightarrow> snap_virtio_device_attr \<Rightarrow> snap_virtio_device_attr \<Rightarrow> snap_virtio_device_attr"
where
  "snap_virtio_ctrl_bar_copy env orig copy =
     (bo_copy env orig copy)\<lparr>status := status orig, enabled := enabled orig, reset := reset orig,
        num_of_vfs := num_of_vfs orig, pci_hotplug_state := pci_hotplug_state orig\<rparr>"

definition snap_virtio_ctrl_bar_query :: "'q ctrl_env \<Rightarrow> 'q snap_virtio_ctrl \<Rightarrow> int \<times> 'q snap_virtio_ctrl" where
  "snap_virtio_ctrl_bar_query env c =
     (let (ret, bar) = bo_update env (bar_queries c) (bar_curr c)
      in (ret, c\<lparr>bar_curr := bar, bar_queries := bar_queries c + 1\<rparr>))"

definition snap_virtio_ctrl_bar_update :: "'q ctrl_env \<Rightarrow> 'q snap_virtio_ctrl \<Rightarrow> int \<times> 'q snap_virtio_ctrl" where
  "snap_virtio_ctrl_bar_update env c =
     snap_virtio_ctrl_bar_query env (c\<lparr>bar_prev := snap_virtio_ctrl_bar_copy env (bar_curr c) (bar_prev c)\<rparr>)"

definition snap_virtio_ctrl_is_stopped :: "'q snap_virtio_ctrl \<Rightarrow> bool" where
  "snap_virtio_ctrl_is_stopped c \<longleftrightarrow> ctrl_state c = SNAP_VIRTIO_CTRL_STOPPED"

definition snap_virtio_ctrl_is_suspended :: "'q snap_virtio_ctrl \<Rightarrow> bool" where
  "snap_virtio_ctrl_is_suspended c \<longleftrightarrow> ctrl_state c = SNAP_VIRTIO_CTRL_SUSPENDED"

definition snap_virtio_ctrl_is_configurable :: "'q ctrl_env \<Rightarrow> bool" where
  "snap_virtio_ctrl_is_configurable env =
     (case bo_get_attr env of
        None \<Rightarrow> True
      | Some (_, vattr) \<Rightarrow>
          status vattr AND NOT (SNAP_VIRTIO_DEVICE_S_DEVICE_NEEDS_RESET OR SNAP_VIRTIO_DEVICE_S_ACKNOWLEDGE OR
            SNAP_VIRTIO_DEVICE_S_FAILED) = 0)"

definition snap_virtio_ctrl_device_error :: "'q ctrl_env \<Rightarrow> 'q snap_virtio_ctrl \<Rightarrow> int \<times> 'q snap_virtio_ctrl" where
  "snap_virtio_ctrl_device_error env c =
     (if transitional_device c then (0, c)
      else
        let c = c\<lparr>bar_curr := (bar_curr c)\<lparr>status := status (bar_curr c) OR SNAP_VIRTIO_DEVICE_S_DEVICE_NEEDS_RESET\<rparr>\<rparr>
        in (bo_modify env SNAP_VIRTIO_MOD_DEV_STATUS (bar_curr c), c))"

definition snap_virtio_ctrl_clear_reset :: "'q ctrl_env \<Rightarrow> 'q snap_virtio_ctrl \<Rightarrow> int \<times> 'q snap_virtio_ctrl" where
  "snap_virtio_ctrl_clear_reset env c =
     (let c = c\<lparr>bar_curr := (bar_curr c)\<lparr>reset := False\<rparr>\<rparr>;
          ret = bo_modify env SNAP_VIRTIO_MOD_RESET (bar_curr c)
      in if ret \<noteq> 0 then (ret, c) else (0, c\<lparr>bar_curr := (bar_curr c)\<lparr>status := 0\<rparr>\<rparr>))"

definition snap_virtio_ctrl_hotunplug :: "'q ctrl_env \<Rightarrow> u8 \<Rightarrow> 'q snap_virtio_ctrl \<Rightarrow> int \<times> 'q snap_virtio_ctrl" where
  "snap_virtio_ctrl_hotunplug env hotunplug_prepare c =
     (let c = c\<lparr>bar_curr := (bar_curr c)\<lparr>pci_hotplug_state := hotunplug_prepare\<rparr>\<rparr>
      in (bo_modify env SNAP_VIRTIO_MOD_PCI_HOTPLUG_STATE (bar_curr c), c))"

section \<open>Queues and their polling groups\<close>

text \<open>Every access through a queue pointer: a destroyed queue is a fault.\<close>

definition with_q ::
  "nat \<Rightarrow> ('q snap_virtio_ctrl_queue \<Rightarrow> 'q snap_virtio_ctrl \<Rightarrow> 'q snap_virtio_ctrl) \<Rightarrow> 'q snap_virtio_ctrl \<Rightarrow> 'q snap_virtio_ctrl"
where
  "with_q vq f c = (case heap c vq of None \<Rightarrow> c\<lparr>fault := True\<rparr> | Some q \<Rightarrow> f q c)"

definition set_q :: "nat \<Rightarrow> 'q snap_virtio_ctrl_queue \<Rightarrow> 'q snap_virtio_ctrl \<Rightarrow> 'q snap_virtio_ctrl" where
  "set_q vq q c = c\<lparr>heap := (heap c)(vq := Some q)\<rparr>"

definition is_admin_q :: "'q ctrl_env \<Rightarrow> 'q snap_virtio_ctrl_queue \<Rightarrow> bool" where
  "is_admin_q env q = (case qo_is_admin (q_ops env) of None \<Rightarrow> False | Some f \<Rightarrow> f (cq_impl q))"

definition pg_q_list_upd :: "nat \<Rightarrow> (nat list \<Rightarrow> nat list) \<Rightarrow> 'q snap_virtio_ctrl \<Rightarrow> 'q snap_virtio_ctrl" where
  "pg_q_list_upd pg f c =
     c\<lparr>pg_ctx := (pg_ctx c)\<lparr>pgs := (pgs (pg_ctx c))[pg := (pgs (pg_ctx c) ! pg)\<lparr>q_list := f (q_list (pgs (pg_ctx c) ! pg))\<rparr>]\<rparr>\<rparr>"

definition snap_virtio_ctrl_sched_q_nolock :: "'q ctrl_env \<Rightarrow> nat \<Rightarrow> nat \<Rightarrow> 'q snap_virtio_ctrl \<Rightarrow> 'q snap_virtio_ctrl" where
  "snap_virtio_ctrl_sched_q_nolock env vq pg =
     with_q vq (\<lambda>q c.
       let c = pg_q_list_upd pg (\<lambda>l. l @ [vq]) c;
           q = q\<lparr>cq_pg := Some pg\<rparr>;
           q = (case qo_start (q_ops env) of
                  None \<Rightarrow> q
                | Some start \<Rightarrow> q\<lparr>cq_impl := start (pg_id (pgs (pg_ctx c) ! pg)) (cq_impl q)\<rparr>)
       in set_q vq q c)"

definition snap_virtio_ctrl_next_pg_get ::
  "'q ctrl_env \<Rightarrow> 'q snap_virtio_ctrl_queue \<Rightarrow> 'q snap_virtio_ctrl \<Rightarrow> nat \<times> 'q snap_virtio_ctrl"
where
  "snap_virtio_ctrl_next_pg_get env q c =
     (if is_admin_q env q
      then let (pg, ctx) = snap_pg_get_admin (pg_ctx c) in (pg, c\<lparr>pg_ctx := ctx\<rparr>)
      else case snap_pg_get_next (pg_ctx c) (pg_glob c) of
             None \<Rightarrow> (0, c\<lparr>fault := True\<rparr>)
           | Some (pg, ctx, g) \<Rightarrow> (pg, c\<lparr>pg_ctx := ctx, pg_glob := g\<rparr>))"

definition snap_virtio_ctrl_sched_q :: "'q ctrl_env \<Rightarrow> nat \<Rightarrow> 'q snap_virtio_ctrl \<Rightarrow> 'q snap_virtio_ctrl" where
  "snap_virtio_ctrl_sched_q env vq =
     with_q vq (\<lambda>q c.
       let (pg, c) = snap_virtio_ctrl_next_pg_get env q c;
           c = c\<lparr>pg_ctx := pg_lock pg (pg_ctx c)\<rparr>;
           c = snap_virtio_ctrl_sched_q_nolock env vq pg c
       in c\<lparr>pg_ctx := pg_unlock pg (pg_ctx c)\<rparr>)"

definition snap_virtio_ctrl_desched_q_nolock :: "nat \<Rightarrow> 'q snap_virtio_ctrl \<Rightarrow> 'q snap_virtio_ctrl" where
  "snap_virtio_ctrl_desched_q_nolock vq =
     with_q vq (\<lambda>q c.
       case cq_pg q of
         None \<Rightarrow> c
       | Some pg \<Rightarrow> set_q vq (q\<lparr>cq_pg := None\<rparr>) (pg_q_list_upd pg (remove1 vq) c))"

definition snap_virtio_ctrl_desched_q :: "'q ctrl_env \<Rightarrow> nat \<Rightarrow> 'q snap_virtio_ctrl \<Rightarrow> 'q snap_virtio_ctrl" where
  "snap_virtio_ctrl_desched_q env vq =
     with_q vq (\<lambda>q c.
       case cq_pg q of
         None \<Rightarrow> c
       | Some pg \<Rightarrow>
           let c = c\<lparr>pg_ctx := pg_lock pg (pg_ctx c)\<rparr>;
               c = (if is_admin_q env q then c
                    else case snap_pg_usage_decrease (nat (pg_id (pgs (pg_ctx c) ! pg))) (pg_glob c) of
                           None \<Rightarrow> c\<lparr>fault := True\<rparr>
                         | Some g \<Rightarrow> c\<lparr>pg_glob := g\<rparr>);
               c = snap_virtio_ctrl_desched_q_nolock vq c
           in c\<lparr>pg_ctx := pg_unlock pg (pg_ctx c)\<rparr>)"

definition snap_virtio_ctrl_queue_create ::
  "'q ctrl_env \<Rightarrow> nat \<Rightarrow> 'q snap_virtio_ctrl \<Rightarrow> nat option \<times> 'q snap_virtio_ctrl"
where
  "snap_virtio_ctrl_queue_create env index c =
     (case qo_create (q_ops env) (ctrl_state c) (bar_curr c) index of
        None \<Rightarrow> (None, c)
      | Some impl \<Rightarrow>
          let vq = heap_next c;
              c = set_q vq \<lparr>cq_index = index, cq_pg = None, cq_log_writes_to_host = log_writes_to_host c, cq_thread_id = 0,
                     cq_impl = impl\<rparr> (c\<lparr>heap_next := heap_next c + 1\<rparr>);
              c = (if snap_virtio_ctrl_is_suspended c then c else snap_virtio_ctrl_sched_q env vq c)
          in (Some vq, c))"

definition snap_virtio_ctrl_queue_destroy :: "'q ctrl_env \<Rightarrow> nat \<Rightarrow> 'q snap_virtio_ctrl \<Rightarrow> 'q snap_virtio_ctrl" where
  "snap_virtio_ctrl_queue_destroy env vq c =
     with_q vq (\<lambda>_ c. c\<lparr>heap := (heap c)(vq := None)\<rparr>) (snap_virtio_ctrl_desched_q env vq c)"

section \<open>Start and stop\<close>

definition vq_enabled :: "'q snap_virtio_ctrl \<Rightarrow> nat \<Rightarrow> bool" where
  "vq_enabled c i =
     (let vq = q_attrs (bar_curr c) ! i
      in if transitional_device c then va_desc vq \<noteq> 0 else va_enable vq \<noteq> 0)"

text \<open>The loop that creates the queues: where it stopped and whether it failed there.\<close>

fun create_queues :: "'q ctrl_env \<Rightarrow> nat list \<Rightarrow> 'q snap_virtio_ctrl \<Rightarrow> nat option \<times> 'q snap_virtio_ctrl" where
  "create_queues env [] c = (None, c)"
| "create_queues env (i # is) c =
     (if vq_enabled c i
      then let (vq, c) = snap_virtio_ctrl_queue_create env i c;
               c = c\<lparr>queues := (queues c)[i := vq]\<rparr>
           in if vq = None then (Some i, c) else create_queues env is c
      else create_queues env is c)"

definition vq_cleanup :: "'q ctrl_env \<Rightarrow> nat \<Rightarrow> 'q snap_virtio_ctrl \<Rightarrow> 'q snap_virtio_ctrl" where
  "vq_cleanup env i c =
     fold (\<lambda>j c. case queues c ! j of None \<Rightarrow> c | Some vq \<Rightarrow> snap_virtio_ctrl_queue_destroy env vq c) [0..<i] c"

definition snap_virtio_ctrl_start :: "'q ctrl_env \<Rightarrow> 'q snap_virtio_ctrl \<Rightarrow> int \<times> 'q snap_virtio_ctrl" where
  "snap_virtio_ctrl_start env c =
     (let (ret, c) =
        (if ctrl_state c = SNAP_VIRTIO_CTRL_STARTED then (0, c)
         else if ctrl_state c = SNAP_VIRTIO_CTRL_SUSPENDING then (- EINVAL, c)
         else
           let (failed, c) = create_queues env [0..<max_queues c] c
           in case failed of
                Some i \<Rightarrow> (- ENOMEM, vq_cleanup env i c)
              | None \<Rightarrow>
                  let ret = (case cb_start env of None \<Rightarrow> 0 | Some r \<Rightarrow> r)
                  in if ret \<noteq> 0 then (ret, vq_cleanup env (max_queues c) (snd (snap_virtio_ctrl_device_error env c)))
                     else if ctrl_state c \<noteq> SNAP_VIRTIO_CTRL_SUSPENDED
                     then (0, c\<lparr>ctrl_state := SNAP_VIRTIO_CTRL_STARTED\<rparr>)
                     else (0, c))
      in (ret, if ctrl_state c = SNAP_VIRTIO_CTRL_STARTED then c\<lparr>lm_state := SNAP_VIRTIO_CTRL_LM_RUNNING\<rparr> else c))"

definition stop_queue :: "'q ctrl_env \<Rightarrow> nat \<Rightarrow> 'q snap_virtio_ctrl \<Rightarrow> 'q snap_virtio_ctrl" where
  "stop_queue env i c =
     (case queues c ! i of
        None \<Rightarrow> c
      | Some vq \<Rightarrow> (snap_virtio_ctrl_queue_destroy env vq c)\<lparr>queues := (queues c)[i := None]\<rparr>)"

definition snap_virtio_ctrl_stop :: "'q ctrl_env \<Rightarrow> 'q snap_virtio_ctrl \<Rightarrow> int \<times> 'q snap_virtio_ctrl" where
  "snap_virtio_ctrl_stop env c =
     (if ctrl_state c = SNAP_VIRTIO_CTRL_STOPPED then (0, c)
      else
        let c = fold (stop_queue env) [0..<max_queues c] c;
            ret = (case cb_stop env of None \<Rightarrow> 0 | Some r \<Rightarrow> r)
        in if ret \<noteq> 0 then (ret, c) else (0, c\<lparr>ctrl_state := SNAP_VIRTIO_CTRL_STOPPED\<rparr>))"

definition snap_virtio_ctrl_reset :: "'q ctrl_env \<Rightarrow> 'q snap_virtio_ctrl \<Rightarrow> int \<times> 'q snap_virtio_ctrl" where
  "snap_virtio_ctrl_reset env c =
     (let (ret, c) = snap_virtio_ctrl_stop env c
      in if ret \<noteq> 0 then (ret, c)
         else if \<not> transitional_device c \<and> pci_bdf (bar_curr c) \<noteq> 0 then snap_virtio_ctrl_clear_reset env c
         else (0, c))"

section \<open>Suspend and resume\<close>

definition suspend_queue :: "('q \<Rightarrow> 'q) \<Rightarrow> nat \<Rightarrow> 'q snap_virtio_ctrl \<Rightarrow> 'q snap_virtio_ctrl" where
  "suspend_queue f i c =
     (case queues c ! i of
        None \<Rightarrow> c
      | Some vq \<Rightarrow> with_q vq (\<lambda>q c. set_q vq (q\<lparr>cq_impl := f (cq_impl q)\<rparr>) c) c)"

definition pgs_suspend :: "'q snap_virtio_ctrl \<Rightarrow> 'q snap_virtio_ctrl" where
  "pgs_suspend c = c\<lparr>pg_ctx := snap_pgs_suspend (pg_ctx c)\<rparr>"

definition pgs_resume :: "'q snap_virtio_ctrl \<Rightarrow> 'q snap_virtio_ctrl" where
  "pgs_resume c = c\<lparr>pg_ctx := snap_pgs_resume (pg_ctx c)\<rparr>"

definition snap_virtio_ctrl_suspend :: "'q ctrl_env \<Rightarrow> 'q snap_virtio_ctrl \<Rightarrow> int \<times> 'q snap_virtio_ctrl" where
  "snap_virtio_ctrl_suspend env c =
     (if ctrl_state c = SNAP_VIRTIO_CTRL_SUSPENDING then (0, c)
      else if ctrl_state c \<noteq> SNAP_VIRTIO_CTRL_STARTED then (- EINVAL, c)
      else case qo_suspend (q_ops env) of
             None \<Rightarrow> (0, c\<lparr>ctrl_state := SNAP_VIRTIO_CTRL_SUSPENDED\<rparr>)
           | Some f \<Rightarrow>
               (0, (pgs_resume (fold (suspend_queue f) [0..<max_queues c] (pgs_suspend c)))
                     \<lparr>ctrl_state := SNAP_VIRTIO_CTRL_SUSPENDING\<rparr>))"

text \<open>The queue loop of \<^verbatim>\<open>snap_virtio_ctrl_resume\<close> with the number of resumed queues.\<close>

fun resume_queues ::
  "'q ctrl_env \<Rightarrow> (snap_virtio_device_attr \<Rightarrow> nat \<Rightarrow> 'q \<Rightarrow> int \<times> 'q) \<Rightarrow> nat list \<Rightarrow> nat \<Rightarrow> 'q snap_virtio_ctrl \<Rightarrow>
   int \<times> nat \<times> 'q snap_virtio_ctrl"
where
  "resume_queues env f [] n c = (0, n, c)"
| "resume_queues env f (i # is) n c =
     (case queues c ! i of
        None \<Rightarrow> resume_queues env f is n c
      | Some vq \<Rightarrow>
          (case heap c vq of
             None \<Rightarrow> resume_queues env f is (n + 1) (c\<lparr>fault := True\<rparr>)
           | Some q \<Rightarrow>
               let (ret, impl) = f (bar_curr c) (cq_index q) (cq_impl q);
                   q = q\<lparr>cq_impl := impl\<rparr>;
                   c = set_q vq q c
               in if ret \<noteq> 0 then (ret, n, c)
                  else
                    let (pg, c) = (case cq_pg q of
                                     Some pg \<Rightarrow> (pg, c)
                                   | None \<Rightarrow> snap_virtio_ctrl_next_pg_get env q c);
                        c = snap_virtio_ctrl_desched_q_nolock vq c;
                        c = snap_virtio_ctrl_sched_q_nolock env vq pg c
                    in resume_queues env f is (n + 1) c))"

definition snap_virtio_ctrl_resume :: "'q ctrl_env \<Rightarrow> 'q snap_virtio_ctrl \<Rightarrow> int \<times> 'q snap_virtio_ctrl" where
  "snap_virtio_ctrl_resume env c =
     (if snap_virtio_ctrl_is_stopped c then (0, c)
      else if \<not> snap_virtio_ctrl_is_suspended c then (0, c\<lparr>pending_resume := True\<rparr>)
      else if qo_suspend (q_ops env) = None then (0, c\<lparr>ctrl_state := SNAP_VIRTIO_CTRL_STARTED\<rparr>)
      else case qo_resume (q_ops env) of
             None \<Rightarrow> (- ENOTSUP, c)
           | Some f \<Rightarrow>
               let (ret, n, c) = resume_queues env f [0..<max_queues c] 0 (pgs_suspend c);
                   c = pgs_resume c
               in if ret \<noteq> 0 then (ret, c)
                  else (0, if n > 0 then c\<lparr>ctrl_state := SNAP_VIRTIO_CTRL_STARTED\<rparr> else c))"

text \<open>Reporting the pending admin command as completed; without one the code follows a null pointer.\<close>

definition snap_adm_cmd_complete :: "snap_virtio_adm_status_qualifier \<Rightarrow> 'q snap_virtio_ctrl \<Rightarrow> 'q snap_virtio_ctrl" where
  "snap_adm_cmd_complete st c =
     (case quiesce_cmd c of
        None \<Rightarrow> c\<lparr>fault := True\<rparr>
      | Some cmd \<Rightarrow> c\<lparr>adm_completed := adm_completed c @ [(cmd, st)], quiesce_cmd := None\<rparr>)"

definition snap_virtio_ctrl_quiesce_adm_done :: "'q snap_virtio_ctrl \<Rightarrow> 'q snap_virtio_ctrl" where
  "snap_virtio_ctrl_quiesce_adm_done c =
     snap_adm_cmd_complete SNAP_VIRTIO_ADMIN_STATUS_Q_OK (c\<lparr>lm_state := SNAP_VIRTIO_CTRL_LM_QUIESCED, is_quiesce := False\<rparr>)"

text \<open>The first loop of \<^verbatim>\<open>snap_virtio_ctrl_progress_suspend\<close>.\<close>

fun all_suspended :: "'q ctrl_env \<Rightarrow> nat list \<Rightarrow> 'q snap_virtio_ctrl \<Rightarrow> bool \<times> 'q snap_virtio_ctrl" where
  "all_suspended env [] c = (True, c)"
| "all_suspended env (i # is) c =
     (case queues c ! i of
        None \<Rightarrow> all_suspended env is c
      | Some vq \<Rightarrow>
          (case heap c vq of
             None \<Rightarrow> all_suspended env is (c\<lparr>fault := True\<rparr>)
           | Some q \<Rightarrow> if qo_is_suspended (q_ops env) (cq_impl q) then all_suspended env is c else (False, c)))"

definition snap_virtio_ctrl_progress_suspend :: "'q ctrl_env \<Rightarrow> 'q snap_virtio_ctrl \<Rightarrow> 'q snap_virtio_ctrl" where
  "snap_virtio_ctrl_progress_suspend env c =
     (let (ok, c) = all_suspended env [0..<max_queues c] (pgs_suspend c);
          c = pgs_resume c
      in if \<not> ok then c
         else
           let c = c\<lparr>ctrl_state := SNAP_VIRTIO_CTRL_SUSPENDED\<rparr>;
               c = (if pending_reset c then (snd (snap_virtio_ctrl_reset env c))\<lparr>pending_reset := False\<rparr> else c);
               c = (if is_quiesce c then snap_virtio_ctrl_quiesce_adm_done c else c)
           in if pending_resume c then (snd (snap_virtio_ctrl_resume env c))\<lparr>pending_resume := False\<rparr> else c)"

section \<open>Reaction to register changes\<close>

definition snap_virtio_ctrl_progress_lock :: "'q snap_virtio_ctrl \<Rightarrow> 'q snap_virtio_ctrl" where
  "snap_virtio_ctrl_progress_lock c = (if progress_locked c then c\<lparr>fault := True\<rparr> else c\<lparr>progress_locked := True\<rparr>)"

definition snap_virtio_ctrl_progress_unlock :: "'q snap_virtio_ctrl \<Rightarrow> 'q snap_virtio_ctrl" where
  "snap_virtio_ctrl_progress_unlock c = (if progress_locked c then c\<lparr>progress_locked := False\<rparr> else c\<lparr>fault := True\<rparr>)"

definition snap_virtio_ctrl_validate :: "'q ctrl_env \<Rightarrow> int" where
  "snap_virtio_ctrl_validate env = (case cb_validate env of None \<Rightarrow> 0 | Some r \<Rightarrow> r)"

text \<open>
  The function-level reset. The first component says how \<^verbatim>\<open>change_status\<close> goes on: it returns the
  value, or continues with the checks behind it.
\<close>

definition stop_for_flr :: "'q ctrl_env \<Rightarrow> 'q snap_virtio_ctrl \<Rightarrow> int \<times> 'q snap_virtio_ctrl" where
  "stop_for_flr env c =
     (let c = (if ctrl_state c = SNAP_VIRTIO_CTRL_STARTED then snd (snap_virtio_ctrl_suspend env c) else c)
      in if snap_virtio_ctrl_is_suspended c then snap_virtio_ctrl_stop env c else (0, c))"

definition handle_flr :: "'q ctrl_env \<Rightarrow> 'q snap_virtio_ctrl \<Rightarrow> int \<times> 'q snap_virtio_ctrl" where
  "handle_flr env c =
     (let (ret, c) = (if snap_virtio_ctrl_is_stopped c then (0, c) else stop_for_flr env c)
      in if ret = 0 \<and> \<not> snap_virtio_ctrl_is_stopped c then (0, c)
         else
           let c = c\<lparr>lm_state := SNAP_VIRTIO_CTRL_LM_RUNNING\<rparr>
           in if (case cb_pre_flr env of None \<Rightarrow> False | Some r \<Rightarrow> r \<noteq> 0) then (0, c)
              else
                let c = c\<lparr>pending_flr := \<not> list_ex (snap_open_device env) [0..<100]\<rparr>
                in if \<not> pending_flr c
                   then (0, c\<lparr>bar_curr := (bar_curr c)\<lparr>status := 0, enabled := False, reset := False\<rparr>\<rparr>)
                   else (- ENODEV, c))"

definition handle_reset :: "'q ctrl_env \<Rightarrow> 'q snap_virtio_ctrl \<Rightarrow> int \<times> 'q snap_virtio_ctrl" where
  "handle_reset env c =
     (let c = (if transitional_device c then c\<lparr>ignore_reset := True\<rparr> else c);
          c = snd (snap_virtio_ctrl_suspend env c)
      in if snap_virtio_ctrl_is_stopped c \<or> snap_virtio_ctrl_is_suspended c then snap_virtio_ctrl_reset env c
         else (0, c\<lparr>pending_reset := True\<rparr>))"

text \<open>
  \<^verbatim>\<open>snap_virtio_ctrl_change_status\<close>: the flag tells that the controller must be progressed once more,
  with the lock released, before the function returns 0.
\<close>

definition snap_virtio_ctrl_change_status :: "'q ctrl_env \<Rightarrow> 'q snap_virtio_ctrl \<Rightarrow> int \<times> bool \<times> 'q snap_virtio_ctrl" where
  "snap_virtio_ctrl_change_status env c =
     (if SNAP_VIRTIO_CTRL_FLR_DETECTED c then (let (ret, c) = handle_flr env c in (ret, False, c))
      else
        let (ret, c) = (if \<not> ignore_reset c \<and> SNAP_VIRTIO_CTRL_RESET_DETECTED c then handle_reset env c else (0, c));
            (ret, again, c) =
              (if \<not> SNAP_VIRTIO_CTRL_LIVE_DETECTED c then (ret, False, c)
               else if transitional_device c \<and> SNAP_VIRTIO_CTRL_RESET_DETECTED c
               then let (ret, c) = snap_virtio_ctrl_clear_reset env c
                    in if ret \<noteq> 0 then (ret, False, c) else (0, True, c\<lparr>ignore_reset := False\<rparr>)
               else let ret = snap_virtio_ctrl_validate env
                    in if ret = 0 then (let (ret, c) = snap_virtio_ctrl_start env c in (ret, False, c)) else (ret, False, c))
        in if again then (0, True, c)
           else (ret, False, if ret \<noteq> 0 then snd (snap_virtio_ctrl_device_error env c) else c))"

definition snap_virtio_ctrl_change_num_vfs :: "'q snap_virtio_ctrl \<Rightarrow> 'q snap_virtio_ctrl" where
  "snap_virtio_ctrl_change_num_vfs c = c\<lparr>vfs_changed := vfs_changed c @ [num_of_vfs (bar_curr c)]\<rparr>"

text \<open>
  \<^verbatim>\<open>snap_virtio_ctrl_progress\<close>. The call from \<^verbatim>\<open>change_status\<close> is a recursion whose depth the host
  decides, so the value is \<open>None\<close> when it never ends.
\<close>

definition progress_begin :: "'q ctrl_env \<Rightarrow> 'q snap_virtio_ctrl \<Rightarrow> int \<times> 'q snap_virtio_ctrl" where
  "progress_begin env c =
     snap_virtio_ctrl_bar_update env
       (if ctrl_state c = SNAP_VIRTIO_CTRL_SUSPENDING then snap_virtio_ctrl_progress_suspend env c else c)"

definition progress_end :: "'q snap_virtio_ctrl \<Rightarrow> 'q snap_virtio_ctrl" where
  "progress_end c =
     snap_virtio_ctrl_progress_unlock
       (if \<not> pending_flr c \<and> num_of_vfs (bar_curr c) \<noteq> num_of_vfs (bar_prev c) then snap_virtio_ctrl_change_num_vfs c else c)"

partial_function (option) snap_virtio_ctrl_progress :: "'q ctrl_env \<Rightarrow> 'q snap_virtio_ctrl \<Rightarrow> 'q snap_virtio_ctrl option" where
  "snap_virtio_ctrl_progress env c =
     (let c = snap_virtio_ctrl_progress_lock c
      in if pending_flr c then Some (snap_virtio_ctrl_progress_unlock c)
         else
           let (ret, c) = progress_begin env c
           in if ret \<noteq> 0 then Some (snap_virtio_ctrl_progress_unlock c)
              else if \<not> snap_virtio_ctrl_critical_bar_change_detected c then Some (progress_end c)
              else
                let (_, again, c) = snap_virtio_ctrl_change_status env c
                in Option.bind (if again then snap_virtio_ctrl_progress env (snap_virtio_ctrl_progress_unlock c) else Some c)
                     (\<lambda>c. Some (progress_end c)))"

declare snap_virtio_ctrl_progress.simps [code]

section \<open>Polling\<close>

text \<open>The queues of one group, in list order; the list itself does not change while its lock is held.\<close>

definition queue_progress :: "'q ctrl_env \<Rightarrow> int \<Rightarrow> nat \<Rightarrow> int \<times> 'q snap_virtio_ctrl \<Rightarrow> int \<times> 'q snap_virtio_ctrl" where
  "queue_progress env thread_id vq s =
     (let (n, c) = s
      in case heap c vq of
           None \<Rightarrow> (n, c\<lparr>fault := True\<rparr>)
         | Some q \<Rightarrow>
             let (k, impl) = qo_progress (q_ops env) thread_id (cq_impl q)
             in (n + k, set_q vq (q\<lparr>cq_thread_id := thread_id, cq_impl := impl\<rparr>) c))"

definition snap_virtio_ctrl_pg_thread_io_progress ::
  "'q ctrl_env \<Rightarrow> nat \<Rightarrow> int \<Rightarrow> 'q snap_virtio_ctrl \<Rightarrow> int \<times> 'q snap_virtio_ctrl"
where
  "snap_virtio_ctrl_pg_thread_io_progress env pg thread_id c =
     (let c = c\<lparr>pg_ctx := pg_lock pg (pg_ctx c)\<rparr>;
          (n, c) = fold (queue_progress env thread_id) (q_list (pgs (pg_ctx c) ! pg)) (0, c)
      in (n, c\<lparr>pg_ctx := pg_unlock pg (pg_ctx c)\<rparr>))"

definition snap_virtio_ctrl_pg_io_progress :: "'q ctrl_env \<Rightarrow> nat \<Rightarrow> 'q snap_virtio_ctrl \<Rightarrow> int \<times> 'q snap_virtio_ctrl" where
  "snap_virtio_ctrl_pg_io_progress env pg c = snap_virtio_ctrl_pg_thread_io_progress env pg (int pg) c"

definition snap_virtio_ctrl_io_progress :: "'q ctrl_env \<Rightarrow> 'q snap_virtio_ctrl \<Rightarrow> int \<times> 'q snap_virtio_ctrl" where
  "snap_virtio_ctrl_io_progress env c =
     fold (\<lambda>i (n, c). let (k, c) = snap_virtio_ctrl_pg_thread_io_progress env i (- 1) c in (n + k, c)) [0..<npgs (pg_ctx c)] (0, c)"

definition log_queue :: "bool \<Rightarrow> nat \<Rightarrow> 'q snap_virtio_ctrl \<Rightarrow> 'q snap_virtio_ctrl" where
  "log_queue enable i c =
     (case queues c ! i of
        None \<Rightarrow> c
      | Some vq \<Rightarrow> with_q vq (\<lambda>q c. set_q vq (q\<lparr>cq_log_writes_to_host := enable\<rparr>) c) c)"

definition snap_virtio_ctrl_log_writes :: "bool \<Rightarrow> 'q snap_virtio_ctrl \<Rightarrow> 'q snap_virtio_ctrl" where
  "snap_virtio_ctrl_log_writes enable c =
     (pgs_resume (fold (log_queue enable) [0..<max_queues c] (pgs_suspend c)))\<lparr>log_writes_to_host := enable\<rparr>"

section \<open>Live migration\<close>

definition snap_virtio_ctrl_quiesce_adm :: "'q ctrl_env \<Rightarrow> 'q snap_virtio_ctrl \<Rightarrow> int \<times> 'q snap_virtio_ctrl" where
  "snap_virtio_ctrl_quiesce_adm env c =
     (let c = snap_virtio_ctrl_progress_lock c
      in if lm_state c \<noteq> SNAP_VIRTIO_CTRL_LM_RUNNING \<and> lm_state c \<noteq> SNAP_VIRTIO_CTRL_LM_INIT
         then (- EINVAL, snap_adm_cmd_complete SNAP_VIRTIO_ADMIN_STATUS_Q_TRYAGAIN (snap_virtio_ctrl_progress_unlock c))
         else if snap_virtio_ctrl_is_stopped c
         then (0, snap_adm_cmd_complete SNAP_VIRTIO_ADMIN_STATUS_Q_OK
                    (snap_virtio_ctrl_progress_unlock (c\<lparr>lm_state := SNAP_VIRTIO_CTRL_LM_QUIESCED\<rparr>)))
         else
           let (ret, c) = snap_virtio_ctrl_suspend env c
           in if ret \<noteq> 0
              then (ret, snap_adm_cmd_complete SNAP_VIRTIO_ADMIN_STATUS_Q_TRYAGAIN (snap_virtio_ctrl_progress_unlock c))
              else (0, snap_virtio_ctrl_progress_unlock (c\<lparr>is_quiesce := True\<rparr>)))"

text \<open>The waiting loop of \<^verbatim>\<open>snap_virtio_ctrl_quiesce\<close>: \<^verbatim>\<open>others n\<close> is what the other threads do in its
  n-th sleep, with the lock released.\<close>

partial_function (option) quiesce_wait :: "(nat \<Rightarrow> 'q snap_virtio_ctrl \<Rightarrow> 'q snap_virtio_ctrl) \<Rightarrow> nat \<Rightarrow> 'q snap_virtio_ctrl \<Rightarrow> 'q snap_virtio_ctrl option" where
  "quiesce_wait others n c =
     (if snap_virtio_ctrl_is_suspended c then Some c
      else quiesce_wait others (n + 1) (snap_virtio_ctrl_progress_lock (others n (snap_virtio_ctrl_progress_unlock c))))"

definition snap_virtio_ctrl_quiesce ::
  "'q ctrl_env \<Rightarrow> (nat \<Rightarrow> 'q snap_virtio_ctrl \<Rightarrow> 'q snap_virtio_ctrl) \<Rightarrow> 'q snap_virtio_ctrl \<Rightarrow> (int \<times> 'q snap_virtio_ctrl) option"
where
  "snap_virtio_ctrl_quiesce env others c =
     (let c = snap_virtio_ctrl_progress_lock c;
          finish = (\<lambda>c. (0, snap_virtio_ctrl_progress_unlock (c\<lparr>lm_state := SNAP_VIRTIO_CTRL_LM_QUIESCED\<rparr>)))
      in if lm_state c \<noteq> SNAP_VIRTIO_CTRL_LM_RUNNING \<and> lm_state c \<noteq> SNAP_VIRTIO_CTRL_LM_INIT
         then Some (- EINVAL, snap_virtio_ctrl_progress_unlock c)
         else if snap_virtio_ctrl_is_stopped c then Some (finish c)
         else
           let (ret, c) = snap_virtio_ctrl_suspend env c
           in if ret \<noteq> 0 then Some (ret, snap_virtio_ctrl_progress_unlock c)
              else map_option finish (quiesce_wait others 0 c))"

definition snap_virtio_ctrl_unquiesce :: "'q ctrl_env \<Rightarrow> 'q snap_virtio_ctrl \<Rightarrow> int \<times> 'q snap_virtio_ctrl" where
  "snap_virtio_ctrl_unquiesce env c =
     (let c = snap_virtio_ctrl_progress_lock c
      in if lm_state c \<noteq> SNAP_VIRTIO_CTRL_LM_QUIESCED then (- EINVAL, snap_virtio_ctrl_progress_unlock c)
         else
           let (ret, c) = snap_virtio_ctrl_resume env c
           in (ret, snap_virtio_ctrl_progress_unlock (if ret \<noteq> 0 then c else c\<lparr>lm_state := SNAP_VIRTIO_CTRL_LM_RUNNING\<rparr>)))"

definition snap_virtio_ctrl_freeze :: "'q ctrl_env \<Rightarrow> 'q snap_virtio_ctrl \<Rightarrow> int \<times> 'q snap_virtio_ctrl" where
  "snap_virtio_ctrl_freeze env c =
     (let c = snap_virtio_ctrl_progress_lock c
      in if lm_state c \<noteq> SNAP_VIRTIO_CTRL_LM_QUIESCED then (- EINVAL, snap_virtio_ctrl_progress_unlock c)
         else (0, snap_virtio_ctrl_progress_unlock
                    ((snd (snap_virtio_ctrl_bar_query env c))\<lparr>lm_state := SNAP_VIRTIO_CTRL_LM_FREEZED\<rparr>)))"

definition snap_virtio_ctrl_unfreeze :: "'q snap_virtio_ctrl \<Rightarrow> int \<times> 'q snap_virtio_ctrl" where
  "snap_virtio_ctrl_unfreeze c =
     (let c = snap_virtio_ctrl_progress_lock c
      in if lm_state c \<noteq> SNAP_VIRTIO_CTRL_LM_FREEZED then (- EINVAL, snap_virtio_ctrl_progress_unlock c)
         else (0, snap_virtio_ctrl_progress_unlock (c\<lparr>lm_state := SNAP_VIRTIO_CTRL_LM_QUIESCED\<rparr>)))"

definition snap_virtio_ctrl_start_dirty_pages_track :: "'q snap_virtio_ctrl \<Rightarrow> 'q snap_virtio_ctrl" where
  "snap_virtio_ctrl_start_dirty_pages_track c =
     snap_virtio_ctrl_progress_unlock (snap_virtio_ctrl_log_writes True (snap_virtio_ctrl_progress_lock c))"

definition snap_virtio_ctrl_stop_dirty_pages_track :: "'q snap_virtio_ctrl \<Rightarrow> 'q snap_virtio_ctrl" where
  "snap_virtio_ctrl_stop_dirty_pages_track c =
     snap_virtio_ctrl_progress_unlock (snap_virtio_ctrl_log_writes False (snap_virtio_ctrl_progress_lock c))"

definition snap_virtio_ctrl_should_recover :: "'q ctrl_env \<Rightarrow> bool \<Rightarrow> int" where
  "snap_virtio_ctrl_should_recover env transitional =
     (case bo_get_attr env of
        None \<Rightarrow> - EINVAL
      | Some (rc, vattr) \<Rightarrow>
          if rc \<noteq> 0 then (if rc < 0 then rc else - rc)
          else
            let is_reset = reset vattr \<or> \<not> transitional \<and> status vattr AND SNAP_VIRTIO_DEVICE_S_DEVICE_NEEDS_RESET \<noteq> 0
            in if enabled vattr \<and> \<not> is_reset \<and> status vattr AND SNAP_VIRTIO_DEVICE_S_DRIVER_OK \<noteq> 0 then 1 else 0)"

end
