(* ===== verification/Virtio_Ctrl_Inv.thy ===== *)
theory Virtio_Ctrl_Inv
  imports Virtio_Ctrl
begin

text \<open>
  The invariants of the controller: the pointers between the queue array, the queue objects and the
  polling groups, the spin locks, and the consistency of the migration state with the life cycle.
\<close>

section \<open>Well-formed controllers\<close>

text \<open>The flags of the spin locks and the progress lock do not matter for the pointers.\<close>

definition queues_wf :: "'q snap_virtio_ctrl \<Rightarrow> bool" where
  "queues_wf c \<longleftrightarrow> length (queues c) = max_queues c \<and>
     (\<forall>i < max_queues c. \<forall>vq. queues c ! i = Some vq \<longrightarrow> (\<exists>q. heap c vq = Some q \<and> cq_index q = i)) \<and>
     (\<forall>vq q. heap c vq = Some q \<longrightarrow> vq < heap_next c \<and> cq_index q < max_queues c \<and> queues c ! cq_index q = Some vq)"

definition pgs_wf :: "'q snap_virtio_ctrl \<Rightarrow> bool" where
  "pgs_wf c \<longleftrightarrow> 0 < npgs (pg_ctx c) \<and> length (pgs (pg_ctx c)) = npgs (pg_ctx c) \<and>
     (\<exists>us. virtio_pg_usage (pg_glob c) = Some us \<and> npgs (pg_ctx c) \<le> length us) \<and>
     (\<forall>vq q pg. heap c vq = Some q \<longrightarrow> cq_pg q = Some pg \<longrightarrow> pg < npgs (pg_ctx c) \<and> pg_id (pgs (pg_ctx c) ! pg) = int pg) \<and>
     (\<forall>pg < npgs (pg_ctx c). distinct (q_list (pgs (pg_ctx c) ! pg)) \<and>
        (\<forall>vq. vq \<in> set (q_list (pgs (pg_ctx c) ! pg)) \<longleftrightarrow> (\<exists>q. heap c vq = Some q \<and> cq_pg q = Some pg)))"

definition ctrl_wf :: "'q snap_virtio_ctrl \<Rightarrow> bool" where
  "ctrl_wf c \<longleftrightarrow> queues_wf c \<and> pgs_wf c \<and> \<not> fault c"

lemma wf_queue:
  assumes "ctrl_wf c" and "i < max_queues c" and "queues c ! i = Some vq"
  obtains q where "heap c vq = Some q" "cq_index q = i"
  using assms by (auto simp: ctrl_wf_def queues_wf_def)

text \<open>Fields that neither invariant reads.\<close>

lemma ctrl_wf_cong:
  assumes "queues c' = queues c" "max_queues c' = max_queues c" "heap c' = heap c" "heap_next c' = heap_next c"
    "pg_ctx c' = pg_ctx c" "pg_glob c' = pg_glob c" "fault c' = fault c"
  shows "ctrl_wf c' = ctrl_wf c"
  using assms by (simp add: ctrl_wf_def queues_wf_def pgs_wf_def)

section \<open>Single queues\<close>

lemma wf_set_q:
  assumes "ctrl_wf c" and "heap c vq = Some q" and "cq_index q' = cq_index q" and "cq_pg q' = cq_pg q"
  shows "ctrl_wf (set_q vq q' c)"
proof -
  have "queues_wf (set_q vq q' c)" using assms by (auto simp: ctrl_wf_def queues_wf_def set_q_def)
  moreover have "pgs_wf (set_q vq q' c)"
  proof -
    have ex: "(\<exists>r. (if v = vq then Some q' else heap c v) = Some r \<and> cq_pg r = Some pg) \<longleftrightarrow>
        (\<exists>r. heap c v = Some r \<and> cq_pg r = Some pg)" for v pg
      using assms by auto
    show ?thesis using assms(1) assms(2,4) unfolding ctrl_wf_def pgs_wf_def set_q_def
      by (simp add: ex)
  qed
  ultimately show ?thesis using assms(1) by (simp add: ctrl_wf_def set_q_def)
qed

lemma pg_q_list_upd_simps [simp]:
  "queues (pg_q_list_upd pg f c) = queues c" "max_queues (pg_q_list_upd pg f c) = max_queues c"
  "heap (pg_q_list_upd pg f c) = heap c" "heap_next (pg_q_list_upd pg f c) = heap_next c"
  "pg_glob (pg_q_list_upd pg f c) = pg_glob c" "fault (pg_q_list_upd pg f c) = fault c"
  "npgs (pg_ctx (pg_q_list_upd pg f c)) = npgs (pg_ctx c)"
  "length (pgs (pg_ctx (pg_q_list_upd pg f c))) = length (pgs (pg_ctx c))"
  "lock_fault (pg_ctx (pg_q_list_upd pg f c)) = lock_fault (pg_ctx c)"
  by (simp_all add: pg_q_list_upd_def)

lemma pg_q_list_upd_pg_id [simp]: "pg_id (pgs (pg_ctx (pg_q_list_upd pg f c)) ! i) = pg_id (pgs (pg_ctx c) ! i)"
  by (cases "i = pg"; cases "pg < length (pgs (pg_ctx c))") (simp_all add: pg_q_list_upd_def list_update_beyond)

lemma pg_q_list_upd_q_list:
  "pg < length (pgs (pg_ctx c)) \<Longrightarrow> q_list (pgs (pg_ctx (pg_q_list_upd pg f c)) ! i) =
     (if i = pg then f (q_list (pgs (pg_ctx c) ! i)) else q_list (pgs (pg_ctx c) ! i))"
  by (cases "i = pg") (simp_all add: pg_q_list_upd_def)

lemma set_q_simps [simp]:
  "queues (set_q vq q c) = queues c" "max_queues (set_q vq q c) = max_queues c"
  "heap (set_q vq q c) = (heap c)(vq := Some q)" "heap_next (set_q vq q c) = heap_next c"
  "pg_glob (set_q vq q c) = pg_glob c" "fault (set_q vq q c) = fault c" "pg_ctx (set_q vq q c) = pg_ctx c"
  by (simp_all add: set_q_def)

lemma wf_put_on_list:
  assumes "ctrl_wf c" and "heap c vq = Some q" and "cq_pg q = None" and "cq_index q' = cq_index q" and "cq_pg q' = Some pg"
    and "pg < npgs (pg_ctx c)" and "pg_id (pgs (pg_ctx c) ! pg) = int pg"
  shows "ctrl_wf (set_q vq q' (pg_q_list_upd pg (\<lambda>l. l @ [vq]) c))"
proof -
  let ?c = "set_q vq q' (pg_q_list_upd pg (\<lambda>l. l @ [vq]) c)"
  have "queues_wf ?c" using assms(1,2,4) by (auto simp: ctrl_wf_def queues_wf_def)
  moreover have "pgs_wf ?c"
  proof -
    have w: "pgs_wf c" using assms(1) by (simp add: ctrl_wf_def)
    have l: "pg < length (pgs (pg_ctx c))" using w assms(6) by (simp add: pgs_wf_def)
    have "distinct (q_list (pgs (pg_ctx ?c) ! i)) \<and>
        (\<forall>v. v \<in> set (q_list (pgs (pg_ctx ?c) ! i)) \<longleftrightarrow> (\<exists>r. heap ?c v = Some r \<and> cq_pg r = Some i))"
      if "i < npgs (pg_ctx c)" for i
      using w that assms(2,3,5) by (auto simp: pgs_wf_def pg_q_list_upd_q_list [OF l])
    then show ?thesis using w assms(2,5-7) by (auto simp: pgs_wf_def)
  qed
  ultimately show ?thesis using assms(1) by (simp add: ctrl_wf_def)
qed

lemma wf_take_off_list:
  assumes "ctrl_wf c" and "heap c vq = Some q" and "cq_pg q = Some pg"
  shows "ctrl_wf (set_q vq (q\<lparr>cq_pg := None\<rparr>) (pg_q_list_upd pg (remove1 vq) c))"
proof -
  let ?c = "set_q vq (q\<lparr>cq_pg := None\<rparr>) (pg_q_list_upd pg (remove1 vq) c)"
  have "queues_wf ?c" using assms(1,2) by (auto simp: ctrl_wf_def queues_wf_def)
  moreover have "pgs_wf ?c"
  proof -
    have w: "pgs_wf c" using assms(1) by (simp add: ctrl_wf_def)
    have l: "pg < length (pgs (pg_ctx c))" using w assms(2,3) by (auto simp: pgs_wf_def)
    have "distinct (q_list (pgs (pg_ctx ?c) ! i)) \<and>
        (\<forall>v. v \<in> set (q_list (pgs (pg_ctx ?c) ! i)) \<longleftrightarrow> (\<exists>r. heap ?c v = Some r \<and> cq_pg r = Some i))"
      if "i < npgs (pg_ctx c)" for i
      using w that assms(2,3) by (auto simp: pgs_wf_def pg_q_list_upd_q_list [OF l])
    then show ?thesis using w assms(2,3) by (auto simp: pgs_wf_def)
  qed
  ultimately show ?thesis using assms(1) by (simp add: ctrl_wf_def)
qed

text \<open>A queue that is on no list enters the array, and leaves it.\<close>

lemma wf_new_queue:
  assumes "ctrl_wf c" and "i < max_queues c" and "queues c ! i = None" and "cq_index q = i" and "cq_pg q = None"
  shows "ctrl_wf ((set_q (heap_next c) q (c\<lparr>heap_next := heap_next c + 1\<rparr>))\<lparr>queues := (queues c)[i := Some (heap_next c)]\<rparr>)"
proof -
  let ?c = "(set_q (heap_next c) q (c\<lparr>heap_next := heap_next c + 1\<rparr>))\<lparr>queues := (queues c)[i := Some (heap_next c)]\<rparr>"
  have fresh: "heap c (heap_next c) = None"
    using assms(1) by (cases "heap c (heap_next c)") (auto simp: ctrl_wf_def queues_wf_def)
  have "queues_wf ?c" unfolding queues_wf_def
  proof (intro conjI allI impI)
    fix j vq assume j: "j < max_queues ?c" "queues ?c ! j = Some vq"
    then show "\<exists>r. heap ?c vq = Some r \<and> cq_index r = j"
    proof (cases "j = i")
      case False
      with j obtain r where "heap c vq = Some r" "cq_index r = j"
        using assms(1) by (auto simp: ctrl_wf_def queues_wf_def)
      with fresh show ?thesis by auto
    qed (use j assms in \<open>auto simp: ctrl_wf_def queues_wf_def\<close>)
  next
    fix vq r assume h: "heap ?c vq = Some r"
    show "vq < heap_next ?c" "cq_index r < max_queues ?c"
      using h assms(1,2,4) by (auto simp: ctrl_wf_def queues_wf_def less_Suc_eq split: if_splits)
    show "queues ?c ! cq_index r = Some vq"
      using h assms(1-4) by (auto simp: ctrl_wf_def queues_wf_def nth_list_update split: if_splits)
  qed (use assms in \<open>simp add: ctrl_wf_def queues_wf_def\<close>)
  moreover have "pgs_wf ?c"
    using assms(1,5) fresh by (auto simp: ctrl_wf_def pgs_wf_def split: if_splits)
  ultimately show ?thesis using assms(1) by (simp add: ctrl_wf_def)
qed

lemma wf_drop_queue:
  assumes "ctrl_wf c" and "i < max_queues c" and "queues c ! i = Some vq" and "heap c vq = Some q" and "cq_pg q = None"
  shows "ctrl_wf (c\<lparr>heap := (heap c)(vq := None), queues := (queues c)[i := None]\<rparr>)"
proof -
  let ?c = "c\<lparr>heap := (heap c)(vq := None), queues := (queues c)[i := None]\<rparr>"
  have qi: "cq_index q = i" using assms(1-4) by (auto simp: ctrl_wf_def queues_wf_def)
  have "queues_wf ?c" unfolding queues_wf_def
  proof (intro conjI allI impI)
    fix j v assume j: "j < max_queues ?c" "queues ?c ! j = Some v"
    then have "j \<noteq> i" "queues c ! j = Some v" using assms(1,2) by (auto simp: ctrl_wf_def queues_wf_def nth_list_update split: if_splits)
    with j obtain r where r: "heap c v = Some r" "cq_index r = j" using assms(1) by (auto simp: ctrl_wf_def queues_wf_def)
    with \<open>j \<noteq> i\<close> qi assms(4) have "v \<noteq> vq" by auto
    with r show "\<exists>r. heap ?c v = Some r \<and> cq_index r = j" by simp
  next
    fix v r assume h: "heap ?c v = Some r"
    then have v: "v \<noteq> vq" "heap c v = Some r" by (auto split: if_splits)
    then show "v < heap_next ?c" "cq_index r < max_queues ?c" using assms(1) by (auto simp: ctrl_wf_def queues_wf_def)
    have "cq_index r \<noteq> i" using v assms(1,3) by (auto simp: ctrl_wf_def queues_wf_def)
    with v show "queues ?c ! cq_index r = Some v" using assms(1) by (auto simp: ctrl_wf_def queues_wf_def)
  qed (use assms in \<open>simp add: ctrl_wf_def queues_wf_def\<close>)
  moreover have "pgs_wf ?c"
  proof -
    have "(\<exists>r. v \<noteq> vq \<and> heap c v = Some r \<and> cq_pg r = Some pg) \<longleftrightarrow> (\<exists>r. heap c v = Some r \<and> cq_pg r = Some pg)" for v pg
      using assms(4,5) by auto
    then show ?thesis using assms(1) by (auto simp: ctrl_wf_def pgs_wf_def)
  qed
  ultimately show ?thesis using assms(1) by (simp add: ctrl_wf_def)
qed

section \<open>Operations on one queue\<close>

text \<open>What the life cycle reads of a controller: not changed by any operation on single queues.\<close>

definition life :: "'q snap_virtio_ctrl \<Rightarrow> _" where
  "life c = (ctrl_state c, progress_locked c, transitional_device c, max_queues c, bar_curr c, bar_prev c, bar_queries c,
     log_writes_to_host c, pending_reset c, ignore_reset c, pending_flr c, lm_state c, is_quiesce c, quiesce_cmd c,
     adm_completed c, pending_resume c, vfs_changed c)"

lemma life_fields:
  assumes "life c' = life c"
  shows "ctrl_state c' = ctrl_state c" "progress_locked c' = progress_locked c" "transitional_device c' = transitional_device c"
    "max_queues c' = max_queues c" "bar_curr c' = bar_curr c" "pending_reset c' = pending_reset c"
    "ignore_reset c' = ignore_reset c" "pending_flr c' = pending_flr c" "lm_state c' = lm_state c"
    "is_quiesce c' = is_quiesce c" "quiesce_cmd c' = quiesce_cmd c" "pending_resume c' = pending_resume c"
    "adm_completed c' = adm_completed c" "log_writes_to_host c' = log_writes_to_host c"
  using assms by (simp_all add: life_def)

lemma life_simps [simp]:
  "life (set_q vq q c) = life c" "life (pg_q_list_upd pg f c) = life c" "life (c\<lparr>pg_ctx := x\<rparr>) = life c"
  "life (c\<lparr>pg_glob := g\<rparr>) = life c" "life (c\<lparr>heap := h\<rparr>) = life c" "life (c\<lparr>heap_next := n\<rparr>) = life c"
  "life (c\<lparr>queues := qs\<rparr>) = life c" "life (c\<lparr>fault := b\<rparr>) = life c"
  by (simp_all add: life_def set_q_def pg_q_list_upd_def)

text \<open>The flags of the spin locks.\<close>

definition flags :: "'q snap_virtio_ctrl \<Rightarrow> bool list \<times> nat \<times> bool" where
  "flags c = (map pg_locked (pgs (pg_ctx c)), npgs (pg_ctx c), lock_fault (pg_ctx c))"

lemma flags_locks_free: "flags c' = flags c \<Longrightarrow> locks_free (pg_ctx c') = locks_free (pg_ctx c)"
  and flags_locks_held: "flags c' = flags c \<Longrightarrow> locks_held (pg_ctx c') = locks_held (pg_ctx c)"
proof -
  assume f: "flags c' = flags c"
  then have l: "length (pgs (pg_ctx c')) = length (pgs (pg_ctx c))" unfolding flags_def by (metis length_map prod.inject)
  have n: "pg_locked (pgs (pg_ctx c') ! i) = pg_locked (pgs (pg_ctx c) ! i)" if "i < length (pgs (pg_ctx c))" for i
    using f l that unfolding flags_def by (metis nth_map prod.inject)
  show "locks_free (pg_ctx c') = locks_free (pg_ctx c)" "locks_held (pg_ctx c') = locks_held (pg_ctx c)"
    using f l n by (auto simp: locks_free_def locks_held_def list_all_length flags_def)
qed

lemma flags_simps [simp]:
  "flags (set_q vq q c) = flags c" "flags (pg_q_list_upd pg f c) = flags c" "flags (c\<lparr>pg_glob := g\<rparr>) = flags c"
  "flags (c\<lparr>heap := h\<rparr>) = flags c" "flags (c\<lparr>heap_next := n\<rparr>) = flags c" "flags (c\<lparr>queues := qs\<rparr>) = flags c"
  by (simp_all add: flags_def set_q_def pg_q_list_upd_def map_list_update_same)

definition same_shape :: "'q snap_virtio_ctrl \<Rightarrow> 'q snap_virtio_ctrl \<Rightarrow> bool" where
  "same_shape c c' \<longleftrightarrow> life c' = life c \<and> flags c' = flags c \<and> queues c' = queues c \<and> heap_next c' = heap_next c"

lemma same_shape_refl [simp]: "same_shape c c"
  by (simp add: same_shape_def)

lemma same_shape_trans: "same_shape a b \<Longrightarrow> same_shape b c \<Longrightarrow> same_shape a c"
  by (simp add: same_shape_def)

lemma next_pg_get_ok:
  assumes "ctrl_wf c" and "snap_virtio_ctrl_next_pg_get env q c = (pg, c')"
  shows "ctrl_wf c' \<and> pg < npgs (pg_ctx c') \<and> pg_id (pgs (pg_ctx c') ! pg) = int pg \<and> same_shape c c' \<and> heap c' = heap c"
proof -
  from assms(1) obtain us where w: "0 < npgs (pg_ctx c)" "length (pgs (pg_ctx c)) = npgs (pg_ctx c)"
    "virtio_pg_usage (pg_glob c) = Some us" "npgs (pg_ctx c) \<le> length us"
    by (auto simp: ctrl_wf_def pgs_wf_def)
  define i where "i = (if is_admin_q env q then 0 else min_usage us (npgs (pg_ctx c)))"
  define ctx where "ctx = (pg_ctx c)\<lparr>pgs := (pgs (pg_ctx c))[i := (pgs (pg_ctx c) ! i)\<lparr>pg_id := int i\<rparr>]\<rparr>"
  define g where "g = (if is_admin_q env q then pg_glob c else (pg_glob c)\<lparr>virtio_pg_usage := Some (us[i := us ! i + 1])\<rparr>)"
  have i: "i < npgs (pg_ctx c)" using w min_usage_least [of "npgs (pg_ctx c)" us] by (simp add: i_def)
  have e: "pg = i" "c' = c\<lparr>pg_ctx := ctx, pg_glob := g\<rparr>"
    using assms(2) w i by (auto simp: snap_virtio_ctrl_next_pg_get_def snap_pg_get_admin_def snap_pg_get_next_def i_def ctx_def g_def
        Let_def max_def split: if_splits)
  have ctx: "npgs ctx = npgs (pg_ctx c)" "length (pgs ctx) = length (pgs (pg_ctx c))"
    "\<And>j. j < npgs (pg_ctx c) \<Longrightarrow> q_list (pgs ctx ! j) = q_list (pgs (pg_ctx c) ! j)"
    "\<And>j. pg_id (pgs (pg_ctx c) ! j) = int j \<Longrightarrow> j < npgs (pg_ctx c) \<Longrightarrow> pg_id (pgs ctx ! j) = int j"
    "pg_id (pgs ctx ! i) = int i"
    using i w by (auto simp: ctx_def nth_list_update)
  have "ctrl_wf c'" using assms(1) w ctx i unfolding ctrl_wf_def e(2)
    by (auto simp: queues_wf_def pgs_wf_def g_def)
  moreover have "flags c' = flags c" by (simp add: e(2) flags_def ctx_def map_list_update_same)
  ultimately show ?thesis using i ctx e by (simp add: same_shape_def life_def)
qed

lemma sched_nolock_ok:
  assumes "ctrl_wf c" and "heap c vq = Some q" and "cq_pg q = None" and "pg < npgs (pg_ctx c)" and "pg_id (pgs (pg_ctx c) ! pg) = int pg"
  shows "ctrl_wf (snap_virtio_ctrl_sched_q_nolock env vq pg c) \<and> same_shape c (snap_virtio_ctrl_sched_q_nolock env vq pg c)"
proof -
  define q' where "q' = (case qo_start (q_ops env) of None \<Rightarrow> q\<lparr>cq_pg := Some pg\<rparr>
    | Some f \<Rightarrow> q\<lparr>cq_pg := Some pg, cq_impl := f (pg_id (pgs (pg_ctx c) ! pg)) (cq_impl q)\<rparr>)"
  have q': "cq_index q' = cq_index q" "cq_pg q' = Some pg"
    "snap_virtio_ctrl_sched_q_nolock env vq pg c = set_q vq q' (pg_q_list_upd pg (\<lambda>l. l @ [vq]) c)"
    using assms(2) by (simp_all add: q'_def snap_virtio_ctrl_sched_q_nolock_def with_q_def split: option.split)
  with wf_put_on_list [OF assms(1-3) q'(1,2) assms(4,5)] show ?thesis by (simp add: same_shape_def)
qed

lemma desched_nolock_ok:
  assumes "ctrl_wf c" and "heap c vq = Some q"
  shows "ctrl_wf (snap_virtio_ctrl_desched_q_nolock vq c) \<and> same_shape c (snap_virtio_ctrl_desched_q_nolock vq c) \<and>
     heap (snap_virtio_ctrl_desched_q_nolock vq c) = (heap c)(vq := Some (q\<lparr>cq_pg := None\<rparr>)) \<and>
     npgs (pg_ctx (snap_virtio_ctrl_desched_q_nolock vq c)) = npgs (pg_ctx c) \<and>
     (\<forall>i. pg_id (pgs (pg_ctx (snap_virtio_ctrl_desched_q_nolock vq c)) ! i) = pg_id (pgs (pg_ctx c) ! i))"
proof (cases "cq_pg q")
  case None
  then have "(heap c)(vq := Some (q\<lparr>cq_pg := None\<rparr>)) = heap c" using assms(2) by (cases q) auto
  with None show ?thesis using assms by (simp add: snap_virtio_ctrl_desched_q_nolock_def with_q_def)
next
  case (Some pg)
  from wf_take_off_list [OF assms this] Some assms(2) show ?thesis
    by (simp add: snap_virtio_ctrl_desched_q_nolock_def with_q_def same_shape_def)
qed

text \<open>Under a free lock the locked operations are the unlocked ones.\<close>

lemma lock_op_unlock:
  assumes "\<not> pg_locked (pgs (pg_ctx c) ! pg)" and "pg < length (pgs (pg_ctx c))"
  shows "(pg_q_list_upd pg f (c\<lparr>pg_ctx := pg_lock pg (pg_ctx c)\<rparr>))
      \<lparr>pg_ctx := pg_unlock pg (pg_ctx (pg_q_list_upd pg f (c\<lparr>pg_ctx := pg_lock pg (pg_ctx c)\<rparr>)))\<rparr> = pg_q_list_upd pg f c"
proof -
  let ?x = "pgs (pg_ctx c) ! pg"
  have e: "?x\<lparr>q_list := f (q_list ?x), pg_locked := False\<rparr> = ?x\<lparr>q_list := f (q_list ?x)\<rparr>"
    using assms(1) by (cases ?x) simp
  show ?thesis using assms by (simp add: pg_lock_def pg_unlock_def pg_q_list_upd_def) (simp only: e)
qed

lemma pg_lock_set:
  assumes "\<not> pg_locked (pgs ctx ! pg)"
  shows "pg_lock pg ctx = ctx\<lparr>pgs := (pgs ctx)[pg := (pgs ctx ! pg)\<lparr>pg_locked := True\<rparr>]\<rparr>"
  using assms by (simp add: pg_lock_def)

lemma sched_q_unlocked:
  assumes "locks_free (pg_ctx c)" and "heap c vq = Some q" and "snap_virtio_ctrl_next_pg_get env q c = (pg, c1)"
    and "heap c1 = heap c" and "flags c1 = flags c" and "pg < npgs (pg_ctx c1)"
  shows "snap_virtio_ctrl_sched_q env vq c = snap_virtio_ctrl_sched_q_nolock env vq pg c1"
proof -
  have l: "\<not> pg_locked (pgs (pg_ctx c1) ! pg)" "pg < length (pgs (pg_ctx c1))"
    using assms(1,6) flags_locks_free [OF assms(5)] by (auto simp: locks_free_def list_all_length)
  have i: "pg_id (pgs (pg_lock pg (pg_ctx c1)) ! pg) = pg_id (pgs (pg_ctx c1) ! pg)"
    using l by (simp add: pg_lock_set)
  have s: "(set_q vq r d)\<lparr>pg_ctx := x\<rparr> = set_q vq r (d\<lparr>pg_ctx := x\<rparr>)" for r x and d :: "'a snap_virtio_ctrl"
    by (simp add: set_q_def)
  show ?thesis using assms(2-4)
    by (simp add: snap_virtio_ctrl_sched_q_def snap_virtio_ctrl_sched_q_nolock_def with_q_def i s lock_op_unlock [OF l] Let_def split: option.split)
qed

lemma sched_q_ok:
  assumes "ctrl_wf c" and "locks_free (pg_ctx c)" and "heap c vq = Some q" and "cq_pg q = None"
  shows "ctrl_wf (snap_virtio_ctrl_sched_q env vq c) \<and> same_shape c (snap_virtio_ctrl_sched_q env vq c)"
proof -
  obtain pg c1 where n: "snap_virtio_ctrl_next_pg_get env q c = (pg, c1)" by (cases "snap_virtio_ctrl_next_pg_get env q c")
  from next_pg_get_ok [OF assms(1) n] have c1: "ctrl_wf c1" "pg < npgs (pg_ctx c1)" "pg_id (pgs (pg_ctx c1) ! pg) = int pg"
    "same_shape c c1" "heap c1 = heap c" by blast+
  then have "flags c1 = flags c" by (simp add: same_shape_def)
  from sched_q_unlocked [OF assms(2,3) n c1(5) this c1(2)] sched_nolock_ok [OF c1(1), of vq q pg env] c1 assms(3,4)
  show ?thesis using same_shape_trans by (metis (no_types))
qed

text \<open>Taking a queue off its list, with the usage of its group.\<close>

lemma desched_q_ok:
  assumes "ctrl_wf c" and "locks_free (pg_ctx c)" and "heap c vq = Some q"
  shows "ctrl_wf (snap_virtio_ctrl_desched_q env vq c) \<and> same_shape c (snap_virtio_ctrl_desched_q env vq c) \<and>
     heap (snap_virtio_ctrl_desched_q env vq c) = (heap c)(vq := Some (q\<lparr>cq_pg := None\<rparr>))"
proof (cases "cq_pg q")
  case None
  then have "(heap c)(vq := Some (q\<lparr>cq_pg := None\<rparr>)) = heap c" using assms(3) by (cases q) auto
  with None show ?thesis using assms by (simp add: snap_virtio_ctrl_desched_q_def with_q_def)
next
  case (Some pg)
  from assms(1) obtain us where us: "virtio_pg_usage (pg_glob c) = Some us" "npgs (pg_ctx c) \<le> length us"
    "pg < npgs (pg_ctx c)" "pg_id (pgs (pg_ctx c) ! pg) = int pg" "length (pgs (pg_ctx c)) = npgs (pg_ctx c)"
    using assms(3) Some by (auto simp: ctrl_wf_def pgs_wf_def)
  have l: "\<not> pg_locked (pgs (pg_ctx c) ! pg)" "pg < length (pgs (pg_ctx c))"
    using assms(2) us by (auto simp: locks_free_def list_all_length)
  define g where "g = (if is_admin_q env q then pg_glob c else (pg_glob c)\<lparr>virtio_pg_usage := Some (us[pg := us ! pg - 1])\<rparr>)"
  have w: "ctrl_wf (c\<lparr>pg_glob := g\<rparr>)" using assms(1) us by (auto simp: ctrl_wf_def queues_wf_def pgs_wf_def g_def)
  have l': "\<not> pg_locked (pgs (pg_ctx (c\<lparr>pg_glob := g\<rparr>)) ! pg)" "pg < length (pgs (pg_ctx (c\<lparr>pg_glob := g\<rparr>)))" using l by simp_all
  have s: "(set_q vq r d)\<lparr>pg_ctx := x\<rparr> = set_q vq r (d\<lparr>pg_ctx := x\<rparr>)" for r x and d :: "'a snap_virtio_ctrl"
    by (simp add: set_q_def)
  have d: "(let c = c\<lparr>pg_ctx := pg_lock pg (pg_ctx c)\<rparr> in
      if is_admin_q env q then c
      else case snap_pg_usage_decrease (nat (pg_id (pgs (pg_ctx c) ! pg))) (pg_glob c) of
             None \<Rightarrow> c\<lparr>fault := True\<rparr> | Some g \<Rightarrow> c\<lparr>pg_glob := g\<rparr>) =
      c\<lparr>pg_glob := g\<rparr>\<lparr>pg_ctx := pg_lock pg (pg_ctx (c\<lparr>pg_glob := g\<rparr>))\<rparr>"
    using us l by (simp add: g_def snap_pg_usage_decrease_def pg_lock_set Let_def)
  have "snap_virtio_ctrl_desched_q env vq c = snap_virtio_ctrl_desched_q_nolock vq (c\<lparr>pg_glob := g\<rparr>)"
    using assms(3) Some lock_op_unlock [OF l', of "remove1 vq"] d
    unfolding snap_virtio_ctrl_desched_q_def snap_virtio_ctrl_desched_q_nolock_def with_q_def Let_def
    by (simp add: s)
  with desched_nolock_ok [OF w, of vq q] assms(3) show ?thesis by (simp add: same_shape_def)
qed

section \<open>Creating and stopping queues\<close>

lemma with_q_queues:
  assumes "\<And>q. f q (c\<lparr>queues := qs\<rparr>) = (f q c)\<lparr>queues := qs\<rparr>"
  shows "with_q vq f (c\<lparr>queues := qs\<rparr>) = (with_q vq f c)\<lparr>queues := qs\<rparr>"
  using assms by (cases "heap c vq") (simp_all add: with_q_def)

lemma set_q_queues: "set_q vq q (c\<lparr>queues := qs\<rparr>) = (set_q vq q c)\<lparr>queues := qs\<rparr>"
  by (simp add: set_q_def)

lemma pg_q_list_upd_queues: "pg_q_list_upd pg f (c\<lparr>queues := qs\<rparr>) = (pg_q_list_upd pg f c)\<lparr>queues := qs\<rparr>"
  by (simp add: pg_q_list_upd_def)

lemma sched_nolock_queues:
  "snap_virtio_ctrl_sched_q_nolock env vq pg (c\<lparr>queues := qs\<rparr>) = (snap_virtio_ctrl_sched_q_nolock env vq pg c)\<lparr>queues := qs\<rparr>"
  unfolding snap_virtio_ctrl_sched_q_nolock_def
  by (rule with_q_queues) (simp add: Let_def set_q_queues pg_q_list_upd_queues split: option.split)

lemma desched_nolock_queues:
  "snap_virtio_ctrl_desched_q_nolock vq (c\<lparr>queues := qs\<rparr>) = (snap_virtio_ctrl_desched_q_nolock vq c)\<lparr>queues := qs\<rparr>"
  unfolding snap_virtio_ctrl_desched_q_nolock_def
  by (rule with_q_queues) (simp add: set_q_queues pg_q_list_upd_queues split: option.split)

lemma sched_q_queues:
  "snap_virtio_ctrl_sched_q env vq (c\<lparr>queues := qs\<rparr>) = (snap_virtio_ctrl_sched_q env vq c)\<lparr>queues := qs\<rparr>"
  unfolding snap_virtio_ctrl_sched_q_def
proof (rule with_q_queues)
  fix q
  obtain pg c1 where n: "snap_virtio_ctrl_next_pg_get env q c = (pg, c1)" by (cases "snap_virtio_ctrl_next_pg_get env q c")
  then have "snap_virtio_ctrl_next_pg_get env q (c\<lparr>queues := qs\<rparr>) = (pg, c1\<lparr>queues := qs\<rparr>)"
    by (cases "is_admin_q env q"; cases "snap_pg_get_next (pg_ctx c) (pg_glob c)")
       (auto simp: snap_virtio_ctrl_next_pg_get_def snap_pg_get_admin_def)
  moreover have comm: "d\<lparr>queues := qs, pg_ctx := x\<rparr> = d\<lparr>pg_ctx := x, queues := qs\<rparr>" for d :: "'a snap_virtio_ctrl" and x by simp
  ultimately show "(let (pg, c) = snap_virtio_ctrl_next_pg_get env q (c\<lparr>queues := qs\<rparr>); c = c\<lparr>pg_ctx := pg_lock pg (pg_ctx c)\<rparr>;
             c = snap_virtio_ctrl_sched_q_nolock env vq pg c in c\<lparr>pg_ctx := pg_unlock pg (pg_ctx c)\<rparr>) =
         (let (pg, c) = snap_virtio_ctrl_next_pg_get env q c; c = c\<lparr>pg_ctx := pg_lock pg (pg_ctx c)\<rparr>;
             c = snap_virtio_ctrl_sched_q_nolock env vq pg c in c\<lparr>pg_ctx := pg_unlock pg (pg_ctx c)\<rparr>)\<lparr>queues := qs\<rparr>"
    using n by (simp add: Let_def comm sched_nolock_queues)
qed

lemma sched_q_keeps_queues: "queues (snap_virtio_ctrl_sched_q env vq c) = queues c"
  using arg_cong [where f = queues, OF sched_q_queues [where env = env and vq = vq and c = c and qs = "queues c"]] by simp

text \<open>A queue is created in a free place of the array.\<close>

lemma queue_create_ok:
  assumes "ctrl_wf c" and "locks_free (pg_ctx c)" and "i < max_queues c" and "queues c ! i = None"
    and "snap_virtio_ctrl_queue_create env i c = (Some vq, c')"
  shows "ctrl_wf (c'\<lparr>queues := (queues c')[i := Some vq]\<rparr>) \<and> life c' = life c \<and> flags c' = flags c \<and> queues c' = queues c"
proof -
  obtain impl where impl: "qo_create (q_ops env) (ctrl_state c) (bar_curr c) i = Some impl" and vq: "vq = heap_next c"
    using assms(5) by (auto simp: snap_virtio_ctrl_queue_create_def Let_def split: option.splits)
  define q where "q = \<lparr>cq_index = i, cq_pg = None, cq_log_writes_to_host = log_writes_to_host c, cq_thread_id = 0, cq_impl = impl\<rparr>"
  define c1 where "c1 = set_q vq q (c\<lparr>heap_next := heap_next c + 1\<rparr>)"
  let ?qs = "(queues c)[i := Some vq]"
  have c': "c' = (if snap_virtio_ctrl_is_suspended c1 then c1 else snap_virtio_ctrl_sched_q env vq c1)"
    using assms(5) impl by (auto simp: snap_virtio_ctrl_queue_create_def Let_def c1_def q_def vq)
  have w: "ctrl_wf (c1\<lparr>queues := ?qs\<rparr>)"
    using wf_new_queue [OF assms(1,3,4), of q] by (simp add: c1_def vq q_def)
  have c1: "life c1 = life c" "flags c1 = flags c" "queues c1 = queues c" by (simp_all add: c1_def)
  have l: "locks_free (pg_ctx (c1\<lparr>queues := ?qs\<rparr>))" using assms(2) flags_locks_free [OF c1(2)] by simp
  show ?thesis
  proof (cases "snap_virtio_ctrl_is_suspended c1")
    case True
    with w c' c1 show ?thesis by simp
  next
    case False
    have h: "heap (c1\<lparr>queues := ?qs\<rparr>) vq = Some q" by (simp add: c1_def)
    from sched_q_ok [OF w l h] have
      "ctrl_wf (c'\<lparr>queues := ?qs\<rparr>) \<and> same_shape (c1\<lparr>queues := ?qs\<rparr>) (c'\<lparr>queues := ?qs\<rparr>)"
      using False c' by (simp add: q_def sched_q_queues)
    moreover have "queues c' = queues c" using False c' c1(3) by (simp add: sched_q_keeps_queues)
    ultimately show ?thesis using c1 by (simp add: same_shape_def)
  qed
qed

lemma stop_queue_ok:
  assumes "ctrl_wf c" and "locks_free (pg_ctx c)" and "i < max_queues c"
  shows "ctrl_wf (stop_queue env i c) \<and> life (stop_queue env i c) = life c \<and> flags (stop_queue env i c) = flags c \<and>
     queues (stop_queue env i c) = (queues c)[i := None]"
proof (cases "queues c ! i")
  case None
  then have "(queues c)[i := None] = queues c" by (metis list_update_id)
  with None assms(1) show ?thesis by (simp add: stop_queue_def)
next
  case (Some vq)
  obtain q where q: "heap c vq = Some q" "cq_index q = i" by (rule wf_queue [OF assms(1,3) Some])
  let ?d = "snap_virtio_ctrl_desched_q env vq c"
  from desched_q_ok [OF assms(1,2) q(1), of env] have d: "ctrl_wf ?d" "same_shape c ?d"
    "heap ?d = (heap c)(vq := Some (q\<lparr>cq_pg := None\<rparr>))" by blast+
  have e: "stop_queue env i c = ?d\<lparr>heap := (heap ?d)(vq := None), queues := (queues ?d)[i := None]\<rparr>"
    using Some d by (simp add: stop_queue_def snap_virtio_ctrl_queue_destroy_def with_q_def same_shape_def)
  have m: "max_queues ?d = max_queues c" using d(2) life_fields(4) by (auto simp: same_shape_def)
  from wf_drop_queue [OF d(1), of i vq "q\<lparr>cq_pg := None\<rparr>"] d assms(3) m Some show ?thesis
    by (simp add: e same_shape_def)
qed

text \<open>Between the calls into the controller.\<close>

definition ctrl_ok :: "'q snap_virtio_ctrl \<Rightarrow> bool" where
  "ctrl_ok c \<longleftrightarrow> ctrl_wf c \<and> locks_free (pg_ctx c)"

lemma create_queues_ok:
  assumes "ctrl_ok c" and "distinct is" and "\<forall>i \<in> set is. i < max_queues c \<and> queues c ! i = None"
    and "\<forall>i. qo_create (q_ops env) (ctrl_state c) (bar_curr c) i \<noteq> None"
  shows "\<exists>c'. create_queues env is c = (None, c') \<and> ctrl_ok c' \<and> life c' = life c \<and>
     (\<forall>i < max_queues c. queues c' ! i = None \<longleftrightarrow> (if i \<in> set is then \<not> vq_enabled c i else queues c ! i = None))"
  using assms
proof (induction "is" arbitrary: c)
  case (Cons i "is")
  have len: "length (queues c) = max_queues c" using Cons.prems(1) by (simp add: ctrl_ok_def ctrl_wf_def queues_wf_def)
  show ?case
  proof (cases "vq_enabled c i")
    case True
    obtain vq c1 where cr: "snap_virtio_ctrl_queue_create env i c = (Some vq, c1)"
    proof -
      obtain impl where "qo_create (q_ops env) (ctrl_state c) (bar_curr c) i = Some impl" using Cons.prems(4) by auto
      then show ?thesis using that by (simp add: snap_virtio_ctrl_queue_create_def Let_def)
    qed
    let ?c = "c1\<lparr>queues := (queues c1)[i := Some vq]\<rparr>"
    from queue_create_ok [OF _ _ _ _ cr] Cons.prems have q: "ctrl_wf ?c" "life c1 = life c" "flags c1 = flags c" "queues c1 = queues c"
      by (auto simp: ctrl_ok_def)
    have l: "max_queues ?c = max_queues c" "ctrl_state ?c = ctrl_state c" "bar_curr ?c = bar_curr c" "vq_enabled ?c = vq_enabled c"
      using life_fields [OF q(2)] by (simp_all add: vq_enabled_def fun_eq_iff)
    have ok: "ctrl_ok ?c" using q Cons.prems(1) flags_locks_free [of c1 c] by (simp add: ctrl_ok_def)
    obtain c' where c': "create_queues env is ?c = (None, c')" "ctrl_ok c'" "life c' = life ?c"
      "\<forall>j < max_queues ?c. queues c' ! j = None \<longleftrightarrow> (if j \<in> set is then \<not> vq_enabled ?c j else queues ?c ! j = None)"
    proof -
      have "(queues c)[i := Some vq] ! j = queues c ! j" if "j \<in> set is" for j
        using Cons.prems(2) that by (metis distinct.simps(2) nth_list_update_neq)
      then have "\<forall>j \<in> set is. j < max_queues ?c \<and> queues ?c ! j = None"
        using Cons.prems(3) l(1) q(4) by simp
      with Cons.prems(2,4) l Cons.IH [OF ok] that show ?thesis by auto
    qed
    have "create_queues env (i # is) c = (None, c')" using True cr c'(1) by simp
    with c' l q True Cons.prems(2,3) len show ?thesis by (auto simp: nth_list_update)
  next
    case False
    with Cons.IH [OF Cons.prems(1)] Cons.prems obtain c' where "create_queues env is c = (None, c')" "ctrl_ok c'" "life c' = life c"
      "\<forall>j < max_queues c. queues c' ! j = None \<longleftrightarrow> (if j \<in> set is then \<not> vq_enabled c j else queues c ! j = None)" by auto
    with False Cons.prems show ?thesis by (intro exI [of _ c']) auto
  qed
qed simp

lemma stop_queues_ok:
  assumes "ctrl_ok c" and "\<forall>i \<in> set is. i < max_queues c"
  shows "ctrl_ok (fold (stop_queue env) is c) \<and> life (fold (stop_queue env) is c) = life c \<and>
     (\<forall>i < max_queues c. queues (fold (stop_queue env) is c) ! i = (if i \<in> set is then None else queues c ! i))"
  using assms
proof (induction "is" arbitrary: c)
  case (Cons i "is")
  let ?c = "stop_queue env i c"
  from stop_queue_ok [of c i env] Cons.prems have s: "ctrl_wf ?c" "life ?c = life c" "flags ?c = flags c" "queues ?c = (queues c)[i := None]"
    by (auto simp: ctrl_ok_def)
  have ok: "ctrl_ok ?c" using s(1,3) Cons.prems(1) flags_locks_free [of ?c c] by (simp add: ctrl_ok_def)
  have m: "max_queues ?c = max_queues c" by (rule life_fields(4) [OF s(2)])
  have len: "length (queues c) = max_queues c" using Cons.prems(1) by (simp add: ctrl_ok_def ctrl_wf_def queues_wf_def)
  from Cons.IH [OF ok] Cons.prems m s len show ?case by (auto simp: nth_list_update)
qed simp

section \<open>Start, stop and reset\<close>

text \<open>The queue implementation can create queues and the application accepts the start.\<close>

definition starts :: "'q ctrl_env \<Rightarrow> bool" where
  "starts env \<longleftrightarrow> (\<forall>st bar i. qo_create (q_ops env) st bar i \<noteq> None) \<and> (case cb_start env of None \<Rightarrow> True | Some r \<Rightarrow> r = 0)"

definition no_queues :: "'q snap_virtio_ctrl \<Rightarrow> bool" where
  "no_queues c \<longleftrightarrow> (\<forall>i < max_queues c. queues c ! i = None)"

text \<open>Starting a controller without queues creates exactly the enabled ones.\<close>

lemma start_ok:
  assumes "ctrl_ok c" and "starts env" and "ctrl_state c \<in> {SNAP_VIRTIO_CTRL_STOPPED, SNAP_VIRTIO_CTRL_SUSPENDED}" and "no_queues c"
  shows "\<exists>c1. life c1 = life c \<and> ctrl_ok c1 \<and> (\<forall>i < max_queues c. queues c1 ! i = None \<longleftrightarrow> \<not> vq_enabled c i) \<and>
     snap_virtio_ctrl_start env c = (0, if ctrl_state c = SNAP_VIRTIO_CTRL_SUSPENDED then c1
       else c1\<lparr>ctrl_state := SNAP_VIRTIO_CTRL_STARTED, lm_state := SNAP_VIRTIO_CTRL_LM_RUNNING\<rparr>)"
proof -
  have s: "ctrl_state c \<noteq> SNAP_VIRTIO_CTRL_STARTED" "ctrl_state c \<noteq> SNAP_VIRTIO_CTRL_SUSPENDING" using assms(3) by auto
  obtain c1 where c1: "create_queues env [0..<max_queues c] c = (None, c1)" "ctrl_ok c1" "life c1 = life c"
    "\<forall>i < max_queues c. queues c1 ! i = None \<longleftrightarrow> (if i \<in> set [0..<max_queues c] then \<not> vq_enabled c i else queues c ! i = None)"
    using create_queues_ok [OF assms(1), of "[0..<max_queues c]" env] assms(2,4) by (auto simp: starts_def no_queues_def)
  have st: "ctrl_state c1 = ctrl_state c" by (rule life_fields(1) [OF c1(3)])
  have "(case cb_start env of None \<Rightarrow> 0 | Some r \<Rightarrow> r) = 0" using assms(2) by (auto simp: starts_def split: option.splits)
  then have "snap_virtio_ctrl_start env c = (0, if ctrl_state c = SNAP_VIRTIO_CTRL_SUSPENDED then c1
       else c1\<lparr>ctrl_state := SNAP_VIRTIO_CTRL_STARTED, lm_state := SNAP_VIRTIO_CTRL_LM_RUNNING\<rparr>)"
    using s st c1(1) unfolding snap_virtio_ctrl_start_def by simp
  with c1 show ?thesis by (intro exI [of _ c1]) auto
qed

lemma stop_ok:
  assumes "ctrl_ok c" and "ctrl_state c = SNAP_VIRTIO_CTRL_STOPPED \<longrightarrow> no_queues c"
  shows "\<exists>c1. life c1 = life c \<and> ctrl_ok c1 \<and> no_queues c1 \<and>
     (snap_virtio_ctrl_stop env c = (0, c1\<lparr>ctrl_state := SNAP_VIRTIO_CTRL_STOPPED\<rparr>) \<or>
      ctrl_state c \<noteq> SNAP_VIRTIO_CTRL_STOPPED \<and> (\<exists>r. r \<noteq> 0 \<and> snap_virtio_ctrl_stop env c = (r, c1)))"
proof (cases "ctrl_state c = SNAP_VIRTIO_CTRL_STOPPED")
  case True
  then have "c\<lparr>ctrl_state := SNAP_VIRTIO_CTRL_STOPPED\<rparr> = c" by (cases c) simp
  with True assms show ?thesis by (intro exI [of _ c]) (simp add: snap_virtio_ctrl_stop_def)
next
  case False
  let ?c = "fold (stop_queue env) [0..<max_queues c] c"
  from stop_queues_ok [OF assms(1), of "[0..<max_queues c]" env] have s: "ctrl_ok ?c" "life ?c = life c"
    "\<forall>i < max_queues c. queues ?c ! i = None" by auto
  then have n: "no_queues ?c" using life_fields(4) [OF s(2)] by (simp add: no_queues_def)
  show ?thesis
    by (rule exI [of _ ?c]) (use s(1,2) n False in \<open>auto simp: snap_virtio_ctrl_stop_def Let_def\<close>)
qed

text \<open>The relation between the life-cycle state, the migration state and the pending requests.\<close>

definition lm_ok :: "'q snap_virtio_ctrl \<Rightarrow> bool" where
  "lm_ok c \<longleftrightarrow>
     (lm_state c \<in> {SNAP_VIRTIO_CTRL_LM_QUIESCED, SNAP_VIRTIO_CTRL_LM_FREEZED} \<longrightarrow>
        ctrl_state c \<in> {SNAP_VIRTIO_CTRL_STOPPED, SNAP_VIRTIO_CTRL_SUSPENDED}) \<and>
     (is_quiesce c \<longleftrightarrow> quiesce_cmd c \<noteq> None) \<and> (is_quiesce c \<longrightarrow> ctrl_state c = SNAP_VIRTIO_CTRL_SUSPENDING) \<and>
     \<not> pending_resume c \<and> (ctrl_state c = SNAP_VIRTIO_CTRL_STOPPED \<longrightarrow> no_queues c) \<and> \<not> transitional_device c"

definition ctrl_inv :: "'q snap_virtio_ctrl \<Rightarrow> bool" where
  "ctrl_inv c \<longleftrightarrow> ctrl_ok c \<and> lm_ok c"

lemma ctrl_ok_cong:
  assumes "queues c' = queues c" "max_queues c' = max_queues c" "heap c' = heap c" "heap_next c' = heap_next c"
    "pg_ctx c' = pg_ctx c" "pg_glob c' = pg_glob c" "fault c' = fault c"
  shows "ctrl_ok c' = ctrl_ok c"
  using ctrl_wf_cong [OF assms] assms(5) by (simp add: ctrl_ok_def)

lemma ctrl_ok_simps [simp]:
  "ctrl_ok (c\<lparr>ctrl_state := s\<rparr>) = ctrl_ok c" "ctrl_ok (c\<lparr>lm_state := m\<rparr>) = ctrl_ok c" "ctrl_ok (c\<lparr>bar_curr := b\<rparr>) = ctrl_ok c"
  "ctrl_ok (c\<lparr>bar_prev := b\<rparr>) = ctrl_ok c" "ctrl_ok (c\<lparr>bar_queries := n\<rparr>) = ctrl_ok c" "ctrl_ok (c\<lparr>progress_locked := l\<rparr>) = ctrl_ok c"
  "ctrl_ok (c\<lparr>pending_reset := l\<rparr>) = ctrl_ok c" "ctrl_ok (c\<lparr>ignore_reset := l\<rparr>) = ctrl_ok c" "ctrl_ok (c\<lparr>pending_flr := l\<rparr>) = ctrl_ok c"
  "ctrl_ok (c\<lparr>is_quiesce := l\<rparr>) = ctrl_ok c" "ctrl_ok (c\<lparr>quiesce_cmd := q\<rparr>) = ctrl_ok c" "ctrl_ok (c\<lparr>adm_completed := a\<rparr>) = ctrl_ok c"
  "ctrl_ok (c\<lparr>pending_resume := l\<rparr>) = ctrl_ok c" "ctrl_ok (c\<lparr>vfs_changed := v\<rparr>) = ctrl_ok c" "ctrl_ok (c\<lparr>log_writes_to_host := l\<rparr>) = ctrl_ok c"
  by (rule ctrl_ok_cong; simp)+

lemma no_queues_simps [simp]:
  "no_queues (c\<lparr>ctrl_state := s\<rparr>) = no_queues c" "no_queues (c\<lparr>lm_state := m\<rparr>) = no_queues c" "no_queues (c\<lparr>bar_curr := b\<rparr>) = no_queues c"
  "no_queues (c\<lparr>bar_prev := b\<rparr>) = no_queues c" "no_queues (c\<lparr>bar_queries := n\<rparr>) = no_queues c" "no_queues (c\<lparr>progress_locked := l\<rparr>) = no_queues c"
  "no_queues (c\<lparr>pending_reset := l\<rparr>) = no_queues c" "no_queues (c\<lparr>ignore_reset := l\<rparr>) = no_queues c" "no_queues (c\<lparr>pending_flr := l\<rparr>) = no_queues c"
  "no_queues (c\<lparr>is_quiesce := l\<rparr>) = no_queues c" "no_queues (c\<lparr>quiesce_cmd := q\<rparr>) = no_queues c" "no_queues (c\<lparr>adm_completed := a\<rparr>) = no_queues c"
  "no_queues (c\<lparr>pending_resume := l\<rparr>) = no_queues c" "no_queues (c\<lparr>vfs_changed := v\<rparr>) = no_queues c"
  by (simp_all add: no_queues_def)

text \<open>What lm_ok reads.\<close>

definition lm_view :: "'q snap_virtio_ctrl \<Rightarrow> _" where
  "lm_view c = (ctrl_state c, lm_state c, is_quiesce c, quiesce_cmd c, pending_resume c, transitional_device c, max_queues c, progress_locked c,
     adm_completed c)"

lemma lm_view_life: "life c' = life c \<Longrightarrow> lm_view c' = lm_view c"
  by (simp add: life_def lm_view_def)

lemma device_error_ok:
  "ctrl_ok (snd (snap_virtio_ctrl_device_error env c)) = ctrl_ok c" "lm_view (snd (snap_virtio_ctrl_device_error env c)) = lm_view c"
  "queues (snd (snap_virtio_ctrl_device_error env c)) = queues c"
  by (simp_all add: snap_virtio_ctrl_device_error_def Let_def lm_view_def)

lemma clear_reset_ok:
  "ctrl_ok (snd (snap_virtio_ctrl_clear_reset env c)) = ctrl_ok c" "lm_view (snd (snap_virtio_ctrl_clear_reset env c)) = lm_view c"
  "queues (snd (snap_virtio_ctrl_clear_reset env c)) = queues c"
  by (simp_all add: snap_virtio_ctrl_clear_reset_def Let_def lm_view_def)

text \<open>Stopping keeps the invariant as soon as no quiesce waits for the suspend.\<close>

lemma stop_inv:
  assumes "ctrl_ok c" and "ctrl_state c = SNAP_VIRTIO_CTRL_STOPPED \<longrightarrow> no_queues c"
  shows "ctrl_ok (snd (snap_virtio_ctrl_stop env c)) \<and> no_queues (snd (snap_virtio_ctrl_stop env c)) \<and>
     (\<exists>s \<in> {SNAP_VIRTIO_CTRL_STOPPED, ctrl_state c}. lm_view (snd (snap_virtio_ctrl_stop env c)) = lm_view (c\<lparr>ctrl_state := s\<rparr>) \<and>
        (fst (snap_virtio_ctrl_stop env c) = 0 \<longrightarrow> s = SNAP_VIRTIO_CTRL_STOPPED))"
proof -
  obtain c1 where c1: "life c1 = life c" "ctrl_ok c1" "no_queues c1"
    "snap_virtio_ctrl_stop env c = (0, c1\<lparr>ctrl_state := SNAP_VIRTIO_CTRL_STOPPED\<rparr>) \<or>
     (\<exists>r. r \<noteq> 0 \<and> snap_virtio_ctrl_stop env c = (r, c1))"
    using stop_ok [OF assms, of env] by blast
  have v: "lm_view (c1\<lparr>ctrl_state := s\<rparr>) = lm_view (c\<lparr>ctrl_state := s\<rparr>)" "lm_view c1 = lm_view (c\<lparr>ctrl_state := ctrl_state c\<rparr>)" for s
    using c1(1) by (simp_all add: life_def lm_view_def)
  from c1(4) show ?thesis using c1(2,3) v by auto
qed

lemma reset_inv:
  assumes "ctrl_ok c" and "ctrl_state c = SNAP_VIRTIO_CTRL_STOPPED \<longrightarrow> no_queues c"
  shows "ctrl_ok (snd (snap_virtio_ctrl_reset env c)) \<and> no_queues (snd (snap_virtio_ctrl_reset env c)) \<and>
     (\<exists>s \<in> {SNAP_VIRTIO_CTRL_STOPPED, ctrl_state c}. lm_view (snd (snap_virtio_ctrl_reset env c)) = lm_view (c\<lparr>ctrl_state := s\<rparr>))"
proof -
  obtain r c1 where e: "snap_virtio_ctrl_stop env c = (r, c1)" by (cases "snap_virtio_ctrl_stop env c")
  from stop_inv [OF assms, of env, unfolded e] obtain s where s: "ctrl_ok c1" "no_queues c1" "s \<in> {SNAP_VIRTIO_CTRL_STOPPED, ctrl_state c}"
    "lm_view c1 = lm_view (c\<lparr>ctrl_state := s\<rparr>)" unfolding fst_conv snd_conv by blast
  have m: "no_queues (snd (snap_virtio_ctrl_clear_reset env c1)) = no_queues c1"
    using clear_reset_ok(2,3) [of env c1] by (simp add: no_queues_def lm_view_def)
  show ?thesis using s e m clear_reset_ok(1,2) [of env c1] by (auto simp: snap_virtio_ctrl_reset_def)
qed

section \<open>Suspend and resume\<close>

text \<open>The loops that change every queue of the array: neither its index nor its group.\<close>

definition upd_queue :: "('q snap_virtio_ctrl_queue \<Rightarrow> 'q snap_virtio_ctrl_queue) \<Rightarrow> nat \<Rightarrow> 'q snap_virtio_ctrl \<Rightarrow> 'q snap_virtio_ctrl" where
  "upd_queue g i c =
     (case queues c ! i of
        None \<Rightarrow> c
      | Some vq \<Rightarrow> with_q vq (\<lambda>q c. set_q vq (g q) c) c)"

lemma upd_queues_ok:
  assumes "\<And>q. cq_index (g q) = cq_index q \<and> cq_pg (g q) = cq_pg q" and "ctrl_wf c" and "\<forall>i \<in> set is. i < max_queues c"
  shows "ctrl_wf (fold (upd_queue g) is c) \<and> life (fold (upd_queue g) is c) = life c \<and> pg_ctx (fold (upd_queue g) is c) = pg_ctx c \<and>
     queues (fold (upd_queue g) is c) = queues c"
  using assms(2,3)
proof (induction "is" arbitrary: c)
  case (Cons i "is")
  have "ctrl_wf (upd_queue g i c) \<and> life (upd_queue g i c) = life c \<and> pg_ctx (upd_queue g i c) = pg_ctx c \<and> queues (upd_queue g i c) = queues c"
  proof (cases "queues c ! i")
    case (Some vq)
    obtain q where q: "heap c vq = Some q" using wf_queue [OF Cons.prems(1) _ Some] Cons.prems(2) by auto
    with wf_set_q [OF Cons.prems(1) q, of "g q"] Some assms(1) show ?thesis by (simp add: upd_queue_def with_q_def)
  qed (use Cons.prems in \<open>simp add: upd_queue_def\<close>)
  with Cons.IH [of "upd_queue g i c"] Cons.prems(2) show ?case by (auto dest: life_fields(4))
qed simp

lemma upd_queues_pg_ctx: "fold (upd_queue g) is (c\<lparr>pg_ctx := x\<rparr>) = (fold (upd_queue g) is c)\<lparr>pg_ctx := x\<rparr>"
proof (induction "is" arbitrary: c)
  case (Cons i "is")
  have "upd_queue g i (c\<lparr>pg_ctx := x\<rparr>) = (upd_queue g i c)\<lparr>pg_ctx := x\<rparr>"
    by (cases "queues c ! i"; cases "heap c (the (queues c ! i))") (simp_all add: upd_queue_def with_q_def set_q_def)
  with Cons.IH show ?case by simp
qed simp

text \<open>With all groups stopped in between, nothing else changes.\<close>

lemma stopped_upd_queues_ok:
  assumes "\<And>q. cq_index (g q) = cq_index q \<and> cq_pg (g q) = cq_pg q" and "ctrl_ok c"
  shows "ctrl_ok (pgs_resume (fold (upd_queue g) [0..<max_queues c] (pgs_suspend c))) \<and>
     life (pgs_resume (fold (upd_queue g) [0..<max_queues c] (pgs_suspend c))) = life c \<and>
     queues (pgs_resume (fold (upd_queue g) [0..<max_queues c] (pgs_suspend c))) = queues c"
proof -
  let ?d = "fold (upd_queue g) [0..<max_queues c] c"
  have u: "ctrl_wf ?d" "life ?d = life c" "pg_ctx ?d = pg_ctx c" "queues ?d = queues c"
    using upd_queues_ok [of g c "[0..<max_queues c]"] assms by (auto simp: ctrl_ok_def)
  have "pgs_resume (fold (upd_queue g) [0..<max_queues c] (pgs_suspend c)) = ?d"
    using assms(2) u(3) by (simp add: pgs_suspend_def pgs_resume_def upd_queues_pg_ctx ctrl_ok_def snap_pgs_suspend_resume)
  with u assms(2) show ?thesis by (simp add: ctrl_ok_def)
qed

lemma suspend_ok:
  assumes "ctrl_ok c"
  shows "ctrl_ok (snd (snap_virtio_ctrl_suspend env c)) \<and> queues (snd (snap_virtio_ctrl_suspend env c)) = queues c \<and>
     lm_view (snd (snap_virtio_ctrl_suspend env c)) = lm_view (c\<lparr>ctrl_state :=
       (if ctrl_state c \<noteq> SNAP_VIRTIO_CTRL_STARTED then ctrl_state c
        else if qo_suspend (q_ops env) = None then SNAP_VIRTIO_CTRL_SUSPENDED else SNAP_VIRTIO_CTRL_SUSPENDING)\<rparr>) \<and>
     (fst (snap_virtio_ctrl_suspend env c) = 0 \<longleftrightarrow> ctrl_state c \<in> {SNAP_VIRTIO_CTRL_STARTED, SNAP_VIRTIO_CTRL_SUSPENDING})"
proof (cases "ctrl_state c = SNAP_VIRTIO_CTRL_STARTED")
  case started: True
  show ?thesis
  proof (cases "qo_suspend (q_ops env)")
    case None
    with started assms show ?thesis by (simp add: snap_virtio_ctrl_suspend_def lm_view_def)
  next
    case (Some f)
    have u: "suspend_queue f = upd_queue (\<lambda>q. q\<lparr>cq_impl := f (cq_impl q)\<rparr>)"
      by (simp add: fun_eq_iff suspend_queue_def upd_queue_def)
    from stopped_upd_queues_ok [OF _ assms, of "\<lambda>q. q\<lparr>cq_impl := f (cq_impl q)\<rparr>"] started Some show ?thesis
      by (simp add: snap_virtio_ctrl_suspend_def u lm_view_def) (simp add: life_def)
  qed
next
  case False
  have "lm_view (c\<lparr>ctrl_state := ctrl_state c\<rparr>) = lm_view c" by (simp add: lm_view_def)
  with False assms show ?thesis by (simp add: snap_virtio_ctrl_suspend_def)
qed

lemma resume_queues_ok:
  assumes "ctrl_wf c" and "\<forall>i \<in> set is. i < max_queues c" and "resume_queues env f is n c = (r, m, c')"
  shows "ctrl_wf c' \<and> same_shape c c'"
  using assms
proof (induction "is" arbitrary: c n)
  case (Cons i "is")
  show ?case
  proof (cases "queues c ! i")
    case None
    with Cons show ?thesis by simp
  next
    case (Some vq)
    obtain q where q: "heap c vq = Some q" "cq_index q = i" using wf_queue [OF Cons.prems(1) _ Some] Cons.prems(2) by auto
    obtain ret impl where f: "f (bar_curr c) (cq_index q) (cq_impl q) = (ret, impl)" by (cases "f (bar_curr c) (cq_index q) (cq_impl q)")
    let ?q = "q\<lparr>cq_impl := impl\<rparr>" and ?c = "set_q vq (q\<lparr>cq_impl := impl\<rparr>) c"
    have w: "ctrl_wf ?c" "same_shape c ?c" using wf_set_q [OF Cons.prems(1) q(1), of ?q] by (simp_all add: same_shape_def)
    show ?thesis
    proof (cases "ret = 0")
      case False
      with Cons.prems(3) Some q f w show ?thesis by simp
    next
      case True
      obtain pg c1 where n: "(case cq_pg ?q of Some pg \<Rightarrow> (pg, ?c) | None \<Rightarrow> snap_virtio_ctrl_next_pg_get env ?q ?c) = (pg, c1)"
        by (cases "case cq_pg ?q of Some pg \<Rightarrow> (pg, ?c) | None \<Rightarrow> snap_virtio_ctrl_next_pg_get env ?q ?c")
      have c1: "ctrl_wf c1 \<and> pg < npgs (pg_ctx c1) \<and> pg_id (pgs (pg_ctx c1) ! pg) = int pg \<and> same_shape ?c c1 \<and> heap c1 = heap ?c"
      proof (cases "cq_pg ?q")
        case None
        with n next_pg_get_ok [OF w(1)] show ?thesis by simp
      next
        case (Some p)
        with n w(1) have "pg = p" "c1 = ?c" by simp_all
        moreover have "heap ?c vq = Some ?q" by simp
        with w(1) Some have "p < npgs (pg_ctx ?c) \<and> pg_id (pgs (pg_ctx ?c) ! p) = int p" unfolding ctrl_wf_def pgs_wf_def by blast
        ultimately show ?thesis using w(1) by simp
      qed
      let ?c2 = "snap_virtio_ctrl_desched_q_nolock vq c1"
      from c1 have "heap c1 vq = Some ?q" by simp
      from desched_nolock_ok [of c1 vq, OF _ this] c1 have c2: "ctrl_wf ?c2" "same_shape c1 ?c2"
        "heap ?c2 vq = Some (?q\<lparr>cq_pg := None\<rparr>)" "pg < npgs (pg_ctx ?c2)" "pg_id (pgs (pg_ctx ?c2) ! pg) = int pg" by auto
      let ?c3 = "snap_virtio_ctrl_sched_q_nolock env vq pg ?c2"
      from sched_nolock_ok [OF c2(1,3) _ c2(4,5), of env] have c3: "ctrl_wf ?c3" "same_shape ?c2 ?c3" by auto
      have sh: "same_shape c ?c3" using w(2) c1 c2(2) c3(2) by (meson same_shape_trans)
      have "resume_queues env f (i # is) n c = resume_queues env f is (n + 1) ?c3"
        using Some q(1) f True n by (simp add: Let_def)
      with Cons.prems(3) have e: "resume_queues env f is (n + 1) ?c3 = (r, m, c')" by simp
      have "\<forall>j \<in> set is. j < max_queues ?c3" using Cons.prems(2) sh by (auto simp: same_shape_def dest: life_fields(4))
      from Cons.IH [OF c3(1) this e] sh show ?thesis using same_shape_trans by blast
    qed
  qed
qed simp

lemma ctrl_wf_set_locks: "ctrl_wf (c\<lparr>pg_ctx := set_locks b (pg_ctx c)\<rparr>) = ctrl_wf c"
  by (simp add: ctrl_wf_def queues_wf_def pgs_wf_def cong: conj_cong)

lemma pgs_suspend_ok:
  assumes "ctrl_ok c"
  shows "ctrl_wf (pgs_suspend c)" "locks_held (pg_ctx (pgs_suspend c))" "life (pgs_suspend c) = life c" "queues (pgs_suspend c) = queues c"
    "heap (pgs_suspend c) = heap c"
  using assms snap_pgs_suspend_locks [of "pg_ctx c"] by (simp_all add: ctrl_ok_def pgs_suspend_def ctrl_wf_set_locks)

lemma pgs_resume_ok:
  assumes "ctrl_wf c" and "locks_held (pg_ctx c)"
  shows "ctrl_ok (pgs_resume c)" "life (pgs_resume c) = life c" "queues (pgs_resume c) = queues c" "heap (pgs_resume c) = heap c"
  using assms snap_pgs_resume_locks [of "pg_ctx c"] by (simp_all add: ctrl_ok_def pgs_resume_def ctrl_wf_set_locks)

lemma resume_ok:
  assumes "ctrl_ok c" and "ctrl_state c \<in> {SNAP_VIRTIO_CTRL_STOPPED, SNAP_VIRTIO_CTRL_SUSPENDED}"
  shows "ctrl_ok (snd (snap_virtio_ctrl_resume env c)) \<and> queues (snd (snap_virtio_ctrl_resume env c)) = queues c \<and>
     (\<exists>s \<in> {ctrl_state c, SNAP_VIRTIO_CTRL_STARTED}. lm_view (snd (snap_virtio_ctrl_resume env c)) = lm_view (c\<lparr>ctrl_state := s\<rparr>) \<and>
        (ctrl_state c = SNAP_VIRTIO_CTRL_STOPPED \<longrightarrow> s = SNAP_VIRTIO_CTRL_STOPPED) \<and>
        (fst (snap_virtio_ctrl_resume env c) \<noteq> 0 \<longrightarrow> s = ctrl_state c))"
proof -
  have id: "lm_view (c\<lparr>ctrl_state := ctrl_state c\<rparr>) = lm_view c" by (simp add: lm_view_def)
  consider "ctrl_state c = SNAP_VIRTIO_CTRL_STOPPED" | "ctrl_state c = SNAP_VIRTIO_CTRL_SUSPENDED" "qo_suspend (q_ops env) = None"
    | "ctrl_state c = SNAP_VIRTIO_CTRL_SUSPENDED" "qo_suspend (q_ops env) \<noteq> None" "qo_resume (q_ops env) = None"
    | f where "ctrl_state c = SNAP_VIRTIO_CTRL_SUSPENDED" "qo_suspend (q_ops env) \<noteq> None" "qo_resume (q_ops env) = Some f"
    using assms(2) by (cases "qo_resume (q_ops env)") auto
  then show ?thesis
  proof cases
    case (4 f)
    obtain r n c1 where e: "resume_queues env f [0..<max_queues c] 0 (pgs_suspend c) = (r, n, c1)"
      by (cases "resume_queues env f [0..<max_queues c] 0 (pgs_suspend c)")
    have "\<forall>i \<in> set [0..<max_queues c]. i < max_queues (pgs_suspend c)" by (simp add: pgs_suspend_def)
    from resume_queues_ok [OF pgs_suspend_ok(1) [OF assms(1)] this e] have c1: "ctrl_wf c1" "same_shape (pgs_suspend c) c1" by auto
    then have h: "locks_held (pg_ctx c1)" using pgs_suspend_ok(2) [OF assms(1)] flags_locks_held by (auto simp: same_shape_def)
    note p = pgs_resume_ok [OF c1(1) h]
    have l: "life (pgs_resume c1) = life c" "queues (pgs_resume c1) = queues c"
      using p c1(2) pgs_suspend_ok [OF assms(1)] by (simp_all add: same_shape_def)
    have v: "lm_view (pgs_resume c1) = lm_view c" "lm_view ((pgs_resume c1)\<lparr>ctrl_state := s\<rparr>) = lm_view (c\<lparr>ctrl_state := s\<rparr>)" for s
      using l(1) by (simp_all add: life_def lm_view_def)
    show ?thesis using 4 e p(1) l(2) v id
      by (auto simp: snap_virtio_ctrl_resume_def snap_virtio_ctrl_is_stopped_def snap_virtio_ctrl_is_suspended_def Let_def)
  qed (use assms(1) id in \<open>auto simp: snap_virtio_ctrl_resume_def snap_virtio_ctrl_is_stopped_def snap_virtio_ctrl_is_suspended_def\<close>)
qed

section \<open>End of the suspend\<close>

lemma all_suspended_ok:
  assumes "ctrl_wf c" and "\<forall>i \<in> set is. i < max_queues c"
  shows "snd (all_suspended env is c) = c \<and>
     (fst (all_suspended env is c) \<longleftrightarrow>
       (\<forall>i \<in> set is. \<forall>vq q. queues c ! i = Some vq \<longrightarrow> heap c vq = Some q \<longrightarrow> qo_is_suspended (q_ops env) (cq_impl q)))"
  using assms
proof (induction "is")
  case (Cons i "is")
  show ?case
  proof (cases "queues c ! i")
    case (Some vq)
    obtain q where "heap c vq = Some q" using wf_queue [OF Cons.prems(1) _ Some] Cons.prems(2) by auto
    with Cons Some show ?thesis by simp
  qed (use Cons in simp)
qed simp

definition queues_suspended :: "'q ctrl_env \<Rightarrow> 'q snap_virtio_ctrl \<Rightarrow> bool" where
  "queues_suspended env c \<longleftrightarrow> (\<forall>vq q. heap c vq = Some q \<longrightarrow> qo_is_suspended (q_ops env) (cq_impl q))"

lemma queues_suspended_iff:
  assumes "ctrl_wf c"
  shows "queues_suspended env c \<longleftrightarrow> (\<forall>i \<in> set [0..<max_queues c]. \<forall>vq q. queues c ! i = Some vq \<longrightarrow> heap c vq = Some q \<longrightarrow>
     qo_is_suspended (q_ops env) (cq_impl q))"
  using assms unfolding queues_suspended_def ctrl_wf_def queues_wf_def by fastforce

lemma progress_suspend_eq:
  assumes "ctrl_ok c"
  shows "snap_virtio_ctrl_progress_suspend env c =
     (if \<not> queues_suspended env c then c
      else
        let c = c\<lparr>ctrl_state := SNAP_VIRTIO_CTRL_SUSPENDED\<rparr>;
            c = (if pending_reset c then (snd (snap_virtio_ctrl_reset env c))\<lparr>pending_reset := False\<rparr> else c);
            c = (if is_quiesce c then snap_virtio_ctrl_quiesce_adm_done c else c)
        in if pending_resume c then (snd (snap_virtio_ctrl_resume env c))\<lparr>pending_resume := False\<rparr> else c)"
proof -
  note s = pgs_suspend_ok [OF assms]
  have m: "max_queues (pgs_suspend c) = max_queues c" by (simp add: pgs_suspend_def)
  have w: "ctrl_wf c" using assms by (simp add: ctrl_ok_def)
  have a: "all_suspended env [0..<max_queues c] (pgs_suspend c) = (queues_suspended env c, pgs_suspend c)"
    using all_suspended_ok [OF s(1), of "[0..<max_queues c]" env] m s(4,5) unfolding queues_suspended_iff [OF w]
    by (intro prod_eqI) auto
  have r: "pgs_resume (pgs_suspend c) = c"
    using assms by (simp add: pgs_resume_def pgs_suspend_def ctrl_ok_def snap_pgs_suspend_resume)
  show ?thesis unfolding snap_virtio_ctrl_progress_suspend_def a by (simp add: r Let_def)
qed

lemma quiesce_adm_done_ok:
  assumes "quiesce_cmd c = Some cmd"
  shows "snap_virtio_ctrl_quiesce_adm_done c = c\<lparr>lm_state := SNAP_VIRTIO_CTRL_LM_QUIESCED, is_quiesce := False,
     adm_completed := adm_completed c @ [(cmd, SNAP_VIRTIO_ADMIN_STATUS_Q_OK)], quiesce_cmd := None\<rparr>"
  using assms by (simp add: snap_virtio_ctrl_quiesce_adm_done_def snap_adm_cmd_complete_def)

lemma lm_view_fields:
  assumes "lm_view c' = lm_view c"
  shows "ctrl_state c' = ctrl_state c" "lm_state c' = lm_state c" "is_quiesce c' = is_quiesce c" "quiesce_cmd c' = quiesce_cmd c"
    "pending_resume c' = pending_resume c" "transitional_device c' = transitional_device c" "max_queues c' = max_queues c"
    "progress_locked c' = progress_locked c" "adm_completed c' = adm_completed c"
  using assms by (simp_all add: lm_view_def)

lemma progress_suspend_inv:
  assumes "ctrl_inv c" and "ctrl_state c = SNAP_VIRTIO_CTRL_SUSPENDING"
  shows "ctrl_inv (snap_virtio_ctrl_progress_suspend env c) \<and>
     progress_locked (snap_virtio_ctrl_progress_suspend env c) = progress_locked c"
proof (cases "queues_suspended env c")
  case False
  with assms show ?thesis by (simp add: ctrl_inv_def progress_suspend_eq)
next
  case True
  have ok: "ctrl_ok c" and lm: "lm_ok c" using assms(1) by (auto simp: ctrl_inv_def)
  let ?s = "c\<lparr>ctrl_state := SNAP_VIRTIO_CTRL_SUSPENDED\<rparr>"
  define c1 where "c1 = (if pending_reset ?s then (snd (snap_virtio_ctrl_reset env ?s))\<lparr>pending_reset := False\<rparr> else ?s)"
  have "\<exists>s \<in> {SNAP_VIRTIO_CTRL_STOPPED, SNAP_VIRTIO_CTRL_SUSPENDED}. ctrl_ok c1 \<and> lm_view c1 = lm_view (c\<lparr>ctrl_state := s\<rparr>) \<and>
      (s = SNAP_VIRTIO_CTRL_STOPPED \<longrightarrow> no_queues c1)"
  proof (cases "pending_reset ?s")
    case True
    from reset_inv [of ?s env] ok obtain s where "s \<in> {SNAP_VIRTIO_CTRL_STOPPED, SNAP_VIRTIO_CTRL_SUSPENDED}"
      "ctrl_ok (snd (snap_virtio_ctrl_reset env ?s))" "no_queues (snd (snap_virtio_ctrl_reset env ?s))"
      "lm_view (snd (snap_virtio_ctrl_reset env ?s)) = lm_view (?s\<lparr>ctrl_state := s\<rparr>)" by auto
    then show ?thesis using True unfolding c1_def by (intro bexI [of _ s]) (auto simp: lm_view_def)
  qed (use ok in \<open>auto simp: c1_def\<close>)
  then obtain s where c1: "ctrl_ok c1" "lm_view c1 = lm_view (c\<lparr>ctrl_state := s\<rparr>)" "s \<in> {SNAP_VIRTIO_CTRL_STOPPED, SNAP_VIRTIO_CTRL_SUSPENDED}"
    "s = SNAP_VIRTIO_CTRL_STOPPED \<longrightarrow> no_queues c1" by blast
  note v = lm_view_fields [OF c1(2)]
  have e: "snap_virtio_ctrl_progress_suspend env c = (if is_quiesce c1 then snap_virtio_ctrl_quiesce_adm_done c1 else c1)"
  proof -
    have "\<not> pending_resume c1" using v lm by (simp add: lm_ok_def)
    moreover have "pending_resume (snap_virtio_ctrl_quiesce_adm_done c1) = pending_resume c1"
      by (cases "quiesce_cmd c1") (simp_all add: snap_virtio_ctrl_quiesce_adm_done_def snap_adm_cmd_complete_def)
    ultimately show ?thesis using True progress_suspend_eq [OF ok, of env] by (simp add: Let_def c1_def)
  qed
  have f: "ctrl_state c1 = s" "\<not> pending_resume c1" "\<not> transitional_device c1" "is_quiesce c1 \<longleftrightarrow> quiesce_cmd c1 \<noteq> None"
    "progress_locked c1 = progress_locked c"
    using v lm by (simp_all add: lm_ok_def)
  show ?thesis
  proof (cases "quiesce_cmd c1")
    case None
    then have "\<not> is_quiesce c1" using f(4) by simp
    then show ?thesis using e c1(1,3,4) f None by (simp add: ctrl_inv_def lm_ok_def)
  next
    case (Some cmd)
    then have "is_quiesce c1" using f(4) by simp
    then show ?thesis using e c1(1,3,4) f quiesce_adm_done_ok [OF Some] by (simp add: ctrl_inv_def lm_ok_def)
  qed
qed

section \<open>Register changes\<close>

lemma ctrl_inv_simps [simp]:
  "ctrl_inv (c\<lparr>bar_curr := b\<rparr>) = ctrl_inv c" "ctrl_inv (c\<lparr>bar_prev := b\<rparr>) = ctrl_inv c" "ctrl_inv (c\<lparr>bar_queries := n\<rparr>) = ctrl_inv c"
  "ctrl_inv (c\<lparr>progress_locked := l\<rparr>) = ctrl_inv c" "ctrl_inv (c\<lparr>pending_reset := l\<rparr>) = ctrl_inv c" "ctrl_inv (c\<lparr>ignore_reset := l\<rparr>) = ctrl_inv c"
  "ctrl_inv (c\<lparr>pending_flr := l\<rparr>) = ctrl_inv c" "ctrl_inv (c\<lparr>vfs_changed := v\<rparr>) = ctrl_inv c"
  by (simp_all add: ctrl_inv_def lm_ok_def)

lemma ctrl_inv_running: "ctrl_inv c \<Longrightarrow> ctrl_inv (c\<lparr>lm_state := SNAP_VIRTIO_CTRL_LM_RUNNING\<rparr>)"
  by (simp add: ctrl_inv_def lm_ok_def)

lemma lm_ok_view:
  assumes "lm_view c' = lm_view c" and "queues c' = queues c"
  shows "lm_ok c' = lm_ok c"
  using lm_view_fields [OF assms(1)] assms(2) by (simp add: lm_ok_def no_queues_def)

lemma suspend_inv:
  assumes "ctrl_inv c"
  shows "ctrl_inv (snd (snap_virtio_ctrl_suspend env c)) \<and>
     progress_locked (snd (snap_virtio_ctrl_suspend env c)) = progress_locked c"
proof -
  let ?s = "if ctrl_state c \<noteq> SNAP_VIRTIO_CTRL_STARTED then ctrl_state c
        else if qo_suspend (q_ops env) = None then SNAP_VIRTIO_CTRL_SUSPENDED else SNAP_VIRTIO_CTRL_SUSPENDING"
  have s: "ctrl_ok (snd (snap_virtio_ctrl_suspend env c))" "queues (snd (snap_virtio_ctrl_suspend env c)) = queues c"
    "lm_view (snd (snap_virtio_ctrl_suspend env c)) = lm_view (c\<lparr>ctrl_state := ?s\<rparr>)"
    using suspend_ok [of c env] assms by (auto simp: ctrl_inv_def)
  have "lm_ok (c\<lparr>ctrl_state := ?s\<rparr>)" using assms by (auto simp: ctrl_inv_def lm_ok_def)
  then have "lm_ok (snd (snap_virtio_ctrl_suspend env c))" using lm_ok_view [OF s(3)] s(2) by simp
  with s(1) lm_view_fields(8) [OF s(3)] show ?thesis by (simp add: ctrl_inv_def)
qed

text \<open>A controller that no suspend is pending for can lose its queues.\<close>

lemma lm_ok_emptied:
  assumes "lm_ok c" and "ctrl_state c \<in> {SNAP_VIRTIO_CTRL_STOPPED, SNAP_VIRTIO_CTRL_SUSPENDED}"
    and "lm_view c' = lm_view (c\<lparr>ctrl_state := s\<rparr>)" and "s \<in> {SNAP_VIRTIO_CTRL_STOPPED, ctrl_state c}" and "no_queues c'"
  shows "lm_ok c'"
  using lm_view_fields [OF assms(3)] assms(1,2,4,5) by (auto simp: lm_ok_def)

lemma stop_keeps_inv:
  assumes "ctrl_inv c" and "ctrl_state c \<in> {SNAP_VIRTIO_CTRL_STOPPED, SNAP_VIRTIO_CTRL_SUSPENDED}"
  shows "ctrl_inv (snd (snap_virtio_ctrl_stop env c)) \<and> no_queues (snd (snap_virtio_ctrl_stop env c)) \<and>
     progress_locked (snd (snap_virtio_ctrl_stop env c)) = progress_locked c"
proof -
  have c: "ctrl_ok c" "lm_ok c" "ctrl_state c = SNAP_VIRTIO_CTRL_STOPPED \<longrightarrow> no_queues c" using assms(1) by (auto simp: ctrl_inv_def lm_ok_def)
  from stop_inv [OF c(1,3), of env] obtain s where s: "ctrl_ok (snd (snap_virtio_ctrl_stop env c))" "no_queues (snd (snap_virtio_ctrl_stop env c))"
    "s \<in> {SNAP_VIRTIO_CTRL_STOPPED, ctrl_state c}" "lm_view (snd (snap_virtio_ctrl_stop env c)) = lm_view (c\<lparr>ctrl_state := s\<rparr>)" by blast
  from lm_ok_emptied [OF c(2) assms(2) s(4,3,2)] s lm_view_fields(8) [OF s(4)] show ?thesis by (simp add: ctrl_inv_def)
qed

lemma reset_keeps_inv:
  assumes "ctrl_inv c" and "ctrl_state c \<in> {SNAP_VIRTIO_CTRL_STOPPED, SNAP_VIRTIO_CTRL_SUSPENDED}"
  shows "ctrl_inv (snd (snap_virtio_ctrl_reset env c)) \<and> no_queues (snd (snap_virtio_ctrl_reset env c)) \<and>
     progress_locked (snd (snap_virtio_ctrl_reset env c)) = progress_locked c"
proof -
  have c: "ctrl_ok c" "lm_ok c" "ctrl_state c = SNAP_VIRTIO_CTRL_STOPPED \<longrightarrow> no_queues c" using assms(1) by (auto simp: ctrl_inv_def lm_ok_def)
  from reset_inv [OF c(1,3), of env] obtain s where s: "ctrl_ok (snd (snap_virtio_ctrl_reset env c))" "no_queues (snd (snap_virtio_ctrl_reset env c))"
    "s \<in> {SNAP_VIRTIO_CTRL_STOPPED, ctrl_state c}" "lm_view (snd (snap_virtio_ctrl_reset env c)) = lm_view (c\<lparr>ctrl_state := s\<rparr>)" by blast
  from lm_ok_emptied [OF c(2) assms(2) s(4,3,2)] s lm_view_fields(8) [OF s(4)] show ?thesis by (simp add: ctrl_inv_def)
qed

lemma handle_flr_inv:
  assumes "ctrl_inv c"
  shows "ctrl_inv (snd (handle_flr env c)) \<and> progress_locked (snd (handle_flr env c)) = progress_locked c"
proof -
  let ?c = "if ctrl_state c = SNAP_VIRTIO_CTRL_STARTED then snd (snap_virtio_ctrl_suspend env c) else c"
  have c: "ctrl_inv ?c \<and> progress_locked ?c = progress_locked c" using assms suspend_inv [OF assms, of env] by simp
  have s: "ctrl_inv (snd (stop_for_flr env c)) \<and> progress_locked (snd (stop_for_flr env c)) = progress_locked c"
    using stop_keeps_inv [of ?c env] c unfolding stop_for_flr_def Let_def snap_virtio_ctrl_is_suspended_def by simp
  define r where "r = (if snap_virtio_ctrl_is_stopped c then (0, c) else stop_for_flr env c)"
  obtain ret c1 where r1: "r = (ret, c1)" by (cases r)
  have c1: "ctrl_inv c1" "progress_locked c1 = progress_locked c" using s assms r1 by (auto simp: r_def split: if_splits)
  show ?thesis using c1 ctrl_inv_running [OF c1(1)]
    unfolding handle_flr_def r_def [symmetric] r1 by (simp add: Let_def split: option.split)
qed

lemma handle_reset_inv:
  assumes "ctrl_inv c"
  shows "ctrl_inv (snd (handle_reset env c)) \<and> progress_locked (snd (handle_reset env c)) = progress_locked c \<and>
     (ctrl_state (snd (handle_reset env c)) = SNAP_VIRTIO_CTRL_SUSPENDED \<longrightarrow> no_queues (snd (handle_reset env c)))"
proof -
  define c0 where "c0 = (if transitional_device c then c\<lparr>ignore_reset := True\<rparr> else c)"
  have c0: "ctrl_inv c0" "progress_locked c0 = progress_locked c" using assms by (simp_all add: c0_def)
  define c1 where "c1 = snd (snap_virtio_ctrl_suspend env c0)"
  have c1: "ctrl_inv c1" "progress_locked c1 = progress_locked c" using suspend_inv [OF c0(1), of env] c0(2) by (simp_all add: c1_def)
  have e: "handle_reset env c = (if ctrl_state c1 \<in> {SNAP_VIRTIO_CTRL_STOPPED, SNAP_VIRTIO_CTRL_SUSPENDED}
      then snap_virtio_ctrl_reset env c1 else (0, c1\<lparr>pending_reset := True\<rparr>))"
    by (simp add: handle_reset_def Let_def c0_def [symmetric] c1_def [symmetric] snap_virtio_ctrl_is_stopped_def snap_virtio_ctrl_is_suspended_def)
  show ?thesis
  proof (cases "ctrl_state c1 \<in> {SNAP_VIRTIO_CTRL_STOPPED, SNAP_VIRTIO_CTRL_SUSPENDED}")
    case True
    from reset_keeps_inv [OF c1(1) True, of env] True e c1(2) show ?thesis by simp
  next
    case False
    with e c1 show ?thesis by simp
  qed
qed

lemma start_inv:
  assumes "ctrl_inv c" and "starts env" and "ctrl_state c = SNAP_VIRTIO_CTRL_SUSPENDED \<longrightarrow> no_queues c"
  shows "ctrl_inv (snd (snap_virtio_ctrl_start env c)) \<and> progress_locked (snd (snap_virtio_ctrl_start env c)) = progress_locked c"
proof (cases "ctrl_state c \<in> {SNAP_VIRTIO_CTRL_STOPPED, SNAP_VIRTIO_CTRL_SUSPENDED}")
  case True
  have ok: "ctrl_ok c" "lm_ok c" "no_queues c" using assms True by (auto simp: ctrl_inv_def lm_ok_def)
  obtain c1 where c1: "life c1 = life c" "ctrl_ok c1" "snap_virtio_ctrl_start env c = (0, if ctrl_state c = SNAP_VIRTIO_CTRL_SUSPENDED then c1
       else c1\<lparr>ctrl_state := SNAP_VIRTIO_CTRL_STARTED, lm_state := SNAP_VIRTIO_CTRL_LM_RUNNING\<rparr>)"
    using start_ok [OF ok(1) assms(2) True ok(3)] by blast
  note l = life_fields [OF c1(1)]
  show ?thesis
  proof (cases "ctrl_state c = SNAP_VIRTIO_CTRL_SUSPENDED")
    case True
    then have "lm_ok c1" using ok(2) l by (auto simp: lm_ok_def)
    with True c1 l show ?thesis by (simp add: ctrl_inv_def)
  next
    case False
    then have "lm_ok (c1\<lparr>ctrl_state := SNAP_VIRTIO_CTRL_STARTED, lm_state := SNAP_VIRTIO_CTRL_LM_RUNNING\<rparr>)"
      using ok(2) l True by (auto simp: lm_ok_def)
    with False c1(2,3) l show ?thesis by (simp add: ctrl_inv_def)
  qed
next
  case False
  then have "ctrl_state c = SNAP_VIRTIO_CTRL_STARTED \<or> ctrl_state c = SNAP_VIRTIO_CTRL_SUSPENDING" by (cases "ctrl_state c") auto
  then show ?thesis using assms(1) ctrl_inv_running by (auto simp: snap_virtio_ctrl_start_def)
qed

text \<open>The host may not start the driver again while the controller is suspended with queues.\<close>

definition no_restart :: "'q snap_virtio_ctrl \<Rightarrow> bool" where
  "no_restart c \<longleftrightarrow> (SNAP_VIRTIO_CTRL_LIVE_DETECTED c \<and> ctrl_state c = SNAP_VIRTIO_CTRL_SUSPENDED \<longrightarrow> no_queues c)"

lemma change_status_inv:
  assumes "ctrl_inv c" and "starts env" and "no_restart c" and "snap_virtio_ctrl_change_status env c = (r, again, c')"
  shows "\<not> again \<and> ctrl_inv c' \<and> progress_locked c' = progress_locked c"
proof (cases "SNAP_VIRTIO_CTRL_FLR_DETECTED c")
  case True
  with assms(4) handle_flr_inv [OF assms(1), of env] show ?thesis
    by (auto simp: snap_virtio_ctrl_change_status_def split: prod.splits)
next
  case False
  define x where "x = (if \<not> ignore_reset c \<and> SNAP_VIRTIO_CTRL_RESET_DETECTED c then handle_reset env c else (0, c))"
  obtain r1 c1 where x1: "x = (r1, c1)" by (cases x)
  have c1: "ctrl_inv c1" "progress_locked c1 = progress_locked c"
    using handle_reset_inv [OF assms(1), of env] assms(1) x1 by (auto simp: x_def split: if_splits)
  have nr: "ctrl_state c1 = SNAP_VIRTIO_CTRL_SUSPENDED \<longrightarrow> no_queues c1" if "SNAP_VIRTIO_CTRL_LIVE_DETECTED c1"
    using handle_reset_inv [OF assms(1), of env] assms(3) x1 that by (auto simp: x_def no_restart_def split: if_splits)
  have t: "\<not> transitional_device c1" using c1(1) by (simp add: ctrl_inv_def lm_ok_def)
  define y where "y = (if \<not> SNAP_VIRTIO_CTRL_LIVE_DETECTED c1 then (r1, c1)
    else let ret = snap_virtio_ctrl_validate env in if ret = 0 then snap_virtio_ctrl_start env c1 else (ret, c1))"
  obtain r2 c2 where y2: "y = (r2, c2)" by (cases y)
  have c2: "ctrl_inv c2" "progress_locked c2 = progress_locked c"
    using start_inv [OF c1(1) assms(2)] nr c1 y2 by (auto simp: y_def Let_def split: if_splits)
  have d: "ctrl_inv (snd (snap_virtio_ctrl_device_error env c2)) \<and> progress_locked (snd (snap_virtio_ctrl_device_error env c2)) = progress_locked c2"
    using c2(1) by (simp add: snap_virtio_ctrl_device_error_def Let_def)
  have "snap_virtio_ctrl_change_status env c = (r2, False, if r2 \<noteq> 0 then snd (snap_virtio_ctrl_device_error env c2) else c2)"
    using False t y2 x1 unfolding snap_virtio_ctrl_change_status_def x_def [symmetric] x1
    by (auto simp: y_def Let_def split: if_splits prod.splits)
  with assms(4) c2 d show ?thesis by (auto split: if_splits)
qed

lemma progress_begin_inv:
  assumes "ctrl_inv c"
  shows "ctrl_inv (snd (progress_begin env c)) \<and> progress_locked (snd (progress_begin env c)) = progress_locked c"
  using assms progress_suspend_inv [of c env]
  by (auto simp: progress_begin_def snap_virtio_ctrl_bar_update_def snap_virtio_ctrl_bar_query_def Let_def split: prod.split)

text \<open>A progress call that finds a change of the registers finds \<^term>\<open>no_restart\<close>.\<close>

definition progress_allowed :: "'q ctrl_env \<Rightarrow> 'q snap_virtio_ctrl \<Rightarrow> bool" where
  "progress_allowed env c \<longleftrightarrow> starts env \<and>
     (let c = snd (progress_begin env (c\<lparr>progress_locked := True\<rparr>))
      in snap_virtio_ctrl_critical_bar_change_detected c \<longrightarrow> no_restart c)"

lemma progress_inv:
  assumes "ctrl_inv c" and "\<not> progress_locked c" and "progress_allowed env c" and "snap_virtio_ctrl_progress env c = Some c'"
  shows "ctrl_inv c' \<and> \<not> progress_locked c'"
proof -
  let ?l = "c\<lparr>progress_locked := True\<rparr>"
  have l: "snap_virtio_ctrl_progress_lock c = ?l" "ctrl_inv ?l" "progress_locked ?l"
    using assms(1,2) by (simp_all add: snap_virtio_ctrl_progress_lock_def)
  obtain r1 c1 where b: "progress_begin env ?l = (r1, c1)" by (cases "progress_begin env ?l")
  from progress_begin_inv [OF l(2), of env] b have c1: "ctrl_inv c1" "progress_locked c1" by auto
  have u: "ctrl_inv (snap_virtio_ctrl_progress_unlock d) \<and> \<not> progress_locked (snap_virtio_ctrl_progress_unlock d)"
    if "ctrl_inv d" "progress_locked d" for d :: "'a snap_virtio_ctrl"
    using that by (simp add: snap_virtio_ctrl_progress_unlock_def)
  have en: "ctrl_inv (progress_end d) \<and> \<not> progress_locked (progress_end d)" if "ctrl_inv d" "progress_locked d" for d :: "'a snap_virtio_ctrl"
    using that by (simp add: progress_end_def snap_virtio_ctrl_progress_unlock_def snap_virtio_ctrl_change_num_vfs_def)
  obtain r2 again c2 where s: "snap_virtio_ctrl_change_status env c1 = (r2, again, c2)" by (cases "snap_virtio_ctrl_change_status env c1")
  have c2: "\<not> again \<and> ctrl_inv c2 \<and> progress_locked c2" if "snap_virtio_ctrl_critical_bar_change_detected c1"
    using change_status_inv [OF c1(1) _ _ s] assms(3) b c1(2) that by (auto simp: progress_allowed_def)
  have "snap_virtio_ctrl_progress env c = Some (if pending_flr ?l then snap_virtio_ctrl_progress_unlock ?l
      else if r1 \<noteq> 0 then snap_virtio_ctrl_progress_unlock c1
      else if \<not> snap_virtio_ctrl_critical_bar_change_detected c1 then progress_end c1 else progress_end c2)"
    using c2 b s by (subst snap_virtio_ctrl_progress.simps) (simp add: l(1) Let_def)
  with assms(4) u en l c1 c2 show ?thesis by (auto split: if_splits)
qed

text \<open>On a modern device one progress call does not recurse: it returns.\<close>

lemma progress_returns:
  assumes "\<not> transitional_device c" and "ctrl_inv c" and "\<not> progress_locked c" and "progress_allowed env c"
  shows "\<exists>c'. snap_virtio_ctrl_progress env c = Some c'"
proof -
  let ?l = "c\<lparr>progress_locked := True\<rparr>"
  have l: "snap_virtio_ctrl_progress_lock c = ?l" "ctrl_inv ?l" using assms(2,3) by (simp_all add: snap_virtio_ctrl_progress_lock_def)
  obtain r1 c1 where b: "progress_begin env ?l = (r1, c1)" by (cases "progress_begin env ?l")
  from progress_begin_inv [OF l(2), of env] b have c1: "ctrl_inv c1" by auto
  obtain r2 again c2 where s: "snap_virtio_ctrl_change_status env c1 = (r2, again, c2)" by (cases "snap_virtio_ctrl_change_status env c1")
  have "\<not> again" if "snap_virtio_ctrl_critical_bar_change_detected c1"
    using change_status_inv [OF c1 _ _ s] assms(4) b that by (auto simp: progress_allowed_def)
  then show ?thesis using b s by (subst snap_virtio_ctrl_progress.simps) (simp add: l(1) Let_def)
qed

section \<open>Polling and dirty tracking\<close>

lemma pg_lock_unlock:
  assumes "locks_free ctx"
  shows "i < npgs ctx \<Longrightarrow> pg_unlock i (pg_lock i ctx) = ctx" and "i < npgs ctx \<Longrightarrow> q_list (pgs (pg_lock i ctx) ! j) = q_list (pgs ctx ! j)"
proof -
  assume i: "i < npgs ctx"
  have f: "\<not> pg_locked (pgs ctx ! i)" "i < length (pgs ctx)" using assms i by (auto simp: locks_free_def list_all_length)
  have e: "(pgs ctx ! i)\<lparr>pg_locked := False\<rparr> = pgs ctx ! i" using f(1) by (cases "pgs ctx ! i") simp
  have "pg_unlock i (pg_lock i ctx) = ctx\<lparr>pgs := (pgs ctx)[i := (pgs ctx ! i)\<lparr>pg_locked := False\<rparr>]\<rparr>"
    using f by (simp add: pg_lock_set pg_unlock_def)
  then show "pg_unlock i (pg_lock i ctx) = ctx" unfolding e by simp
  show "q_list (pgs (pg_lock i ctx) ! j) = q_list (pgs ctx ! j)" using f by (cases "j = i") (simp_all add: pg_lock_set)
qed

lemma queue_progress_list_ok:
  assumes "ctrl_wf c" and "\<forall>vq \<in> set vqs. heap c vq \<noteq> None"
  shows "ctrl_wf (snd (fold (queue_progress env th) vqs (n, c))) \<and> life (snd (fold (queue_progress env th) vqs (n, c))) = life c \<and>
     pg_ctx (snd (fold (queue_progress env th) vqs (n, c))) = pg_ctx c \<and> queues (snd (fold (queue_progress env th) vqs (n, c))) = queues c"
  using assms
proof (induction vqs arbitrary: n c)
  case (Cons vq vqs)
  obtain q where q: "heap c vq = Some q" using Cons.prems(2) by auto
  obtain k impl where p: "qo_progress (q_ops env) th (cq_impl q) = (k, impl)" by (cases "qo_progress (q_ops env) th (cq_impl q)")
  let ?c = "set_q vq (q\<lparr>cq_thread_id := th, cq_impl := impl\<rparr>) c"
  have "ctrl_wf ?c" by (rule wf_set_q [OF Cons.prems(1) q]) simp_all
  moreover have "\<forall>v \<in> set vqs. heap ?c v \<noteq> None" using Cons.prems(2) by simp
  moreover have "queue_progress env th vq (n, c) = (n + k, ?c)" using q p by (simp add: queue_progress_def)
  ultimately show ?case using Cons.IH [of ?c "n + k"] by simp
qed simp

lemma queue_progress_list_pg_ctx:
  "fold (queue_progress env th) vqs (n, c\<lparr>pg_ctx := x\<rparr>) =
     (let (m, d) = fold (queue_progress env th) vqs (n, c) in (m, d\<lparr>pg_ctx := x\<rparr>))"
proof (induction vqs arbitrary: n c)
  case (Cons vq vqs)
  obtain m d where "queue_progress env th vq (n, c) = (m, d)" by (cases "queue_progress env th vq (n, c)")
  moreover from this have "queue_progress env th vq (n, c\<lparr>pg_ctx := x\<rparr>) = (m, d\<lparr>pg_ctx := x\<rparr>)"
    by (cases "heap c vq") (auto simp: queue_progress_def set_q_def Let_def split: prod.splits)
  ultimately show ?case using Cons.IH by simp
qed simp

lemma pg_io_progress_inv:
  assumes "ctrl_inv c" and "pg < npgs (pg_ctx c)"
  shows "ctrl_inv (snd (snap_virtio_ctrl_pg_thread_io_progress env pg th c)) \<and>
     life (snd (snap_virtio_ctrl_pg_thread_io_progress env pg th c)) = life c"
proof -
  have ok: "ctrl_wf c" "locks_free (pg_ctx c)" using assms(1) by (auto simp: ctrl_inv_def ctrl_ok_def)
  let ?l = "q_list (pgs (pg_ctx c) ! pg)"
  have h: "\<forall>vq \<in> set ?l. heap c vq \<noteq> None" using ok(1) assms(2) by (auto simp: ctrl_wf_def pgs_wf_def)
  obtain n d where d: "fold (queue_progress env th) ?l (0, c) = (n, d)" by (cases "fold (queue_progress env th) ?l (0, c)")
  from queue_progress_list_ok [OF ok(1) h, of env th 0] d have f: "ctrl_wf d" "life d = life c" "pg_ctx d = pg_ctx c" "queues d = queues c" by auto
  have "snap_virtio_ctrl_pg_thread_io_progress env pg th c = (n, d)"
    using f(3) d by (simp add: snap_virtio_ctrl_pg_thread_io_progress_def Let_def pg_lock_unlock [OF ok(2) assms(2)] queue_progress_list_pg_ctx)
  moreover have "lm_ok d" using lm_ok_view [OF lm_view_life [OF f(2)] f(4)] assms(1) by (simp add: ctrl_inv_def)
  ultimately show ?thesis using f ok(2) by (simp add: ctrl_inv_def ctrl_ok_def)
qed

lemma log_writes_inv:
  assumes "ctrl_inv c"
  shows "ctrl_inv (snap_virtio_ctrl_log_writes enable c) \<and> progress_locked (snap_virtio_ctrl_log_writes enable c) = progress_locked c"
proof -
  have u: "log_queue enable = upd_queue (\<lambda>q. q\<lparr>cq_log_writes_to_host := enable\<rparr>)"
    by (simp add: fun_eq_iff log_queue_def upd_queue_def)
  let ?d = "pgs_resume (fold (upd_queue (\<lambda>q. q\<lparr>cq_log_writes_to_host := enable\<rparr>)) [0..<max_queues c] (pgs_suspend c))"
  have d: "ctrl_ok ?d" "life ?d = life c" "queues ?d = queues c"
    using stopped_upd_queues_ok [of "\<lambda>q. q\<lparr>cq_log_writes_to_host := enable\<rparr>" c] assms by (auto simp: ctrl_inv_def)
  have "lm_ok ?d" using lm_ok_view [OF lm_view_life [OF d(2)] d(3)] assms by (simp add: ctrl_inv_def)
  with d life_fields(2) [OF d(2)] show ?thesis
    by (simp add: snap_virtio_ctrl_log_writes_def u ctrl_inv_def) (simp add: lm_ok_def no_queues_def)
qed

section \<open>Migration commands\<close>

lemma lock_simps:
  "\<not> progress_locked c \<Longrightarrow> snap_virtio_ctrl_progress_lock c = c\<lparr>progress_locked := True\<rparr>"
  "progress_locked c \<Longrightarrow> snap_virtio_ctrl_progress_unlock c = c\<lparr>progress_locked := False\<rparr>"
  by (simp_all add: snap_virtio_ctrl_progress_lock_def snap_virtio_ctrl_progress_unlock_def)

lemma quiesce_adm_inv:
  assumes "ctrl_inv c" and "\<not> progress_locked c" and "quiesce_cmd c = None" and "qo_suspend (q_ops env) \<noteq> None"
  shows "ctrl_inv (snd (snap_virtio_ctrl_quiesce_adm env (c\<lparr>quiesce_cmd := Some cmd\<rparr>))) \<and>
     \<not> progress_locked (snd (snap_virtio_ctrl_quiesce_adm env (c\<lparr>quiesce_cmd := Some cmd\<rparr>)))"
proof -
  let ?l = "c\<lparr>progress_locked := True\<rparr>" and ?q = "c\<lparr>quiesce_cmd := Some cmd, progress_locked := True\<rparr>"
  have ok: "ctrl_ok c" "lm_ok c" using assms(1) by (auto simp: ctrl_inv_def)
  have nq: "\<not> is_quiesce c" using ok(2) assms(3) by (simp add: lm_ok_def)
  have lk: "snap_virtio_ctrl_progress_lock (c\<lparr>quiesce_cmd := Some cmd\<rparr>) = ?q" using assms(2) by (simp add: lock_simps)
  obtain r d where s: "snap_virtio_ctrl_suspend env ?q = (r, d)" by (cases "snap_virtio_ctrl_suspend env ?q")
  have d: "ctrl_ok d" "queues d = queues c" "r = 0 \<longleftrightarrow> ctrl_state c \<in> {SNAP_VIRTIO_CTRL_STARTED, SNAP_VIRTIO_CTRL_SUSPENDING}"
    "lm_view d = lm_view (?q\<lparr>ctrl_state := (if ctrl_state c = SNAP_VIRTIO_CTRL_STARTED then SNAP_VIRTIO_CTRL_SUSPENDING else ctrl_state c)\<rparr>)"
    using suspend_ok [of ?q env] ok(1) s assms(4) by (auto split: if_splits)
  note v = lm_view_fields [OF d(4)]
  consider "lm_state c \<in> {SNAP_VIRTIO_CTRL_LM_QUIESCED, SNAP_VIRTIO_CTRL_LM_FREEZED}"
    | "lm_state c \<in> {SNAP_VIRTIO_CTRL_LM_INIT, SNAP_VIRTIO_CTRL_LM_RUNNING}" "ctrl_state c = SNAP_VIRTIO_CTRL_STOPPED"
    | "lm_state c \<in> {SNAP_VIRTIO_CTRL_LM_INIT, SNAP_VIRTIO_CTRL_LM_RUNNING}" "ctrl_state c = SNAP_VIRTIO_CTRL_SUSPENDED"
    | "lm_state c \<in> {SNAP_VIRTIO_CTRL_LM_INIT, SNAP_VIRTIO_CTRL_LM_RUNNING}" "ctrl_state c \<in> {SNAP_VIRTIO_CTRL_STARTED, SNAP_VIRTIO_CTRL_SUSPENDING}"
    by (cases "lm_state c"; cases "ctrl_state c") auto
  then show ?thesis
  proof cases
    case 1
    then have "snap_virtio_ctrl_quiesce_adm env (c\<lparr>quiesce_cmd := Some cmd\<rparr>) =
      (- EINVAL, c\<lparr>quiesce_cmd := None, progress_locked := False, adm_completed := adm_completed c @ [(cmd, SNAP_VIRTIO_ADMIN_STATUS_Q_TRYAGAIN)]\<rparr>)"
      by (auto simp: snap_virtio_ctrl_quiesce_adm_def lk lock_simps snap_adm_cmd_complete_def Let_def)
    with ok nq show ?thesis by (simp add: ctrl_inv_def lm_ok_def)
  next
    case 2
    then have "snap_virtio_ctrl_quiesce_adm env (c\<lparr>quiesce_cmd := Some cmd\<rparr>) =
      (0, c\<lparr>quiesce_cmd := None, progress_locked := False, lm_state := SNAP_VIRTIO_CTRL_LM_QUIESCED,
         adm_completed := adm_completed c @ [(cmd, SNAP_VIRTIO_ADMIN_STATUS_Q_OK)]\<rparr>)"
      by (auto simp: snap_virtio_ctrl_quiesce_adm_def lk lock_simps snap_adm_cmd_complete_def Let_def snap_virtio_ctrl_is_stopped_def)
    with ok nq 2 show ?thesis by (simp add: ctrl_inv_def lm_ok_def)
  next
    case 3
    then have "r \<noteq> 0" using d(3) by simp
    with 3 s v have "snap_virtio_ctrl_quiesce_adm env (c\<lparr>quiesce_cmd := Some cmd\<rparr>) =
      (r, d\<lparr>progress_locked := False, adm_completed := adm_completed d @ [(cmd, SNAP_VIRTIO_ADMIN_STATUS_Q_TRYAGAIN)], quiesce_cmd := None\<rparr>)"
      by (auto simp: snap_virtio_ctrl_quiesce_adm_def lk lock_simps snap_adm_cmd_complete_def Let_def snap_virtio_ctrl_is_stopped_def)
    with ok nq d v 3 show ?thesis by (auto simp: ctrl_inv_def lm_ok_def)
  next
    case 4
    then have "r = 0" using d(3) by simp
    with 4 s v have "snap_virtio_ctrl_quiesce_adm env (c\<lparr>quiesce_cmd := Some cmd\<rparr>) = (0, d\<lparr>is_quiesce := True, progress_locked := False\<rparr>)"
      by (auto simp: snap_virtio_ctrl_quiesce_adm_def lk lock_simps Let_def snap_virtio_ctrl_is_stopped_def)
    with ok nq d v 4 show ?thesis by (auto simp: ctrl_inv_def lm_ok_def)
  qed
qed

lemma unquiesce_inv:
  assumes "ctrl_inv c" and "\<not> progress_locked c"
  shows "ctrl_inv (snd (snap_virtio_ctrl_unquiesce env c)) \<and> \<not> progress_locked (snd (snap_virtio_ctrl_unquiesce env c))"
proof (cases "lm_state c = SNAP_VIRTIO_CTRL_LM_QUIESCED")
  case False
  with assms show ?thesis by (simp add: snap_virtio_ctrl_unquiesce_def lock_simps Let_def)
next
  case True
  let ?l = "c\<lparr>progress_locked := True\<rparr>"
  have ok: "ctrl_ok ?l" "lm_ok ?l" "ctrl_state ?l \<in> {SNAP_VIRTIO_CTRL_STOPPED, SNAP_VIRTIO_CTRL_SUSPENDED}"
    using assms(1) True by (auto simp: ctrl_inv_def lm_ok_def)
  obtain r d where d: "snap_virtio_ctrl_resume env ?l = (r, d)" by (cases "snap_virtio_ctrl_resume env ?l")
  from resume_ok [OF ok(1,3), of env, unfolded d fst_conv snd_conv] obtain s where s: "ctrl_ok d" "queues d = queues ?l"
    "s \<in> {ctrl_state ?l, SNAP_VIRTIO_CTRL_STARTED}" "lm_view d = lm_view (?l\<lparr>ctrl_state := s\<rparr>)"
    "ctrl_state ?l = SNAP_VIRTIO_CTRL_STOPPED \<longrightarrow> s = SNAP_VIRTIO_CTRL_STOPPED" "r \<noteq> 0 \<longrightarrow> s = ctrl_state ?l" by blast
  note v = lm_view_fields [OF s(4)]
  have "snap_virtio_ctrl_unquiesce env c =
      (r, (if r \<noteq> 0 then d else d\<lparr>lm_state := SNAP_VIRTIO_CTRL_LM_RUNNING\<rparr>)\<lparr>progress_locked := False\<rparr>)"
    using True assms(2) d v by (simp add: snap_virtio_ctrl_unquiesce_def lock_simps Let_def)
  with s ok v True show ?thesis by (auto simp: ctrl_inv_def lm_ok_def no_queues_def split: if_splits)
qed

lemma freeze_inv:
  assumes "ctrl_inv c" and "\<not> progress_locked c"
  shows "ctrl_inv (snd (snap_virtio_ctrl_freeze env c)) \<and> \<not> progress_locked (snd (snap_virtio_ctrl_freeze env c))"
  using assms by (auto simp: snap_virtio_ctrl_freeze_def snap_virtio_ctrl_bar_query_def lock_simps Let_def ctrl_inv_def lm_ok_def split: prod.split)

lemma unfreeze_inv:
  assumes "ctrl_inv c" and "\<not> progress_locked c"
  shows "ctrl_inv (snd (snap_virtio_ctrl_unfreeze c)) \<and> \<not> progress_locked (snd (snap_virtio_ctrl_unfreeze c))"
  using assms by (auto simp: snap_virtio_ctrl_unfreeze_def lock_simps Let_def ctrl_inv_def lm_ok_def)

end
