(* ===== verification/Virtio_State.thy ===== *)
theory Virtio_State
  imports Virtio_Ctrl_Inv Byte_Memory
begin

text \<open>
  Saving and restoring the state of a controller for migration
  (\<^verbatim>\<open>ctrl/snap_virtio_common_ctrl.c\<close>, \<^verbatim>\<open>ctrl/snap_virtio_state.h\<close>), in both formats:
  version 2 is a counted sequence of typed fields, version 1 four sections at fixed places.

  The state is written into and read from a byte buffer; a structure pointer into it is the offset
  of the structure. Integers are in the byte order of the host, little-endian. Sizes are natural
  numbers: with the number of queues below \<open>2^16\<close>, which the queue index of the format requires
  anyway, they stay far below the range of \<^verbatim>\<open>int\<close>. The dumps of the state into the log
  are left out.
\<close>

section \<open>Structures of the formats\<close>

record virtio_state_pci_common_cfg =
  cc_device_feature_select :: u32
  cc_device_feature :: u64
  cc_driver_feature_select :: u32
  cc_driver_feature :: u64
  cc_msix_config :: u16
  cc_num_queues :: u16
  cc_queue_select :: u16
  cc_device_status :: u8
  cc_config_generation :: u8

record virtio_state_q_cfg =
  qc_queue_index :: u16
  qc_queue_size :: u16
  qc_queue_msix_vector :: u16
  qc_queue_enable :: u16
  qc_queue_notify_off :: u16
  qc_queue_desc :: u64
  qc_queue_driver :: u64
  qc_queue_device :: u64
  qc_queue_notify_data :: u16
  qc_queue_reset :: u16

record virtio_split_q_run_state =
  rs_queue_index :: u16
  rs_last_avail_idx :: u16
  rs_last_used_idx :: u16

record snap_virtio_ctrl_common_state =
  cs_cfg :: virtio_state_pci_common_cfg
  cs_ctrl_state :: u32

record snap_virtio_ctrl_queue_state =
  qs_queue_size :: u16
  qs_queue_msix_vector :: u16
  qs_queue_enable :: u16
  qs_queue_notify_off :: u16
  qs_queue_desc :: u64
  qs_queue_driver :: u64
  qs_queue_device :: u64
  qs_hw_available_index :: u16
  qs_hw_used_index :: u16

text \<open>Their bytes. \<open>field off n\<close> reads the integer of \<open>n\<close> bytes at an offset of the structure.\<close>

definition field :: "nat \<Rightarrow> nat \<Rightarrow> u8 list \<Rightarrow> 'a::len word" where
  "field off n bs = le_word (take n (drop off bs))"

definition enc_pci_common_cfg :: "virtio_state_pci_common_cfg \<Rightarrow> u8 list" where
  "enc_pci_common_cfg x = le_bytes 4 (cc_device_feature_select x) @ le_bytes 8 (cc_device_feature x) @
     le_bytes 4 (cc_driver_feature_select x) @ le_bytes 8 (cc_driver_feature x) @ le_bytes 2 (cc_msix_config x) @
     le_bytes 2 (cc_num_queues x) @ le_bytes 2 (cc_queue_select x) @ le_bytes 1 (cc_device_status x) @
     le_bytes 1 (cc_config_generation x)"

definition dec_pci_common_cfg :: "u8 list \<Rightarrow> virtio_state_pci_common_cfg" where
  "dec_pci_common_cfg bs = \<lparr>cc_device_feature_select = field 0 4 bs, cc_device_feature = field 4 8 bs,
     cc_driver_feature_select = field 12 4 bs, cc_driver_feature = field 16 8 bs, cc_msix_config = field 24 2 bs,
     cc_num_queues = field 26 2 bs, cc_queue_select = field 28 2 bs, cc_device_status = field 30 1 bs,
     cc_config_generation = field 31 1 bs\<rparr>"

definition enc_q_cfg :: "virtio_state_q_cfg \<Rightarrow> u8 list" where
  "enc_q_cfg x = le_bytes 2 (qc_queue_index x) @ le_bytes 2 (qc_queue_size x) @ le_bytes 2 (qc_queue_msix_vector x) @
     le_bytes 2 (qc_queue_enable x) @ le_bytes 2 (qc_queue_notify_off x) @ le_bytes 8 (qc_queue_desc x) @
     le_bytes 8 (qc_queue_driver x) @ le_bytes 8 (qc_queue_device x) @ le_bytes 2 (qc_queue_notify_data x) @
     le_bytes 2 (qc_queue_reset x)"

definition dec_q_cfg :: "u8 list \<Rightarrow> virtio_state_q_cfg" where
  "dec_q_cfg bs = \<lparr>qc_queue_index = field 0 2 bs, qc_queue_size = field 2 2 bs, qc_queue_msix_vector = field 4 2 bs,
     qc_queue_enable = field 6 2 bs, qc_queue_notify_off = field 8 2 bs, qc_queue_desc = field 10 8 bs,
     qc_queue_driver = field 18 8 bs, qc_queue_device = field 26 8 bs, qc_queue_notify_data = field 34 2 bs,
     qc_queue_reset = field 36 2 bs\<rparr>"

definition enc_run_state :: "virtio_split_q_run_state \<Rightarrow> u8 list" where
  "enc_run_state x = le_bytes 2 (rs_queue_index x) @ le_bytes 2 (rs_last_avail_idx x) @ le_bytes 2 (rs_last_used_idx x)"

definition dec_run_state :: "u8 list \<Rightarrow> virtio_split_q_run_state" where
  "dec_run_state bs = \<lparr>rs_queue_index = field 0 2 bs, rs_last_avail_idx = field 2 2 bs, rs_last_used_idx = field 4 2 bs\<rparr>"

definition enc_common_state :: "snap_virtio_ctrl_common_state \<Rightarrow> u8 list" where
  "enc_common_state x = enc_pci_common_cfg (cs_cfg x) @ le_bytes 4 (cs_ctrl_state x)"

definition dec_common_state :: "u8 list \<Rightarrow> snap_virtio_ctrl_common_state" where
  "dec_common_state bs = \<lparr>cs_cfg = dec_pci_common_cfg (take 32 bs), cs_ctrl_state = field 32 4 bs\<rparr>"

definition enc_queue_state :: "snap_virtio_ctrl_queue_state \<Rightarrow> u8 list" where
  "enc_queue_state x = le_bytes 2 (qs_queue_size x) @ le_bytes 2 (qs_queue_msix_vector x) @ le_bytes 2 (qs_queue_enable x) @
     le_bytes 2 (qs_queue_notify_off x) @ le_bytes 8 (qs_queue_desc x) @ le_bytes 8 (qs_queue_driver x) @
     le_bytes 8 (qs_queue_device x) @ le_bytes 2 (qs_hw_available_index x) @ le_bytes 2 (qs_hw_used_index x)"

definition dec_queue_state :: "u8 list \<Rightarrow> snap_virtio_ctrl_queue_state" where
  "dec_queue_state bs = \<lparr>qs_queue_size = field 0 2 bs, qs_queue_msix_vector = field 2 2 bs, qs_queue_enable = field 4 2 bs,
     qs_queue_notify_off = field 6 2 bs, qs_queue_desc = field 8 8 bs, qs_queue_driver = field 16 8 bs,
     qs_queue_device = field 24 8 bs, qs_hw_available_index = field 32 2 bs, qs_hw_used_index = field 34 2 bs\<rparr>"

interpretation common_cfg: packed enc_pci_common_cfg dec_pci_common_cfg 32
  by unfold_locales (simp_all add: enc_pci_common_cfg_def dec_pci_common_cfg_def field_def le_word_le_bytes)

interpretation q_cfg: packed enc_q_cfg dec_q_cfg 38
  by unfold_locales (simp_all add: enc_q_cfg_def dec_q_cfg_def field_def le_word_le_bytes)

interpretation run_state: packed enc_run_state dec_run_state 6
  by unfold_locales (simp_all add: enc_run_state_def dec_run_state_def field_def le_word_le_bytes)

interpretation common_state: packed enc_common_state dec_common_state 36
  by unfold_locales
    (simp_all add: enc_common_state_def dec_common_state_def common_cfg.length_enc common_cfg.dec_enc field_def le_word_le_bytes)

interpretation queue_state: packed enc_queue_state dec_queue_state 36
  by unfold_locales (simp_all add: enc_queue_state_def dec_queue_state_def field_def le_word_le_bytes)

section \<open>Environment\<close>

text \<open>The device-specific part: the size of its configuration, its bytes as \<^verbatim>\<open>get_state\<close> leaves them in
  the buffer, whose memory from the place of the configuration on is its last argument, and \<^verbatim>\<open>set_state\<close>, which gets the registers, the queue states and the bytes of the
  configuration and may change the registers.\<close>

record 'q state_env =
  se_ctrl :: "'q ctrl_env"
  se_get_state_size :: "nat option"
  se_get_state :: "snap_virtio_device_attr \<Rightarrow> nat \<Rightarrow> (nat \<Rightarrow> u8) \<Rightarrow> int \<times> u8 list"
  se_set_state :: "(snap_virtio_device_attr \<Rightarrow> snap_virtio_ctrl_queue_state list \<Rightarrow> u8 list option \<Rightarrow>
     int \<times> snap_virtio_device_attr) option"

section \<open>Version 2: fields\<close>

abbreviation (input) VIRTIO_DEV_PCI_COMMON_CFG :: u32 where "VIRTIO_DEV_PCI_COMMON_CFG \<equiv> 0"
abbreviation (input) VIRTIO_DEV_CFG_SPACE :: u32 where "VIRTIO_DEV_CFG_SPACE \<equiv> 1"
abbreviation (input) VIRTIO_DEV_QUEUE_CFG :: u32 where "VIRTIO_DEV_QUEUE_CFG \<equiv> 2"
abbreviation (input) VIRTIO_DEV_SPLIT_Q_RUN_STATE :: u32 where "VIRTIO_DEV_SPLIT_Q_RUN_STATE \<equiv> 3"

type_synonym buf = "nat \<Rightarrow> u8"

definition virtio_field_count :: "buf \<Rightarrow> u32" where
  "virtio_field_count m = le_word (mem_get 0 4 m)"

definition fld_type :: "buf \<Rightarrow> nat \<Rightarrow> u32" where
  "fld_type m fld = le_word (mem_get fld 4 m)"

definition fld_size :: "buf \<Rightarrow> nat \<Rightarrow> u32" where
  "fld_size m fld = le_word (mem_get (fld + 4) 4 m)"

definition virtio_state_fld_first :: nat where
  "virtio_state_fld_first = 4"

definition virtio_state_fld_next :: "buf \<Rightarrow> nat \<Rightarrow> nat" where
  "virtio_state_fld_next m fld = fld + 8 + unat (fld_size m fld)"

text \<open>Storing type and size of a field.\<close>

definition set_fld_hdr :: "nat \<Rightarrow> u32 \<Rightarrow> u32 \<Rightarrow> buf \<Rightarrow> buf" where
  "set_fld_hdr fld ty sz m = mem_put (fld + 4) (le_bytes 4 sz) (mem_put fld (le_bytes 4 ty) m)"

definition set_field_count :: "u32 \<Rightarrow> buf \<Rightarrow> buf" where
  "set_field_count n m = mem_put 0 (le_bytes 4 n) m"

section \<open>Version 2: saving\<close>

definition dev_cfg_len_v2 :: "'q state_env \<Rightarrow> nat" where
  "dev_cfg_len_v2 env = (case se_get_state_size env of None \<Rightarrow> 0 | Some n \<Rightarrow> 8 + n)"

definition snap_virtio_ctrl_state_size_v2 :: "'q state_env \<Rightarrow> 'q snap_virtio_ctrl \<Rightarrow> nat" where
  "snap_virtio_ctrl_state_size_v2 env c = 4 + dev_cfg_len_v2 env + max_queues c * ((8 + 38) + (8 + 6)) + (8 + 32)"

definition common_cfg_of :: "snap_virtio_device_attr \<Rightarrow> virtio_state_pci_common_cfg" where
  "common_cfg_of attr = \<lparr>cc_device_feature_select = ucast (device_feature_select attr), cc_device_feature = device_feature attr,
     cc_driver_feature_select = ucast (driver_feature_select attr), cc_driver_feature = driver_feature attr,
     cc_msix_config = msix_config attr, cc_num_queues = attr_max_queues attr, cc_queue_select = queue_select attr,
     cc_device_status = status attr, cc_config_generation = config_generation attr\<rparr>"

definition snap_virtio_ctrl_save_common_state_v2 :: "snap_virtio_device_attr \<Rightarrow> nat \<Rightarrow> buf \<Rightarrow> buf" where
  "snap_virtio_ctrl_save_common_state_v2 attr fld m =
     mem_put (fld + 8) (enc_pci_common_cfg (common_cfg_of attr)) (set_fld_hdr fld VIRTIO_DEV_PCI_COMMON_CFG 32 m)"

definition snap_virtio_ctrl_save_queue_state_v2 :: "'q snap_virtio_ctrl \<Rightarrow> nat \<Rightarrow> nat \<Rightarrow> buf \<Rightarrow> buf" where
  "snap_virtio_ctrl_save_queue_state_v2 c idx fld m =
     (let vq = q_attrs (bar_curr c) ! idx
      in mem_put (fld + 8) (enc_q_cfg \<lparr>qc_queue_index = of_nat idx, qc_queue_size = va_size vq,
           qc_queue_msix_vector = va_msix_vector vq, qc_queue_enable = va_enable vq, qc_queue_notify_off = va_notify_off vq,
           qc_queue_desc = va_desc vq, qc_queue_driver = va_driver vq, qc_queue_device = va_device vq,
           qc_queue_notify_data = 0, qc_queue_reset = 0\<rparr>) (set_fld_hdr fld VIRTIO_DEV_QUEUE_CFG 38 m))"

definition snap_virtio_ctrl_save_queue_run_state_v2 :: "u16 \<Rightarrow> u16 \<Rightarrow> nat \<Rightarrow> nat \<Rightarrow> buf \<Rightarrow> buf" where
  "snap_virtio_ctrl_save_queue_run_state_v2 avail used idx fld m =
     mem_put (fld + 8) (enc_run_state \<lparr>rs_queue_index = of_nat idx, rs_last_avail_idx = avail, rs_last_used_idx = used\<rparr>)
       (set_fld_hdr fld VIRTIO_DEV_SPLIT_Q_RUN_STATE 6 m)"

text \<open>The loop over the queues, from the field before the first one; the number of fields written so
  far is \<open>n\<close>.\<close>

fun save_queues_v2 ::
  "'q state_env \<Rightarrow> nat list \<Rightarrow> nat \<Rightarrow> nat \<Rightarrow> 'q snap_virtio_ctrl \<Rightarrow> buf \<Rightarrow> int \<times> 'q snap_virtio_ctrl \<times> buf"
where
  "save_queues_v2 env [] fld n c m = (int n, c, m)"
| "save_queues_v2 env (i # is) fld n c m =
     (let fld = virtio_state_fld_next m fld;
          vq = q_attrs (bar_curr c) ! i;
          m = snap_virtio_ctrl_save_queue_state_v2 c i fld m
      in case (qo_get_state (q_ops (se_ctrl env)), queues c ! i) of
           (Some get_state, Some a) \<Rightarrow>
             if va_enable vq = 0 then save_queues_v2 env is fld (n + 1) c m
             else (case heap c a of
                     None \<Rightarrow> (- EINVAL, c\<lparr>fault := True\<rparr>, m)
                   | Some q \<Rightarrow>
                       let (ret, avail, used) = get_state (cq_impl q)
                       in if ret \<noteq> 0 then (- EINVAL, c, m)
                          else let fld = virtio_state_fld_next m fld
                               in save_queues_v2 env is fld (n + 2) c (snap_virtio_ctrl_save_queue_run_state_v2 avail used i fld m))
         | _ \<Rightarrow> save_queues_v2 env is fld (n + 1) c m)"

definition snap_virtio_ctrl_save_all_queues_v2 ::
  "'q state_env \<Rightarrow> nat \<Rightarrow> 'q snap_virtio_ctrl \<Rightarrow> buf \<Rightarrow> int \<times> 'q snap_virtio_ctrl \<times> buf"
where
  "snap_virtio_ctrl_save_all_queues_v2 env fld c m =
     (let (ret, c, m) = save_queues_v2 env [0..<max_queues c] fld 0 (pgs_suspend c) m
      in (ret, pgs_resume c, m))"

definition snap_virtio_ctrl_state_save_v2 ::
  "'q state_env \<Rightarrow> nat \<Rightarrow> 'q snap_virtio_ctrl \<Rightarrow> buf \<Rightarrow> int \<times> 'q snap_virtio_ctrl \<times> buf"
where
  "snap_virtio_ctrl_state_save_v2 env len c m =
     (let total_len = snap_virtio_ctrl_state_size_v2 env c
      in if len < total_len then (- EINVAL, c, m)
         else
           let m = set_field_count 0 m;
               fld = virtio_state_fld_first;
               m = snap_virtio_ctrl_save_common_state_v2 (bar_curr c) fld m;
               m = set_field_count (virtio_field_count m + 1) m;
               (ret, c, m) = snap_virtio_ctrl_save_all_queues_v2 env fld c m
           in if ret < 0 then (ret, c, m)
              else
                let m = set_field_count (virtio_field_count m + of_int ret) m;
                    fld = (virtio_state_fld_next m ^^ nat ret) fld
                in if dev_cfg_len_v2 env = 0 then (int total_len, c, m)
                   else
                     let fld = virtio_state_fld_next m fld;
                         m = set_fld_hdr fld VIRTIO_DEV_CFG_SPACE (of_nat (dev_cfg_len_v2 env) - 8) m;
                         (ret, bytes) = se_get_state env (bar_curr c) (dev_cfg_len_v2 env) (\<lambda>i. m (fld + 8 + i));
                         m = mem_put (fld + 8) bytes m
                     in if ret < 0 then (- EINVAL, c, m)
                        else (int total_len, c, set_field_count (virtio_field_count m + 1) m))"

section \<open>Version 2: restoring\<close>

text \<open>What the loop over the fields has found: the queue states, the places of the common and of the
  device configuration.\<close>

record parsed =
  ps_queue_state :: "snap_virtio_ctrl_queue_state list"
  ps_common :: "nat option"
  ps_device :: "(nat \<times> nat) option"

definition queue_state0 :: snap_virtio_ctrl_queue_state where
  "queue_state0 = \<lparr>qs_queue_size = 0, qs_queue_msix_vector = 0, qs_queue_enable = 0, qs_queue_notify_off = 0,
     qs_queue_desc = 0, qs_queue_driver = 0, qs_queue_device = 0, qs_hw_available_index = 0, qs_hw_used_index = 0\<rparr>"

definition set_queue_cfg :: "virtio_state_q_cfg \<Rightarrow> snap_virtio_ctrl_queue_state \<Rightarrow> snap_virtio_ctrl_queue_state" where
  "set_queue_cfg x q = q\<lparr>qs_queue_size := qc_queue_size x, qs_queue_msix_vector := qc_queue_msix_vector x,
     qs_queue_enable := qc_queue_enable x, qs_queue_notify_off := qc_queue_notify_off x, qs_queue_desc := qc_queue_desc x,
     qs_queue_driver := qc_queue_driver x, qs_queue_device := qc_queue_device x\<rparr>"

text \<open>One field. \<open>None\<close> when the index in the field is outside the array of queue states, which is on the
  stack of the function.\<close>

definition restore_field :: "buf \<Rightarrow> nat \<Rightarrow> parsed \<Rightarrow> parsed option" where
  "restore_field m fld p =
     (if fld_type m fld = VIRTIO_DEV_PCI_COMMON_CFG then Some (p\<lparr>ps_common := Some (fld + 8)\<rparr>)
      else if fld_type m fld = VIRTIO_DEV_QUEUE_CFG then
        let x = dec_q_cfg (mem_get (fld + 8) 38 m); idx = unat (qc_queue_index x)
        in if length (ps_queue_state p) \<le> idx then None
           else Some (p\<lparr>ps_queue_state := (ps_queue_state p)[idx := set_queue_cfg x (ps_queue_state p ! idx)]\<rparr>)
      else if fld_type m fld = VIRTIO_DEV_SPLIT_Q_RUN_STATE then
        let x = dec_run_state (mem_get (fld + 8) 6 m); idx = unat (rs_queue_index x)
        in if length (ps_queue_state p) \<le> idx then None
           else Some (p\<lparr>ps_queue_state := (ps_queue_state p)[idx := (ps_queue_state p ! idx)
                  \<lparr>qs_hw_available_index := rs_last_avail_idx x, qs_hw_used_index := rs_last_used_idx x\<rparr>]\<rparr>)
      else if fld_type m fld = VIRTIO_DEV_CFG_SPACE then Some (p\<lparr>ps_device := Some (fld + 8, unat (fld_size m fld))\<rparr>)
      else Some p)"

function restore_loop :: "buf \<Rightarrow> nat \<Rightarrow> nat \<Rightarrow> nat \<Rightarrow> nat \<Rightarrow> nat \<Rightarrow> parsed \<Rightarrow> parsed option" where
  "restore_loop m len count total_len fld n p =
     (if total_len < len \<and> n < count
      then case restore_field m fld p of
             None \<Rightarrow> None
           | Some p \<Rightarrow> restore_loop m len count (total_len + unat (fld_size m fld)) (virtio_state_fld_next m fld) (n + 1) p
      else Some p)"
  by pat_completeness auto
termination by (relation "measure (\<lambda>(m, len, count, total_len, fld, n, p). count - n)") auto

declare restore_loop.simps [simp del]

definition restore_common :: "virtio_state_pci_common_cfg \<Rightarrow> snap_virtio_device_attr \<Rightarrow> snap_virtio_device_attr" where
  "restore_common x bar = bar\<lparr>device_feature := cc_device_feature x, driver_feature := cc_driver_feature x,
     msix_config := cc_msix_config x, attr_max_queues := cc_num_queues x, status := cc_device_status x,
     config_generation := cc_config_generation x, queue_select := cc_queue_select x,
     device_feature_select := ucast (cc_device_feature_select x), driver_feature_select := ucast (cc_driver_feature_select x)\<rparr>"

definition restore_queue_attr :: "snap_virtio_ctrl_queue_state \<Rightarrow> snap_virtio_queue_attr \<Rightarrow> snap_virtio_queue_attr" where
  "restore_queue_attr q vq = vq\<lparr>va_size := qs_queue_size q, va_msix_vector := qs_queue_msix_vector q, va_enable := qs_queue_enable q,
     va_notify_off := qs_queue_notify_off q, va_desc := qs_queue_desc q, va_driver := qs_queue_driver q, va_device := qs_queue_device q\<rparr>"

definition restore_queue_attrs :: "nat \<Rightarrow> snap_virtio_ctrl_queue_state list \<Rightarrow> snap_virtio_device_attr \<Rightarrow> snap_virtio_device_attr" where
  "restore_queue_attrs n qs bar =
     bar\<lparr>q_attrs := fold (\<lambda>i vqs. vqs[i := restore_queue_attr (qs ! i) (vqs ! i)]) [0..<n] (q_attrs bar)\<rparr>"

definition snap_virtio_ctrl_state_restore_v2 ::
  "'q state_env \<Rightarrow> nat \<Rightarrow> buf \<Rightarrow> 'q snap_virtio_ctrl \<Rightarrow> (int \<times> 'q snap_virtio_ctrl) option"
where
  "snap_virtio_ctrl_state_restore_v2 env len m c =
     (if len < 4 then Some (- EINVAL, c)
      else case se_set_state env of
        None \<Rightarrow> Some (- ENOTSUP, c)
      | Some set_state \<Rightarrow>
          if \<not> snap_virtio_ctrl_is_stopped c \<and> \<not> snap_virtio_ctrl_is_suspended c then Some (- EINVAL, c)
          else case restore_loop m len (unat (virtio_field_count m)) 4 virtio_state_fld_first 0
                 \<lparr>ps_queue_state = replicate (max_queues c) queue_state0, ps_common = None, ps_device = None\<rparr> of
            None \<Rightarrow> None
          | Some p \<Rightarrow>
              (case (ps_common p, ps_device p) of
                 (Some common, Some (dev, dev_len)) \<Rightarrow>
                   let c = (if snap_virtio_ctrl_is_suspended c then snd (snap_virtio_ctrl_stop (se_ctrl env) c) else c);
                       bar = restore_queue_attrs (max_queues c) (ps_queue_state p)
                               (restore_common (dec_pci_common_cfg (mem_get common 32 m)) (bar_curr c));
                       (ret, bar) = set_state bar (ps_queue_state p) (Some (mem_get dev dev_len m));
                       c = c\<lparr>bar_curr := bar\<rparr>
                   in if ret \<noteq> 0 then Some (ret, c)
                      else
                        let (ret, c) = (if SNAP_VIRTIO_CTRL_LIVE_DETECTED c
                                        then snap_virtio_ctrl_start (se_ctrl env) (c\<lparr>ctrl_state := SNAP_VIRTIO_CTRL_SUSPENDED\<rparr>) else (0, c))
                        in Some (ret, c\<lparr>bar_prev := snap_virtio_ctrl_bar_copy (se_ctrl env) (bar_curr c) (bar_prev c)\<rparr>)
               | _ \<Rightarrow> Some (- EINVAL, c)))"

section \<open>Version 1\<close>

text \<open>A section header is its length in two bytes and a name in sixteen.\<close>

definition snap_virtio_ctrl_init_section :: "nat \<Rightarrow> nat \<Rightarrow> string \<Rightarrow> buf \<Rightarrow> buf" where
  "snap_virtio_ctrl_init_section hdr len name m =
     mem_put (hdr + 2) (map of_char (take 15 name) @ [0]) (mem_put hdr (le_bytes 2 (of_nat len :: u16)) m)"

definition section_len :: "buf \<Rightarrow> nat \<Rightarrow> u16" where
  "section_len m hdr = le_word (mem_get hdr 2 m)"

definition section_hdr_to_data :: "buf \<Rightarrow> nat \<Rightarrow> nat option" where
  "section_hdr_to_data m hdr = (if section_len m hdr \<noteq> 0 then Some (hdr + 18) else None)"

text \<open>Lengths of the device, queue and common sections.\<close>

definition cfg_lens_v1 :: "'q state_env \<Rightarrow> 'q snap_virtio_ctrl \<Rightarrow> nat \<times> nat \<times> nat" where
  "cfg_lens_v1 env c = ((case se_get_state_size env of None \<Rightarrow> 0 | Some n \<Rightarrow> n) + 18, max_queues c * 36 + 18, 18 + 36)"

definition snap_virtio_ctrl_state_size_v1 :: "'q state_env \<Rightarrow> 'q snap_virtio_ctrl \<Rightarrow> nat" where
  "snap_virtio_ctrl_state_size_v1 env c = (let (dev, queue, common) = cfg_lens_v1 env c in 18 + dev + queue + common)"

text \<open>The places of the common, queue and device section.\<close>

definition snap_virtio_ctrl_save_init_hdrs ::
  "'q state_env \<Rightarrow> nat \<Rightarrow> 'q snap_virtio_ctrl \<Rightarrow> buf \<Rightarrow> int \<times> (nat \<times> nat \<times> nat) \<times> buf"
where
  "snap_virtio_ctrl_save_init_hdrs env len c m =
     (let total_len = snap_virtio_ctrl_state_size_v1 env c;
          (dev_cfg_len, queue_cfg_len, common_cfg_len) = cfg_lens_v1 env c;
          common = 18; qhdr = common + 18 + 36; dev = qhdr + 18 + 36 * max_queues c
      in if len < total_len then (- EINVAL, (common, qhdr, dev), m)
         else
           let m = snap_virtio_ctrl_init_section 0 total_len ''VIRTIO_CTRL_CFG'' m;
               m = snap_virtio_ctrl_init_section common common_cfg_len ''COMMON_PCI_CFG'' m;
               m = snap_virtio_ctrl_init_section qhdr queue_cfg_len ''QUEUES_CFG'' m;
               m = snap_virtio_ctrl_init_section dev dev_cfg_len ''DEVICE_CFG'' m
           in (int total_len, (common, qhdr, dev), m))"

fun ctrl_state_num :: "snap_virtio_ctrl_state \<Rightarrow> u32" where
  "ctrl_state_num SNAP_VIRTIO_CTRL_STOPPED = 0"
| "ctrl_state_num SNAP_VIRTIO_CTRL_STARTED = 1"
| "ctrl_state_num SNAP_VIRTIO_CTRL_SUSPENDED = 2"
| "ctrl_state_num SNAP_VIRTIO_CTRL_SUSPENDING = 3"

definition snap_virtio_ctrl_save_common_state :: "nat \<Rightarrow> snap_virtio_ctrl_state \<Rightarrow> snap_virtio_device_attr \<Rightarrow> buf \<Rightarrow> buf" where
  "snap_virtio_ctrl_save_common_state off st attr m =
     mem_put off (enc_common_state \<lparr>cs_cfg = common_cfg_of attr, cs_ctrl_state = ctrl_state_num st\<rparr>) m"

definition queue_state_of_attr :: "snap_virtio_queue_attr \<Rightarrow> snap_virtio_ctrl_queue_state" where
  "queue_state_of_attr vq = \<lparr>qs_queue_size = va_size vq, qs_queue_msix_vector = va_msix_vector vq, qs_queue_enable = va_enable vq,
     qs_queue_notify_off = va_notify_off vq, qs_queue_desc = va_desc vq, qs_queue_driver = va_driver vq,
     qs_queue_device = va_device vq, qs_hw_available_index = 0, qs_hw_used_index = 0\<rparr>"

definition snap_virtio_ctrl_save_queue_state :: "nat \<Rightarrow> snap_virtio_queue_attr \<Rightarrow> buf \<Rightarrow> buf" where
  "snap_virtio_ctrl_save_queue_state off vq m = mem_put off (enc_queue_state (queue_state_of_attr vq)) m"

text \<open>The loop over the queues; the queue implementation stores its two indices into the entry.\<close>

fun save_queues ::
  "'q state_env \<Rightarrow> nat list \<Rightarrow> nat \<Rightarrow> 'q snap_virtio_ctrl \<Rightarrow> buf \<Rightarrow> int \<times> 'q snap_virtio_ctrl \<times> buf"
where
  "save_queues env [] qs c m = (0, c, m)"
| "save_queues env (i # is) qs c m =
     (let vq = q_attrs (bar_curr c) ! i; e = qs + 36 * i;
          m = snap_virtio_ctrl_save_queue_state e vq m
      in case (qo_get_state (q_ops (se_ctrl env)), queues c ! i) of
           (Some get_state, Some a) \<Rightarrow>
             if va_enable vq = 0 then save_queues env is qs c m
             else (case heap c a of
                     None \<Rightarrow> (- EINVAL, c\<lparr>fault := True\<rparr>, m)
                   | Some q \<Rightarrow>
                       let (ret, avail, used) = get_state (cq_impl q)
                       in if ret \<noteq> 0 then (- EINVAL, c, m)
                          else save_queues env is qs c (mem_put (e + 34) (le_bytes 2 used) (mem_put (e + 32) (le_bytes 2 avail) m)))
         | _ \<Rightarrow> save_queues env is qs c m)"

definition snap_virtio_ctrl_save_all_queues ::
  "'q state_env \<Rightarrow> nat \<Rightarrow> 'q snap_virtio_ctrl \<Rightarrow> buf \<Rightarrow> int \<times> 'q snap_virtio_ctrl \<times> buf"
where
  "snap_virtio_ctrl_save_all_queues env qs c m =
     (let (ret, c, m) = save_queues env [0..<max_queues c] qs (pgs_suspend c) m
      in (ret, pgs_resume c, m))"

definition snap_virtio_ctrl_save_dev_state :: "'q state_env \<Rightarrow> snap_virtio_device_attr \<Rightarrow> nat \<Rightarrow> nat \<Rightarrow> buf \<Rightarrow> int \<times> buf" where
  "snap_virtio_ctrl_save_dev_state env attr off dev_cfg_len m =
     (if dev_cfg_len = 0 then (0, m)
      else let (ret, bytes) = se_get_state env attr dev_cfg_len (\<lambda>i. m (off + i)) in (ret, mem_put off bytes m))"

definition snap_virtio_ctrl_state_save_v1 ::
  "'q state_env \<Rightarrow> nat \<Rightarrow> 'q snap_virtio_ctrl \<Rightarrow> buf \<Rightarrow> int \<times> 'q snap_virtio_ctrl \<times> buf"
where
  "snap_virtio_ctrl_state_save_v1 env len c m =
     (let (total_len, (common, qhdr, dev), m) = snap_virtio_ctrl_save_init_hdrs env len c m
      in if total_len < 0 then (- EINVAL, c, m)
         else case section_hdr_to_data m common of
           None \<Rightarrow> (- EINVAL, c\<lparr>fault := True\<rparr>, m)
         | Some common_state \<Rightarrow>
             let m = snap_virtio_ctrl_save_common_state common_state (ctrl_state c) (bar_curr c) m
             in case section_hdr_to_data m qhdr of
                  None \<Rightarrow> (- EINVAL, c, m)
                | Some queue_state \<Rightarrow>
                    let (ret, c, m) = snap_virtio_ctrl_save_all_queues env queue_state c m
                    in if ret < 0 then (ret, c, m)
                       else case section_hdr_to_data m dev of
                         None \<Rightarrow> (total_len, c, m)
                       | Some device_state \<Rightarrow>
                           let (ret, m) = snap_virtio_ctrl_save_dev_state env (bar_curr c) device_state (unat (section_len m dev)) m
                           in if ret < 0 then (- EINVAL, c, m) else (total_len, c, m))"

definition ctrl_state_of_num :: "u32 \<Rightarrow> snap_virtio_ctrl_state" where
  "ctrl_state_of_num n =
     (if n = 0 then SNAP_VIRTIO_CTRL_STOPPED else if n = 1 then SNAP_VIRTIO_CTRL_STARTED
      else if n = 2 then SNAP_VIRTIO_CTRL_SUSPENDED else SNAP_VIRTIO_CTRL_SUSPENDING)"

text \<open>The headers are found by their lengths: the common section follows the global header, the queue
  section the common state; the device section is looked up only if the lengths leave room for it,
  otherwise the length of the queue section is passed on.\<close>

definition snap_virtio_ctrl_state_restore_v1 ::
  "'q state_env \<Rightarrow> nat \<Rightarrow> buf \<Rightarrow> 'q snap_virtio_ctrl \<Rightarrow> int \<times> 'q snap_virtio_ctrl"
where
  "snap_virtio_ctrl_state_restore_v1 env len m c =
     (case se_set_state env of
        None \<Rightarrow> (- ENOTSUP, c)
      | Some set_state \<Rightarrow>
          if \<not> snap_virtio_ctrl_is_stopped c \<and> \<not> snap_virtio_ctrl_is_suspended c then (- EINVAL, c)
          else if len < unat (section_len m 0) then (- EINVAL, c)
          else
            let common_state = dec_common_state (mem_get 36 36 m);
                qhdr = 72;
                queue_state = map (\<lambda>i. dec_queue_state (mem_get (qhdr + 18 + 36 * i) 36 m)) [0..<max_queues c];
                total_len = unat (section_len m 18) + unat (section_len m qhdr);
                dhdr = qhdr + unat (section_len m qhdr);
                device_state = (if total_len < len then Some (mem_get (dhdr + 18) (unat (section_len m dhdr)) m) else None)
            in if cs_ctrl_state common_state \<notin> {0, 2} then (- EINVAL, c)
               else
                 let c = (if snap_virtio_ctrl_is_suspended c then snd (snap_virtio_ctrl_stop (se_ctrl env) c) else c);
                     c = c\<lparr>ctrl_state := ctrl_state_of_num (cs_ctrl_state common_state)\<rparr>;
                     bar = restore_queue_attrs (max_queues c) queue_state (restore_common (cs_cfg common_state) (bar_curr c));
                     (ret, bar) = set_state bar queue_state device_state;
                     c = c\<lparr>bar_curr := bar\<rparr>
                 in if ret \<noteq> 0 then (ret, c)
                    else
                      let (ret, c) = (if cs_ctrl_state common_state = 2 then snap_virtio_ctrl_start (se_ctrl env) c else (0, c))
                      in (ret, c\<lparr>bar_prev := snap_virtio_ctrl_bar_copy (se_ctrl env) (bar_curr c) (bar_prev c)\<rparr>))"

text \<open>Recovery after a restart of the process: the registers of the device are written as a saved
  state and restored from it. \<open>calloc\<close> is the outcome of the allocation, whose memory is zero.\<close>

definition snap_virtio_ctrl_recover ::
  "'q state_env \<Rightarrow> bool \<Rightarrow> bool \<Rightarrow> snap_virtio_device_attr \<Rightarrow> 'q snap_virtio_ctrl \<Rightarrow> int \<times> 'q snap_virtio_ctrl"
where
  "snap_virtio_ctrl_recover env queue_attr_valid calloc attr c =
     (if \<not> snap_virtio_ctrl_is_suspended c then (- EINVAL, c)
      else if \<not> queue_attr_valid then (- EINVAL, c)
      else if \<not> calloc then (- ENOMEM, c)
      else
        let total_len = snap_virtio_ctrl_state_size_v1 env c;
            (ret, (common, qhdr, dev), m) = snap_virtio_ctrl_save_init_hdrs env total_len c (\<lambda>_. 0)
        in if ret < 0 then (ret, c)
           else case (section_hdr_to_data m common, section_hdr_to_data m qhdr) of
             (Some common_state, Some queue_state) \<Rightarrow>
               let m = snap_virtio_ctrl_save_common_state common_state (ctrl_state c) attr m;
                   m = fold (\<lambda>i m. snap_virtio_ctrl_save_queue_state (queue_state + 36 * i) (q_attrs attr ! i) m) [0..<max_queues c] m;
                   (ret, m) = (case section_hdr_to_data m dev of None \<Rightarrow> (0, m)
                                | Some device_state \<Rightarrow> snap_virtio_ctrl_save_dev_state env attr device_state (unat (section_len m dev)) m)
               in if ret < 0 then (ret, c)
                  else
                    let (ret, c) = snap_virtio_ctrl_state_restore_v1 env total_len m c;
                        (ret, c) = (if ret = 0 then snap_virtio_ctrl_resume (se_ctrl env) c else (ret, c))
                    in if ret = 0 \<and> ctrl_state c = SNAP_VIRTIO_CTRL_SUSPENDED then snap_virtio_ctrl_stop (se_ctrl env) c else (ret, c)
           | _ \<Rightarrow> (- EINVAL, c\<lparr>fault := True\<rparr>))"

section \<open>Queries and single queues\<close>

definition snap_virtio_ctrl_get_state_size_v2 :: "'q state_env \<Rightarrow> 'q snap_virtio_ctrl \<Rightarrow> nat \<times> 'q snap_virtio_ctrl" where
  "snap_virtio_ctrl_get_state_size_v2 env c =
     (let c = snap_virtio_ctrl_progress_lock c
      in if lm_state c \<noteq> SNAP_VIRTIO_CTRL_LM_FREEZED then (0, snap_virtio_ctrl_progress_unlock c)
         else (snap_virtio_ctrl_state_size_v2 env c, snap_virtio_ctrl_progress_unlock c))"

definition snap_virtio_ctrl_get_state_size_v1 :: "'q state_env \<Rightarrow> 'q snap_virtio_ctrl \<Rightarrow> nat \<times> 'q snap_virtio_ctrl" where
  "snap_virtio_ctrl_get_state_size_v1 env c =
     (let c = snap_virtio_ctrl_progress_lock c
      in if lm_state c \<noteq> SNAP_VIRTIO_CTRL_LM_FREEZED then (0, snap_virtio_ctrl_progress_unlock c)
         else (snap_virtio_ctrl_state_size_v1 env c, snap_virtio_ctrl_progress_unlock c))"

definition snap_virtio_ctrl_copy_state ::
  "'q state_env \<Rightarrow> nat \<Rightarrow> bool \<Rightarrow> 'q snap_virtio_ctrl \<Rightarrow> buf \<Rightarrow> int \<times> 'q snap_virtio_ctrl \<times> buf"
where
  "snap_virtio_ctrl_copy_state env len copy_from_buffer c m =
     (let c = snap_virtio_ctrl_progress_lock c;
          (ret, c, m) = (if \<not> copy_from_buffer then snap_virtio_ctrl_state_save_v1 env len c m
                         else let (ret, c) = snap_virtio_ctrl_state_restore_v1 env len m c in (ret, c, m))
      in (if ret < 0 then - 1 else 0, snap_virtio_ctrl_progress_unlock c, m))"

text \<open>\<open>None\<close> when the index is the number of queues, which the check of the code lets through.\<close>

definition snap_virtio_ctrl_provision_queue ::
  "snap_virtio_ctrl_queue_state list \<Rightarrow> nat \<Rightarrow> 'q snap_virtio_ctrl \<Rightarrow> (int \<times> 'q snap_virtio_ctrl) option"
where
  "snap_virtio_ctrl_provision_queue qst i c =
     (if max_queues c < i then Some (- EINVAL, c)
      else if length (q_attrs (bar_curr c)) \<le> i \<or> length qst \<le> i then None
      else let vqs = q_attrs (bar_curr c)
           in Some (0, c\<lparr>bar_curr := (bar_curr c)\<lparr>q_attrs := vqs[i := restore_queue_attr (qst ! i) (vqs ! i)]\<rparr>\<rparr>))"

definition snap_virtio_ctrl_query_queue ::
  "snap_virtio_ctrl_queue_state list \<Rightarrow> nat \<Rightarrow> 'q snap_virtio_ctrl \<Rightarrow> (int \<times> snap_virtio_ctrl_queue_state list) option"
where
  "snap_virtio_ctrl_query_queue qst i c =
     (if max_queues c < i then Some (- EINVAL, qst)
      else if length (q_attrs (bar_curr c)) \<le> i \<or> length qst \<le> i then None
      else let vq = q_attrs (bar_curr c) ! i
           in Some (0, qst[i := (queue_state_of_attr vq)\<lparr>qs_hw_available_index := qs_hw_available_index (qst ! i),
                          qs_hw_used_index := qs_hw_used_index (qst ! i)\<rparr>]))"

end
