(* ===== verification/Virtio_State_Fields.thy ===== *)
theory Virtio_State_Fields
  imports Virtio_State
begin

text \<open>
  What the buffer holds after a state was saved, and what a restore reads back from it. Version 2
  is treated as the list of its fields: saving stores their bytes one after the other
  (\<open>fields_bytes\<close>), the loop of the restore steps through exactly these fields (\<open>restore_loop_fields\<close>).
\<close>

section \<open>Fields in a buffer\<close>

definition fld_bytes :: "u32 \<times> u8 list \<Rightarrow> u8 list" where
  "fld_bytes f = le_bytes 4 (fst f) @ le_bytes 4 (of_nat (length (snd f)) :: u32) @ snd f"

definition fields_bytes :: "(u32 \<times> u8 list) list \<Rightarrow> u8 list" where
  "fields_bytes fs = concat (map fld_bytes fs)"

definition holds :: "buf \<Rightarrow> nat \<Rightarrow> u8 list \<Rightarrow> bool" where
  "holds m off bs \<longleftrightarrow> mem_get off (length bs) m = bs"

abbreviation fld_ok :: "u32 \<times> u8 list \<Rightarrow> bool" where
  "fld_ok f \<equiv> length (snd f) < 2 ^ 32"

lemma length_fld_bytes [simp]: "length (fld_bytes f) = 8 + length (snd f)"
  by (simp add: fld_bytes_def)

lemma fields_bytes_simps [simp]:
  "fields_bytes [] = []" "fields_bytes (f # fs) = fld_bytes f @ fields_bytes fs"
  "fields_bytes (fs @ gs) = fields_bytes fs @ fields_bytes gs"
  by (simp_all add: fields_bytes_def)

lemma mem_put_append: "mem_put (off + length a) b (mem_put off a m) = mem_put off (a @ b) m"
  by (rule ext) (auto simp: mem_put_def nth_append)

lemma mem_put_empty [simp]: "mem_put off [] m = m"
  by (rule ext) (auto simp: mem_put_def)

lemma holds_append: "holds m off (a @ b) \<longleftrightarrow> holds m off a \<and> holds m (off + length a) b"
proof -
  have "[off..<off + (length a + length b)] = [off..<off + length a] @ [off + length a..<off + length a + length b]"
    using upt_add_eq_append [of off "off + length a" "length b"] by (simp add: add.assoc)
  then have "mem_get off (length a + length b) m = mem_get off (length a) m @ mem_get (off + length a) (length b) m"
    by (simp add: mem_get_def)
  then show ?thesis by (simp add: holds_def)
qed

lemma holds_put: "holds (mem_put off bs m) off bs"
  by (simp add: holds_def mem_get_put_same)

lemma holds_put_out: "off + length bs \<le> a \<or> a + length cs \<le> off \<Longrightarrow> holds (mem_put a cs m) off bs \<longleftrightarrow> holds m off bs"
  by (simp add: holds_def mem_get_put_out)

lemma holds_get: "holds m off bs \<Longrightarrow> n = length bs \<Longrightarrow> mem_get off n m = bs"
  by (simp add: holds_def)

lemma put_field:
  "n = length d \<Longrightarrow> mem_put (fld + 8) d (set_fld_hdr fld ty (of_nat n) m) = mem_put fld (fld_bytes (ty, d)) m"
  using mem_put_append [of fld "le_bytes 4 ty" "le_bytes 4 (of_nat (length d) :: u32)" m]
    mem_put_append [of fld "le_bytes 4 ty @ le_bytes 4 (of_nat (length d) :: u32)" d m]
  by (simp add: set_fld_hdr_def fld_bytes_def)

lemma holds_field:
  assumes "holds m fld (fld_bytes f)" and "fld_ok f"
  shows "fld_type m fld = fst f" "fld_size m fld = of_nat (length (snd f))" "unat (fld_size m fld) = length (snd f)"
    "mem_get (fld + 8) (length (snd f)) m = snd f" "virtio_state_fld_next m fld = fld + length (fld_bytes f)"
proof -
  have h: "holds m fld (le_bytes 4 (fst f))" "holds m (fld + 4) (le_bytes 4 (of_nat (length (snd f)) :: u32))" "holds m (fld + 8) (snd f)"
    using assms(1) by (simp_all add: fld_bytes_def holds_append add.assoc)
  show "fld_type m fld = fst f" "fld_size m fld = of_nat (length (snd f))" "mem_get (fld + 8) (length (snd f)) m = snd f"
    using h by (simp_all add: fld_type_def fld_size_def holds_get le_word_le_bytes)
  then show "unat (fld_size m fld) = length (snd f)" using assms(2) by (simp add: unat_of_nat)
  then show "virtio_state_fld_next m fld = fld + length (fld_bytes f)" by (simp add: virtio_state_fld_next_def)
qed

lemma fld_next_iterate:
  assumes "holds m off (fields_bytes fs)" and "list_all fld_ok fs" and "k \<le> length fs"
  shows "(virtio_state_fld_next m ^^ k) off = off + length (fields_bytes (take k fs))"
  using assms
proof (induction k arbitrary: off fs)
  case (Suc k)
  then obtain f gs where fs: "fs = f # gs" by (cases fs) auto
  with Suc.prems have h: "holds m off (fld_bytes f)" "holds m (off + length (fld_bytes f)) (fields_bytes gs)" "fld_ok f" "list_all fld_ok gs"
    by (simp_all add: holds_append)
  have "(virtio_state_fld_next m ^^ Suc k) off = (virtio_state_fld_next m ^^ k) (virtio_state_fld_next m off)"
    by (simp add: funpow_swap1)
  also have "\<dots> = off + length (fields_bytes (take (Suc k) fs))"
    using Suc.IH [OF h(2,4)] Suc.prems(3) holds_field(5) [OF h(1,3)] fs by simp
  finally show ?case .
qed simp

section \<open>The loop of the restore\<close>

text \<open>The effect of a list of fields that starts at an offset.\<close>

definition parse_field :: "nat \<Rightarrow> u32 \<times> u8 list \<Rightarrow> parsed \<Rightarrow> parsed option" where
  "parse_field off f p =
     (if fst f = VIRTIO_DEV_PCI_COMMON_CFG then Some (p\<lparr>ps_common := Some (off + 8)\<rparr>)
      else if fst f = VIRTIO_DEV_QUEUE_CFG then
        let x = dec_q_cfg (snd f); idx = unat (qc_queue_index x)
        in if length (ps_queue_state p) \<le> idx then None
           else Some (p\<lparr>ps_queue_state := (ps_queue_state p)[idx := set_queue_cfg x (ps_queue_state p ! idx)]\<rparr>)
      else if fst f = VIRTIO_DEV_SPLIT_Q_RUN_STATE then
        let x = dec_run_state (snd f); idx = unat (rs_queue_index x)
        in if length (ps_queue_state p) \<le> idx then None
           else Some (p\<lparr>ps_queue_state := (ps_queue_state p)[idx := (ps_queue_state p ! idx)
                  \<lparr>qs_hw_available_index := rs_last_avail_idx x, qs_hw_used_index := rs_last_used_idx x\<rparr>]\<rparr>)
      else if fst f = VIRTIO_DEV_CFG_SPACE then Some (p\<lparr>ps_device := Some (off + 8, length (snd f))\<rparr>)
      else Some p)"

fun parse_fields :: "nat \<Rightarrow> (u32 \<times> u8 list) list \<Rightarrow> parsed \<Rightarrow> parsed option" where
  "parse_fields off [] p = Some p"
| "parse_fields off (f # fs) p = (case parse_field off f p of None \<Rightarrow> None | Some p \<Rightarrow> parse_fields (off + length (fld_bytes f)) fs p)"

text \<open>A field of a known type has the size of its structure.\<close>

definition fld_sized :: "u32 \<times> u8 list \<Rightarrow> bool" where
  "fld_sized f \<longleftrightarrow> (fst f = VIRTIO_DEV_QUEUE_CFG \<longrightarrow> length (snd f) = 38) \<and> (fst f = VIRTIO_DEV_SPLIT_Q_RUN_STATE \<longrightarrow> length (snd f) = 6)"

lemma restore_field_parse:
  assumes "holds m fld (fld_bytes f)" and "fld_ok f" and "fld_sized f"
  shows "restore_field m fld p = parse_field fld f p"
  using holds_field [OF assms(1,2)] assms(3) unfolding restore_field_def parse_field_def fld_sized_def by auto

lemma restore_loop_fields:
  assumes "holds m fld (fields_bytes fs)" and "list_all fld_ok fs" and "list_all fld_sized fs"
    and "n + length fs = count" and "total_len + (\<Sum>f\<leftarrow>fs. length (snd f)) + length fs \<le> len"
  shows "restore_loop m len count total_len fld n p = parse_fields fld fs p"
  using assms
proof (induction fs arbitrary: fld n total_len p)
  case Nil
  then show ?case by (subst restore_loop.simps) simp
next
  case (Cons f fs)
  then have h: "holds m fld (fld_bytes f)" "holds m (fld + length (fld_bytes f)) (fields_bytes fs)" "fld_ok f"
    by (simp_all add: holds_append)
  have l: "total_len < len" "n < count" using Cons.prems by simp_all
  have "restore_loop m len count (total_len + length (snd f)) (fld + length (fld_bytes f)) (n + 1) p =
      parse_fields (fld + length (fld_bytes f)) fs p" for p
    using Cons.prems by (intro Cons.IH [OF h(2)]) simp_all
  then show ?case using l restore_field_parse [OF h(1,3)] holds_field [OF h(1,3)] Cons.prems(3)
    by (subst restore_loop.simps) (simp split: option.split)
qed

lemma parse_fields_append:
  "parse_fields off (fs @ gs) p =
     (case parse_fields off fs p of None \<Rightarrow> None | Some p \<Rightarrow> parse_fields (off + length (fields_bytes fs)) gs p)"
  by (induction fs arbitrary: off p) (simp_all add: add.assoc split: option.split)

section \<open>Saving the queues\<close>

text \<open>The two indices that the queue implementation reports, if it is asked.\<close>

definition run_idx :: "'q state_env \<Rightarrow> 'q snap_virtio_ctrl \<Rightarrow> nat \<Rightarrow> (u16 \<times> u16) option" where
  "run_idx env c i =
     (case (qo_get_state (q_ops (se_ctrl env)), queues c ! i) of
        (Some get_state, Some a) \<Rightarrow>
          if va_enable (q_attrs (bar_curr c) ! i) = 0 then None else map_option (\<lambda>q. snd (get_state (cq_impl q))) (heap c a)
      | _ \<Rightarrow> None)"

definition queue_state_of :: "'q state_env \<Rightarrow> 'q snap_virtio_ctrl \<Rightarrow> nat \<Rightarrow> snap_virtio_ctrl_queue_state" where
  "queue_state_of env c i =
     (let q = queue_state_of_attr (q_attrs (bar_curr c) ! i)
      in case run_idx env c i of None \<Rightarrow> q | Some (avail, used) \<Rightarrow> q\<lparr>qs_hw_available_index := avail, qs_hw_used_index := used\<rparr>)"

text \<open>Every queue that is asked, an enabled one, exists and reports its indices.\<close>

definition reports :: "'q state_env \<Rightarrow> 'q snap_virtio_ctrl \<Rightarrow> bool" where
  "reports env c \<longleftrightarrow> (\<forall>i a get_state. queues c ! i = Some a \<longrightarrow> i < max_queues c \<longrightarrow> va_enable (q_attrs (bar_curr c) ! i) \<noteq> 0 \<longrightarrow> qo_get_state (q_ops (se_ctrl env)) = Some get_state \<longrightarrow>
     (\<exists>q. heap c a = Some q \<and> fst (get_state (cq_impl q)) = 0))"

definition q_cfg_of :: "'q snap_virtio_ctrl \<Rightarrow> nat \<Rightarrow> virtio_state_q_cfg" where
  "q_cfg_of c idx =
     (let vq = q_attrs (bar_curr c) ! idx
      in \<lparr>qc_queue_index = of_nat idx, qc_queue_size = va_size vq,
           qc_queue_msix_vector = va_msix_vector vq, qc_queue_enable = va_enable vq, qc_queue_notify_off = va_notify_off vq,
           qc_queue_desc = va_desc vq, qc_queue_driver = va_driver vq, qc_queue_device = va_device vq,
           qc_queue_notify_data = 0, qc_queue_reset = 0\<rparr>)"

definition queue_fields :: "'q state_env \<Rightarrow> 'q snap_virtio_ctrl \<Rightarrow> nat \<Rightarrow> (u32 \<times> u8 list) list" where
  "queue_fields env c i = (VIRTIO_DEV_QUEUE_CFG, enc_q_cfg (q_cfg_of c i)) #
     (case run_idx env c i of None \<Rightarrow> []
      | Some (avail, used) \<Rightarrow> [(VIRTIO_DEV_SPLIT_Q_RUN_STATE,
          enc_run_state \<lparr>rs_queue_index = of_nat i, rs_last_avail_idx = avail, rs_last_used_idx = used\<rparr>)])"

lemma queue_fields_ok: "list_all fld_ok (queue_fields env c i)" "list_all fld_sized (queue_fields env c i)"
  by (auto simp: queue_fields_def fld_sized_def q_cfg.length_enc run_state.length_enc split: option.split)

lemma save_queue_state_bytes:
  "snap_virtio_ctrl_save_queue_state_v2 c i fld m = mem_put fld (fld_bytes (VIRTIO_DEV_QUEUE_CFG, enc_q_cfg (q_cfg_of c i))) m"
  using put_field [of 38 "enc_q_cfg (q_cfg_of c i)" fld VIRTIO_DEV_QUEUE_CFG m]
  by (simp add: snap_virtio_ctrl_save_queue_state_v2_def q_cfg_of_def q_cfg.length_enc Let_def)

lemma save_run_state_bytes:
  "snap_virtio_ctrl_save_queue_run_state_v2 avail used i fld m = mem_put fld (fld_bytes (VIRTIO_DEV_SPLIT_Q_RUN_STATE,
     enc_run_state \<lparr>rs_queue_index = of_nat i, rs_last_avail_idx = avail, rs_last_used_idx = used\<rparr>)) m"
  using put_field [of 6 _ fld VIRTIO_DEV_SPLIT_Q_RUN_STATE m]
  by (simp add: snap_virtio_ctrl_save_queue_run_state_v2_def run_state.length_enc)

text \<open>The field after one that was just stored.\<close>

lemma fld_next_put: "fld_ok f \<Longrightarrow> virtio_state_fld_next (mem_put fld (fld_bytes f) m) fld = fld + length (fld_bytes f)"
  using holds_field(5) [OF holds_put] .

lemma save_queues_v2_bytes:
  assumes "reports env c" and "set is \<subseteq> {..<max_queues c}" and "virtio_state_fld_next m fld = off"
  shows "save_queues_v2 env is fld n c m =
     (int (n + length (concat (map (queue_fields env c) is))), c, mem_put off (fields_bytes (concat (map (queue_fields env c) is))) m)"
  using assms(2,3)
proof (induction "is" arbitrary: fld n m off)
  case (Cons i "is")
  let ?f = "(VIRTIO_DEV_QUEUE_CFG, enc_q_cfg (q_cfg_of c i))"
  let ?m1 = "mem_put off (fld_bytes ?f) m"
  have n1: "virtio_state_fld_next ?m1 off = off + length (fld_bytes ?f)" by (rule fld_next_put) (simp add: q_cfg.length_enc)
  show ?case
  proof (cases "run_idx env c i")
    case None
    have "save_queues_v2 env (i # is) fld n c m = save_queues_v2 env is off (n + 1) c ?m1"
      using None Cons.prems assms(1) unfolding run_idx_def reports_def
      by (fastforce simp: save_queue_state_bytes Let_def split: option.splits if_splits)
    also have "\<dots> = (int (n + 1 + length (concat (map (queue_fields env c) is))), c,
        mem_put (off + length (fld_bytes ?f)) (fields_bytes (concat (map (queue_fields env c) is))) ?m1)"
      using Cons.IH [OF _ n1] Cons.prems by simp
    also have q1: "queue_fields env c i = [?f]" using None by (simp add: queue_fields_def)
    then have "mem_put (off + length (fld_bytes ?f)) (fields_bytes (concat (map (queue_fields env c) is))) ?m1 =
        mem_put off (fields_bytes (concat (map (queue_fields env c) (i # is)))) m" by (simp only: mem_put_append) simp
    finally show ?thesis using q1 by (simp del: save_queues_v2.simps)
  next
    case (Some r)
    obtain avail used where r: "r = (avail, used)" by (cases r)
    let ?g = "(VIRTIO_DEV_SPLIT_Q_RUN_STATE, enc_run_state \<lparr>rs_queue_index = of_nat i, rs_last_avail_idx = avail, rs_last_used_idx = used\<rparr>)"
    let ?m2 = "mem_put off (fld_bytes ?f @ fld_bytes ?g) m"
    have n2: "virtio_state_fld_next ?m2 (off + length (fld_bytes ?f)) = off + length (fld_bytes ?f) + length (fld_bytes ?g)"
      using fld_next_put [of ?g "off + length (fld_bytes ?f)" ?m1] by (simp only: mem_put_append) (simp add: run_state.length_enc)
    obtain get_state a q where g: "qo_get_state (q_ops (se_ctrl env)) = Some get_state" "queues c ! i = Some a" "heap c a = Some q"
      "va_enable (q_attrs (bar_curr c) ! i) \<noteq> 0" "snd (get_state (cq_impl q)) = (avail, used)"
      using Some r unfolding run_idx_def by (auto split: option.splits if_splits)
    have "fst (get_state (cq_impl q)) = 0" using assms(1) g Cons.prems(1) unfolding reports_def by fastforce
    then have s: "get_state (cq_impl q) = (0, avail, used)" using g(5) by (cases "get_state (cq_impl q)") simp
    have "save_queues_v2 env (i # is) fld n c m = save_queues_v2 env is (off + length (fld_bytes ?f)) (n + 2) c ?m2"
      using g s Cons.prems(2) n1 by (simp add: save_queue_state_bytes save_run_state_bytes Let_def)
        (simp only: mem_put_append [symmetric] length_fld_bytes snd_conv)
    also have "\<dots> = (int (n + 2 + length (concat (map (queue_fields env c) is))), c,
        mem_put (off + length (fld_bytes ?f @ fld_bytes ?g)) (fields_bytes (concat (map (queue_fields env c) is))) ?m2)"
      using Cons.IH [OF _ n2] Cons.prems by (simp add: ac_simps)
    also have q2: "queue_fields env c i = [?f, ?g]" using Some r by (simp add: queue_fields_def)
    then have "mem_put (off + length (fld_bytes ?f @ fld_bytes ?g)) (fields_bytes (concat (map (queue_fields env c) is))) ?m2 =
        mem_put off (fields_bytes (concat (map (queue_fields env c) (i # is)))) m" by (simp only: mem_put_append) simp
    finally show ?thesis using q2 by (simp del: save_queues_v2.simps)
  qed
qed simp

section \<open>Saving, version 2\<close>

text \<open>All fields of the saved state of a controller whose device configuration is \<open>bytes\<close>.\<close>

definition state_fields :: "'q state_env \<Rightarrow> 'q snap_virtio_ctrl \<Rightarrow> u8 list \<Rightarrow> (u32 \<times> u8 list) list" where
  "state_fields env c bytes = (VIRTIO_DEV_PCI_COMMON_CFG, enc_pci_common_cfg (common_cfg_of (bar_curr c))) #
     concat (map (queue_fields env c) [0..<max_queues c]) @ [(VIRTIO_DEV_CFG_SPACE, bytes)]"

lemma list_all_queue_fields:
  "(\<And>i. i \<in> set is \<Longrightarrow> list_all P (queue_fields env c i)) \<Longrightarrow> list_all P (concat (map (queue_fields env c) is))"
  by (induction "is") auto

lemma state_fields_ok:
  assumes "length bytes < 2 ^ 32"
  shows "list_all fld_ok (state_fields env c bytes)" "list_all fld_sized (state_fields env c bytes)"
  using assms list_all_queue_fields [OF queue_fields_ok(1)] list_all_queue_fields [OF queue_fields_ok(2)]
  by (auto simp: state_fields_def common_cfg.length_enc fld_sized_def)

lemma length_queue_fields:
  "length (fields_bytes (queue_fields env c i)) \<le> 60" "length (queue_fields env c i) \<le> 2"
  by (auto simp: queue_fields_def q_cfg.length_enc run_state.length_enc split: option.split)

lemma length_queues_bytes:
  "length (fields_bytes (concat (map (queue_fields env c) is))) \<le> 60 * length is \<and> length (concat (map (queue_fields env c) is)) \<le> 2 * length is"
proof (induction "is")
  case (Cons i "is")
  then show ?case using length_queue_fields [of env c i] by simp
qed simp

lemma length_state_bytes:
  assumes "se_get_state_size env = Some (length bytes)"
  shows "4 + length (fields_bytes (state_fields env c bytes)) \<le> snap_virtio_ctrl_state_size_v2 env c"
    and "length (state_fields env c bytes) \<le> 2 * max_queues c + 2"
  using length_queues_bytes [of env c "[0..<max_queues c]"] assms
  by (simp_all add: state_fields_def snap_virtio_ctrl_state_size_v2_def dev_cfg_len_v2_def common_cfg.length_enc)

lemma pgs_suspend_fields [simp]:
  "queues (pgs_suspend c) = queues c" "heap (pgs_suspend c) = heap c" "bar_curr (pgs_suspend c) = bar_curr c" "max_queues (pgs_suspend c) = max_queues c"
  by (simp_all add: pgs_suspend_def)

lemma pgs_suspend_reports [simp]:
  "reports env (pgs_suspend c) = reports env c" "queue_fields env (pgs_suspend c) = queue_fields env c"
proof -
  have "run_idx env (pgs_suspend c) i = run_idx env c i" for i
    by (simp add: run_idx_def split: option.split)
  then show "queue_fields env (pgs_suspend c) = queue_fields env c"
    by (simp add: queue_fields_def q_cfg_of_def fun_eq_iff)
qed (simp add: reports_def)

lemma pgs_resume_suspend: "locks_free (pg_ctx c) \<Longrightarrow> pgs_resume (pgs_suspend c) = c"
  by (simp add: pgs_resume_def pgs_suspend_def snap_pgs_suspend_resume)

lemma save_all_queues_v2_bytes:
  assumes "reports env c" and "locks_free (pg_ctx c)" and "virtio_state_fld_next m fld = off"
  shows "snap_virtio_ctrl_save_all_queues_v2 env fld c m = (int (length (concat (map (queue_fields env c) [0..<max_queues c]))), c,
     mem_put off (fields_bytes (concat (map (queue_fields env c) [0..<max_queues c]))) m)"
proof -
  have "set [0..<max_queues c] \<subseteq> {..<max_queues (pgs_suspend c)}" by auto
  from save_queues_v2_bytes [OF _ this assms(3), of env 0] show ?thesis
    using assms pgs_resume_suspend [OF assms(2)] by (simp add: snap_virtio_ctrl_save_all_queues_v2_def)
qed

text \<open>Storing the number of fields in front of them.\<close>

lemma field_count_put: "virtio_field_count (mem_put 4 bs (set_field_count n m)) = n" "virtio_field_count (set_field_count n m) = n"
  using mem_get_put_same [of 4 "le_bytes 4 n" 0 m] mem_get_put_out [of 0 4 4 bs]
  by (simp_all add: virtio_field_count_def set_field_count_def le_word_le_bytes)

lemma set_field_count_put: "set_field_count n (mem_put 4 bs (set_field_count n' m)) = mem_put 4 bs (set_field_count n m)"
  by (rule ext) (auto simp: set_field_count_def mem_put_def)

lemma save_common_bytes:
  "snap_virtio_ctrl_save_common_state_v2 attr fld m =
     mem_put fld (fld_bytes (VIRTIO_DEV_PCI_COMMON_CFG, enc_pci_common_cfg (common_cfg_of attr))) m"
  using put_field [of 32 "enc_pci_common_cfg (common_cfg_of attr)" fld VIRTIO_DEV_PCI_COMMON_CFG m]
  by (simp add: snap_virtio_ctrl_save_common_state_v2_def common_cfg.length_enc)

text \<open>Where the device configuration goes.\<close>

definition dev_off :: "'q state_env \<Rightarrow> 'q snap_virtio_ctrl \<Rightarrow> nat" where
  "dev_off env c = 4 + length (fields_bytes ((VIRTIO_DEV_PCI_COMMON_CFG, enc_pci_common_cfg (common_cfg_of (bar_curr c))) #
     concat (map (queue_fields env c) [0..<max_queues c]))) + 8"

lemma state_save_v2_bytes:
  assumes "reports env c" and "locks_free (pg_ctx c)" and "se_get_state_size env = Some (length bytes)" and "length bytes < 2 ^ 31"
    and "se_get_state env (bar_curr c) (8 + length bytes) (\<lambda>i. m (dev_off env c + i)) = (r, bytes)" and "0 \<le> r" and "snap_virtio_ctrl_state_size_v2 env c \<le> len"
  shows "snap_virtio_ctrl_state_save_v2 env len c m = (int (snap_virtio_ctrl_state_size_v2 env c), c,
     mem_put 4 (fields_bytes (state_fields env c bytes)) (set_field_count (of_nat (length (state_fields env c bytes))) m))"
proof -
  let ?qs = "concat (map (queue_fields env c) [0..<max_queues c])"
  let ?f = "(VIRTIO_DEV_PCI_COMMON_CFG, enc_pci_common_cfg (common_cfg_of (bar_curr c)))"
  let ?d = "(VIRTIO_DEV_CFG_SPACE, bytes)"
  let ?m = "\<lambda>n fs. mem_put 4 (fields_bytes fs) (set_field_count n m)"
  have ok: "list_all fld_ok (?f # ?qs)" using state_fields_ok(1) [of bytes env c] assms(4) by (simp add: state_fields_def)
  have nf: "virtio_state_fld_next (?m 1 [?f]) 4 = 4 + length (fld_bytes ?f)"
    using fld_next_put [of ?f 4 "set_field_count 1 m"] by (simp add: common_cfg.length_enc)
  have app: "mem_put (4 + length (fields_bytes fs)) (fields_bytes gs) (?m n fs) = ?m n (fs @ gs)" for n fs gs
    by (simp add: mem_put_append)
  have it: "(virtio_state_fld_next (?m n (?f # ?qs)) ^^ Suc (length ?qs)) 4 = 4 + length (fields_bytes (?f # ?qs))" for n
    using fld_next_iterate [OF holds_put ok, of "Suc (length ?qs)" 4 "set_field_count n m"] by simp
  have cnt: "1 + of_int (int (length ?qs)) + 1 = (of_nat (length (?f # ?qs @ [?d])) :: u32)" by simp
  have dsz: "of_nat (8 + length bytes) - 8 = (of_nat (length bytes) :: u32)" "dev_cfg_len_v2 env = 8 + length bytes"
    using assms(3) by (simp_all add: dev_cfg_len_v2_def)
  have dput: "mem_put (off + 8) bytes (set_fld_hdr off VIRTIO_DEV_CFG_SPACE (of_nat (length bytes)) mm) = mem_put off (fields_bytes [?d]) mm" for off mm
    by (simp add: put_field)
  let ?k = "1 + of_int (int (length ?qs)) :: u32"
  have s1: "set_field_count (virtio_field_count (?m 0 [?f]) + 1) (?m 0 [?f]) = ?m 1 [?f]"
    by (simp add: field_count_put set_field_count_put)
  have s2: "snap_virtio_ctrl_save_all_queues_v2 env 4 c (?m 1 [?f]) = (int (length ?qs), c, ?m 1 (?f # ?qs))"
    using save_all_queues_v2_bytes [OF assms(1,2) nf] app [of "[?f]" ?qs 1] by simp
  have s3: "set_field_count (virtio_field_count (?m 1 (?f # ?qs)) + of_int (int (length ?qs))) (?m 1 (?f # ?qs)) = ?m ?k (?f # ?qs)"
    by (simp add: field_count_put set_field_count_put)
  have s4: "virtio_state_fld_next (?m ?k (?f # ?qs)) ((virtio_state_fld_next (?m ?k (?f # ?qs)) ^^ nat (int (length ?qs))) 4) =
      4 + length (fields_bytes (?f # ?qs))" using it [of ?k] by simp
  have s5: "mem_put (4 + length (fields_bytes (?f # ?qs)) + 8) bytes (set_fld_hdr (4 + length (fields_bytes (?f # ?qs))) VIRTIO_DEV_CFG_SPACE
      (of_nat (length bytes)) (?m ?k (?f # ?qs))) = ?m ?k (state_fields env c bytes)"
    unfolding dput app by (simp add: state_fields_def)
  have s6: "set_field_count (virtio_field_count (?m ?k (state_fields env c bytes)) + 1) (?m ?k (state_fields env c bytes)) =
      ?m (of_nat (length (state_fields env c bytes))) (state_fields env c bytes)"
    unfolding field_count_put set_field_count_put using cnt by (simp add: state_fields_def)
  have s0: "snap_virtio_ctrl_save_common_state_v2 (bar_curr c) 4 (set_field_count 0 m) = ?m 0 [?f]" by (simp add: save_common_bytes)
  have cond: "(len < snap_virtio_ctrl_state_size_v2 env c) = False" "(int (length ?qs) < 0) = False" "(8 + length bytes = 0) = False"
    "(r < 0) = False" using assms(6,7) by simp_all
  let ?o = "4 + length (fields_bytes (?f # ?qs))"
  have old: "(\<lambda>i. set_fld_hdr ?o t z (?m k (?f # ?qs)) (?o + 8 + i)) = (\<lambda>i. m (dev_off env c + i))" for t z k
    unfolding dev_off_def by (rule ext) (simp add: set_fld_hdr_def set_field_count_def mem_put_out)
  show ?thesis
    unfolding snap_virtio_ctrl_state_save_v2_def virtio_state_fld_first_def Let_def
    by (simp only: cond s0 s1 s2 s3 s4 s5 s6 dsz old assms(5) prod.case if_False)
qed

text \<open>Whatever the queues report, the loop stays within the two fields per queue that the size of the
  state provides for, and it fails if a queue does not report.\<close>

lemma save_queues_v2_bounds:
  "virtio_state_fld_next m fld = off \<Longrightarrow> off + 60 * length is \<le> x \<Longrightarrow> snd (snd (save_queues_v2 env is fld n c m)) x = m x"
proof (induction "is" arbitrary: fld n m off)
  case (Cons i "is")
  let ?f = "(VIRTIO_DEV_QUEUE_CFG, enc_q_cfg (q_cfg_of c i))"
  let ?m1 = "mem_put off (fld_bytes ?f) m"
  let ?g = "\<lambda>avail used. (VIRTIO_DEV_SPLIT_Q_RUN_STATE, enc_run_state \<lparr>rs_queue_index = of_nat i, rs_last_avail_idx = avail, rs_last_used_idx = used\<rparr>)"
  have l: "length (fld_bytes ?f) = 46" "length (fld_bytes (?g avail used)) = 14" for avail used
    by (simp_all add: q_cfg.length_enc run_state.length_enc)
  have n1: "virtio_state_fld_next ?m1 off = off + 46" using fld_next_put [of ?f off m] l(1) by (simp add: q_cfg.length_enc)
  have n2: "virtio_state_fld_next (mem_put (off + 46) (fld_bytes (?g avail used)) ?m1) (off + 46) = off + 60" for avail used
    using fld_next_put [of "?g avail used" "off + 46" ?m1] l(2) by (simp add: run_state.length_enc)
  have o: "?m1 x = m x" "mem_put (off + 46) (fld_bytes (?g avail used)) ?m1 x = m x" for avail used
    using Cons.prems(2) l by (simp_all add: mem_put_out)
  have i1: "snd (snd (save_queues_v2 env is off k c ?m1)) x = m x" for k
    using Cons.IH [OF n1, of k] Cons.prems(2) o by simp
  have i2: "snd (snd (save_queues_v2 env is (off + 46) k c (mem_put (off + 46) (fld_bytes (?g avail used)) ?m1))) x = m x" for k avail used
    using Cons.IH [OF n2, of k] Cons.prems(2) o by simp
  show ?case
    using o i1 i2 by (auto simp: Cons.prems(1) save_queue_state_bytes save_run_state_bytes n1 Let_def split: option.split prod.split)
qed simp

lemma save_queues_v2_reported:
  "0 \<le> fst (save_queues_v2 env is fld n c m) \<Longrightarrow> i \<in> set is \<Longrightarrow> queues c ! i = Some a \<Longrightarrow> va_enable (q_attrs (bar_curr c) ! i) \<noteq> 0 \<Longrightarrow>
    qo_get_state (q_ops (se_ctrl env)) = Some get_state \<Longrightarrow> \<exists>q. heap c a = Some q \<and> fst (get_state (cq_impl q)) = 0"
proof (induction "is" arbitrary: fld n m)
  case (Cons j "is")
  then show ?case by (fastforce simp: Let_def split: option.splits prod.splits if_splits)
qed simp

lemma save_all_queues_v2_fails:
  assumes "\<not> reports env c"
  shows "fst (snap_virtio_ctrl_save_all_queues_v2 env fld c m) < 0"
proof (rule ccontr)
  assume "\<not> ?thesis"
  then have "0 \<le> fst (save_queues_v2 env [0..<max_queues c] fld 0 (pgs_suspend c) m)"
    by (auto simp: snap_virtio_ctrl_save_all_queues_v2_def split: prod.splits)
  from save_queues_v2_reported [OF this] have "reports env (pgs_suspend c)" unfolding reports_def by auto
  with assms show False by simp
qed

lemma state_save_v2_bounds:
  assumes "locks_free (pg_ctx c)" and "se_get_state_size env = Some n" and "n < 2 ^ 31"
    and "\<And>old. \<exists>r bytes. se_get_state env (bar_curr c) (8 + n) old = (r, bytes) \<and> 0 \<le> r \<and> length bytes = n"
    and "snap_virtio_ctrl_state_size_v2 env c \<le> x"
  shows "snd (snd (snap_virtio_ctrl_state_save_v2 env len c m)) x = m x"
proof (cases "len < snap_virtio_ctrl_state_size_v2 env c")
  case False
  have sz: "snap_virtio_ctrl_state_size_v2 env c = 52 + n + 60 * max_queues c"
    using assms(2) by (simp add: snap_virtio_ctrl_state_size_v2_def dev_cfg_len_v2_def)
  show ?thesis
  proof (cases "reports env c")
    case True
    obtain r bytes where b: "se_get_state env (bar_curr c) (8 + n) (\<lambda>i. m (dev_off env c + i)) = (r, bytes)" "0 \<le> r" "length bytes = n"
      using assms(4) by blast
    have "snap_virtio_ctrl_state_save_v2 env len c m = (int (snap_virtio_ctrl_state_size_v2 env c), c,
       mem_put 4 (fields_bytes (state_fields env c bytes)) (set_field_count (of_nat (length (state_fields env c bytes))) m))"
      using False assms(2,3) b by (intro state_save_v2_bytes [OF True assms(1)]) simp_all
    moreover have "4 + length (fields_bytes (state_fields env c bytes)) \<le> x"
      using length_state_bytes [of env bytes c] assms(2,5) b(3) by simp
    ultimately show ?thesis using sz assms(5) by (simp add: mem_put_out set_field_count_def)
  next
    case no: False
    let ?m = "set_field_count (virtio_field_count (snap_virtio_ctrl_save_common_state_v2 (bar_curr c) 4 (set_field_count 0 m)) + 1)
      (snap_virtio_ctrl_save_common_state_v2 (bar_curr c) 4 (set_field_count 0 m))"
    let ?f = "(VIRTIO_DEV_PCI_COMMON_CFG, enc_pci_common_cfg (common_cfg_of (bar_curr c)))"
    have m: "?m = mem_put 4 (fld_bytes ?f) (set_field_count 1 m)"
      by (simp add: save_common_bytes field_count_put set_field_count_put)
    have nf: "virtio_state_fld_next ?m 4 = 44" unfolding m using fld_next_put [of ?f 4 "set_field_count 1 m"] by (simp add: common_cfg.length_enc)
    have "snd (snd (snap_virtio_ctrl_save_all_queues_v2 env 4 c ?m)) x = ?m x"
      using save_queues_v2_bounds [OF nf, of "[0..<max_queues c]" x env 0 "pgs_suspend c"] assms(5) sz
      by (simp add: snap_virtio_ctrl_save_all_queues_v2_def split_def Let_def)
    moreover have "?m x = m x" unfolding m using assms(5) sz by (simp add: mem_put_out common_cfg.length_enc set_field_count_def)
    ultimately show ?thesis
      using save_all_queues_v2_fails [OF no, of 4 ?m] False
      by (simp add: snap_virtio_ctrl_state_save_v2_def Let_def virtio_state_fld_first_def split_def)
  qed
qed (simp add: snap_virtio_ctrl_state_save_v2_def Let_def)

section \<open>Restoring, version 2\<close>

lemma fold_update_map:
  assumes "n \<le> length xs"
  shows "fold (\<lambda>i xs. xs[i := h i (xs ! i)]) [0..<n] xs = map (\<lambda>i. h i (xs ! i)) [0..<n] @ drop n xs"
  using assms
proof (induction n)
  case (Suc n)
  then show ?case by (simp add: list_update_append nth_append Cons_nth_drop_Suc [symmetric])
qed simp

definition update_queue_state :: "'q state_env \<Rightarrow> 'q snap_virtio_ctrl \<Rightarrow> nat \<Rightarrow> snap_virtio_ctrl_queue_state \<Rightarrow> snap_virtio_ctrl_queue_state" where
  "update_queue_state env c i q =
     (let q = set_queue_cfg (q_cfg_of c i) q
      in case run_idx env c i of None \<Rightarrow> q | Some (avail, used) \<Rightarrow> q\<lparr>qs_hw_available_index := avail, qs_hw_used_index := used\<rparr>)"

lemma update_queue_state0: "update_queue_state env c i queue_state0 = queue_state_of env c i"
  by (simp add: update_queue_state_def queue_state_of_def set_queue_cfg_def q_cfg_of_def queue_state_of_attr_def queue_state0_def Let_def
      split: option.split)

lemma parse_queue_fields:
  assumes "i < length (ps_queue_state p)" and "i < 2 ^ 16"
  shows "parse_fields off (queue_fields env c i) p =
     Some (p\<lparr>ps_queue_state := (ps_queue_state p)[i := update_queue_state env c i (ps_queue_state p ! i)]\<rparr>)"
  using assms
  by (auto simp: queue_fields_def parse_field_def q_cfg.dec_enc run_state.dec_enc q_cfg_of_def update_queue_state_def unat_of_nat Let_def
      split: option.split)

lemma parse_queues:
  assumes "set is \<subseteq> {..<length (ps_queue_state p)}" and "length (ps_queue_state p) \<le> 2 ^ 16"
  shows "parse_fields off (concat (map (queue_fields env c) is)) p =
     Some (p\<lparr>ps_queue_state := fold (\<lambda>i qs. qs[i := update_queue_state env c i (qs ! i)]) is (ps_queue_state p)\<rparr>)"
  using assms
proof (induction "is" arbitrary: off p)
  case (Cons i "is")
  then show ?case by (simp add: parse_fields_append parse_queue_fields)
qed simp

lemma parse_state_fields:
  assumes "max_queues c \<le> 2 ^ 16" and "length bytes < 2 ^ 32"
  shows "parse_fields off (state_fields env c bytes)
       \<lparr>ps_queue_state = replicate (max_queues c) queue_state0, ps_common = None, ps_device = None\<rparr> =
     Some \<lparr>ps_queue_state = map (queue_state_of env c) [0..<max_queues c], ps_common = Some (off + 8),
       ps_device = Some (off + length (fields_bytes (butlast (state_fields env c bytes))) + 8, length bytes)\<rparr>"
proof -
  have "fold (\<lambda>i qs. qs[i := update_queue_state env c i (qs ! i)]) [0..<max_queues c] (replicate (max_queues c) queue_state0) =
      map (queue_state_of env c) [0..<max_queues c]"
    by (simp add: fold_update_map update_queue_state0)
  then show ?thesis using assms(1)
    by (simp add: state_fields_def parse_field_def parse_fields_append parse_queues atLeast0LessThan butlast_append)
qed

text \<open>The registers of the destination with the migrated part of the source.\<close>

definition migrated :: "snap_virtio_device_attr \<Rightarrow> snap_virtio_device_attr \<Rightarrow> snap_virtio_device_attr" where
  "migrated src dst = dst\<lparr>device_feature := device_feature src, driver_feature := driver_feature src, msix_config := msix_config src,
     attr_max_queues := attr_max_queues src, status := status src, config_generation := config_generation src,
     queue_select := queue_select src, device_feature_select := device_feature_select src,
     driver_feature_select := driver_feature_select src, q_attrs := q_attrs src\<rparr>"

lemma restore_common_of: "restore_common (common_cfg_of src) dst = (migrated src dst)\<lparr>q_attrs := q_attrs dst\<rparr>"
proof -
  have "ucast (ucast x :: u32) = x" for x :: u8 by (rule bit_word_eqI) (simp add: bit_simps)
  then show ?thesis by (simp add: restore_common_def common_cfg_of_def migrated_def)
qed

lemma restore_queue_attr_of: "restore_queue_attr (queue_state_of env c i) vq = q_attrs (bar_curr c) ! i"
  by (cases "q_attrs (bar_curr c) ! i", cases vq)
    (auto simp: restore_queue_attr_def queue_state_of_def queue_state_of_attr_def Let_def split: option.split)

lemma restore_migrated:
  assumes "length (q_attrs (bar_curr c)) = max_queues c" and "length (q_attrs dst) = max_queues c"
  shows "restore_queue_attrs (max_queues c) (map (queue_state_of env c) [0..<max_queues c]) (restore_common (common_cfg_of (bar_curr c)) dst) =
     migrated (bar_curr c) dst"
proof -
  have "fold (\<lambda>i vqs. vqs[i := restore_queue_attr (map (queue_state_of env c) [0..<max_queues c] ! i) (vqs ! i)]) [0..<max_queues c] (q_attrs dst) =
      map (\<lambda>i. restore_queue_attr (map (queue_state_of env c) [0..<max_queues c] ! i) (q_attrs dst ! i)) [0..<max_queues c]"
    using fold_update_map [of "max_queues c" "q_attrs dst" "\<lambda>i. restore_queue_attr (map (queue_state_of env c) [0..<max_queues c] ! i)"] assms(2)
    by simp
  also have "\<dots> = map (\<lambda>i. q_attrs (bar_curr c) ! i) [0..<max_queues c]" by (simp add: restore_queue_attr_of)
  also have "\<dots> = q_attrs (bar_curr c)" using map_nth assms(1) by metis
  finally show ?thesis by (simp add: restore_queue_attrs_def restore_common_of) (simp add: migrated_def)
qed

lemma state_restore_v2_saved:
  assumes m: "m' = mem_put 4 (fields_bytes (state_fields env c bytes)) (set_field_count (of_nat (length (state_fields env c bytes))) m)"
    and src: "length (q_attrs (bar_curr c)) = max_queues c" "max_queues c \<le> 2 ^ 16" "se_get_state_size env = Some (length bytes)" "length bytes < 2 ^ 31"
    and len: "snap_virtio_ctrl_state_size_v2 env c \<le> len"
    and dst: "max_queues c2 = max_queues c" "snap_virtio_ctrl_is_stopped c2 \<or> snap_virtio_ctrl_is_suspended c2"
    and d: "d = (if snap_virtio_ctrl_is_suspended c2 then snd (snap_virtio_ctrl_stop (se_ctrl env2) c2) else c2)"
      "max_queues d = max_queues c" "length (q_attrs (bar_curr d)) = max_queues c"
    and set: "se_set_state env2 = Some f"
      "f (migrated (bar_curr c) (bar_curr d)) (map (queue_state_of env c) [0..<max_queues c]) (Some bytes) = (0, bar)"
  shows "snap_virtio_ctrl_state_restore_v2 env2 len m' c2 =
     (let e = d\<lparr>bar_curr := bar\<rparr>;
          (ret, e) = (if SNAP_VIRTIO_CTRL_LIVE_DETECTED e
                      then snap_virtio_ctrl_start (se_ctrl env2) (e\<lparr>ctrl_state := SNAP_VIRTIO_CTRL_SUSPENDED\<rparr>) else (0, e))
      in Some (ret, e\<lparr>bar_prev := snap_virtio_ctrl_bar_copy (se_ctrl env2) (bar_curr e) (bar_prev e)\<rparr>))"
proof -
  let ?fs = "state_fields env c bytes"
  have ok: "list_all fld_ok ?fs" "list_all fld_sized ?fs" using state_fields_ok [of bytes env c] src(4) by simp_all
  have h: "holds m' 4 (fields_bytes ?fs)" unfolding m by (rule holds_put)
  have l: "4 + length (fields_bytes ?fs) \<le> len" "length ?fs \<le> 2 * max_queues c + 2"
    using length_state_bytes [OF src(3), of c] len by simp_all
  have sum: "length (fields_bytes fs) = (\<Sum>f\<leftarrow>fs. length (snd f)) + 8 * length fs" for fs by (induction fs) simp_all
  have cnt: "unat (virtio_field_count m') = length ?fs"
    unfolding m field_count_put using l(2) src(2) by (simp add: unat_of_nat)
  have lp: "restore_loop m' len (length ?fs) 4 4 0 p = parse_fields 4 ?fs p" for p
    using l(1) sum [of ?fs] by (intro restore_loop_fields [OF h ok]) simp_all
  have sp: "?fs = (VIRTIO_DEV_PCI_COMMON_CFG, enc_pci_common_cfg (common_cfg_of (bar_curr c))) # tl ?fs" "?fs = butlast ?fs @ [(VIRTIO_DEV_CFG_SPACE, bytes)]"
    by (simp_all add: state_fields_def butlast_append)
  have hs: "holds m' 4 (fld_bytes (VIRTIO_DEV_PCI_COMMON_CFG, enc_pci_common_cfg (common_cfg_of (bar_curr c))))"
    "holds m' (4 + length (fields_bytes (butlast ?fs))) (fld_bytes (VIRTIO_DEV_CFG_SPACE, bytes))"
    using h sp holds_append fields_bytes_simps by metis+
  have cm: "dec_pci_common_cfg (mem_get (4 + 8) 32 m') = common_cfg_of (bar_curr c)"
    using holds_field(4) [OF hs(1)] by (simp add: common_cfg.length_enc common_cfg.dec_enc)
  have dv: "mem_get (4 + length (fields_bytes (butlast ?fs)) + 8) (length bytes) m' = bytes"
    using holds_field(4) [OF hs(2)] src(4) by simp
  have st: "\<not> len < 4" "\<not> (\<not> snap_virtio_ctrl_is_stopped c2 \<and> \<not> snap_virtio_ctrl_is_suspended c2)" using l(1) dst(2) by auto
  have pf: "parse_fields 4 ?fs \<lparr>ps_queue_state = replicate (max_queues c2) queue_state0, ps_common = None, ps_device = None\<rparr> =
     Some \<lparr>ps_queue_state = map (queue_state_of env c) [0..<max_queues c], ps_common = Some (4 + 8),
       ps_device = Some (4 + length (fields_bytes (butlast ?fs)) + 8, length bytes)\<rparr>"
    using parse_state_fields [OF src(2), of bytes 4 env] src(4) dst(1) by simp
  show ?thesis
    unfolding snap_virtio_ctrl_state_restore_v2_def set(1) virtio_state_fld_first_def cnt lp pf option.case prod.case parsed.simps d(1) [symmetric]
      cm dv d(2) restore_migrated [OF src(1) d(3)] if_not_P [OF st(1)] if_not_P [OF st(2)] Let_def
    by (simp add: set(2) split: prod.split)
qed

end
