(* ===== verification/Virtio_Ctrl_Sys.thy ===== *)
theory Virtio_Ctrl_Sys
  imports Virtio_State_Fields
begin

text \<open>
  The controller as a system: the states that sequences of calls into it reach, whatever the
  registers, the queues and the application answer in each of them, and the properties of these
  states. The calls are bounded by four conditions: the device is modern (not transitional); queues can be
  created and the start callback of the application succeeds whenever a call starts the controller; the
  driver does not become live again while the controller is suspended with queues; and the public
  \<^verbatim>\<open>start\<close>, \<^verbatim>\<open>stop\<close> and \<^verbatim>\<open>resume\<close> are called as their comments ask. What happens beyond these
  conditions is the subject of the counterexamples at the end.
\<close>

section \<open>Reachable controllers\<close>

definition ctrl_init :: "'q snap_virtio_ctrl \<Rightarrow> bool" where
  "ctrl_init c \<longleftrightarrow> ctrl_state c \<in> {SNAP_VIRTIO_CTRL_STOPPED, SNAP_VIRTIO_CTRL_SUSPENDED} \<and> lm_state c = SNAP_VIRTIO_CTRL_LM_INIT \<and>
     queues c = replicate (max_queues c) None \<and> heap c = (\<lambda>_. None) \<and> \<not> transitional_device c \<and> \<not> progress_locked c \<and>
     \<not> is_quiesce c \<and> quiesce_cmd c = None \<and> \<not> pending_resume c \<and> \<not> fault c \<and>
     (\<exists>n us. 0 < n \<and> n \<le> length us \<and> virtio_pg_usage (pg_glob c) = Some us \<and>
        pg_ctx c = \<lparr>pgs = replicate n \<lparr>pg_id = 0, q_list = [], pg_locked = False\<rparr>, npgs = n, lock_fault = False\<rparr>)"

inductive ctrl_reach :: "'q snap_virtio_ctrl \<Rightarrow> bool" where
  reach_open: "ctrl_init c \<Longrightarrow> ctrl_reach c"
| reach_progress: "ctrl_reach c \<Longrightarrow> progress_allowed env c \<Longrightarrow> snap_virtio_ctrl_progress env c = Some c' \<Longrightarrow> ctrl_reach c'"
| reach_io: "ctrl_reach c \<Longrightarrow> pg < npgs (pg_ctx c) \<Longrightarrow> ctrl_reach (snd (snap_virtio_ctrl_pg_thread_io_progress env pg th c))"
| reach_quiesce: "ctrl_reach c \<Longrightarrow> quiesce_cmd c = None \<Longrightarrow> qo_suspend (q_ops env) \<noteq> None \<Longrightarrow>
     ctrl_reach (snd (snap_virtio_ctrl_quiesce_adm env (c\<lparr>quiesce_cmd := Some cmd\<rparr>)))"
| reach_start: "ctrl_reach c \<Longrightarrow> starts env \<Longrightarrow> (ctrl_state c = SNAP_VIRTIO_CTRL_SUSPENDED \<longrightarrow> no_queues c) \<Longrightarrow>
     ctrl_reach (snd (snap_virtio_ctrl_start env c))"
| reach_stop: "ctrl_reach c \<Longrightarrow> snap_virtio_ctrl_is_stopped c \<or> snap_virtio_ctrl_is_suspended c \<Longrightarrow> ctrl_reach (snd (snap_virtio_ctrl_stop env c))"
| reach_suspend: "ctrl_reach c \<Longrightarrow> ctrl_reach (snd (snap_virtio_ctrl_suspend env c))"
| reach_resume: "ctrl_reach c \<Longrightarrow> snap_virtio_ctrl_is_stopped c \<or> snap_virtio_ctrl_is_suspended c \<Longrightarrow>
     lm_state c \<notin> {SNAP_VIRTIO_CTRL_LM_QUIESCED, SNAP_VIRTIO_CTRL_LM_FREEZED} \<Longrightarrow> ctrl_reach (snd (snap_virtio_ctrl_resume env c))"
| reach_unquiesce: "ctrl_reach c \<Longrightarrow> ctrl_reach (snd (snap_virtio_ctrl_unquiesce env c))"
| reach_freeze: "ctrl_reach c \<Longrightarrow> ctrl_reach (snd (snap_virtio_ctrl_freeze env c))"
| reach_unfreeze: "ctrl_reach c \<Longrightarrow> ctrl_reach (snd (snap_virtio_ctrl_unfreeze c))"
| reach_track: "ctrl_reach c \<Longrightarrow> ctrl_reach (snap_virtio_ctrl_start_dirty_pages_track c)"
| reach_untrack: "ctrl_reach c \<Longrightarrow> ctrl_reach (snap_virtio_ctrl_stop_dirty_pages_track c)"
| reach_restore: "ctrl_reach c \<Longrightarrow> starts (se_ctrl senv) \<Longrightarrow> snap_virtio_ctrl_state_restore_v2 senv len m c = Some (ret, c') \<Longrightarrow> ctrl_reach c'"
| reach_restore_v1: "ctrl_reach c \<Longrightarrow> starts (se_ctrl senv) \<Longrightarrow> ctrl_reach (snd (snap_virtio_ctrl_state_restore_v1 senv len m c))"
| reach_save: "ctrl_reach c \<Longrightarrow> ctrl_reach (fst (snd (snap_virtio_ctrl_state_save_v2 senv len c m)))"

lemma ctrl_init_inv:
  assumes "ctrl_init c"
  shows "ctrl_inv c"
proof -
  obtain n us where n: "0 < n" "n \<le> length us" "virtio_pg_usage (pg_glob c) = Some us"
    "pg_ctx c = \<lparr>pgs = replicate n \<lparr>pg_id = 0, q_list = [], pg_locked = False\<rparr>, npgs = n, lock_fault = False\<rparr>"
    using assms by (auto simp: ctrl_init_def)
  have "queues_wf c" using assms by (simp add: ctrl_init_def queues_wf_def)
  moreover have "pgs_wf c" using assms n by (simp add: ctrl_init_def pgs_wf_def)
  moreover have "locks_free (pg_ctx c)" using n by (simp add: locks_free_def list_all_iff)
  moreover have "no_queues c" using assms by (simp add: ctrl_init_def no_queues_def)
  then have "lm_ok c" using assms unfolding ctrl_init_def lm_ok_def by auto
  ultimately show ?thesis using assms by (simp add: ctrl_inv_def ctrl_ok_def ctrl_wf_def ctrl_init_def)
qed

lemma track_inv:
  assumes "ctrl_inv c" and "\<not> progress_locked c"
  shows "ctrl_inv (snap_virtio_ctrl_progress_unlock (snap_virtio_ctrl_log_writes b (snap_virtio_ctrl_progress_lock c))) \<and>
     \<not> progress_locked (snap_virtio_ctrl_progress_unlock (snap_virtio_ctrl_log_writes b (snap_virtio_ctrl_progress_lock c)))"
  using log_writes_inv [of "c\<lparr>progress_locked := True\<rparr>" b] assms by (simp add: lock_simps)

text \<open>A restore takes a stopped or suspended controller and empties it before it uses the buffer, so that
  no contents of the buffer can break the invariant.\<close>

lemma ctrl_inv_bars [simp]: "ctrl_inv (c\<lparr>bar_prev := b\<rparr>) = ctrl_inv c" "ctrl_inv (c\<lparr>bar_curr := b\<rparr>) = ctrl_inv c"
  by (simp_all add: ctrl_inv_def lm_ok_def no_queues_def)

lemma no_queues_fields [simp]: "no_queues (c\<lparr>ctrl_state := s\<rparr>) = no_queues c" "no_queues (c\<lparr>bar_curr := b\<rparr>) = no_queues c"
  by (simp_all add: no_queues_def)

lemma restore_begin:
  assumes "ctrl_inv c" and "snap_virtio_ctrl_is_stopped c \<or> snap_virtio_ctrl_is_suspended c" and "s \<in> {SNAP_VIRTIO_CTRL_STOPPED, SNAP_VIRTIO_CTRL_SUSPENDED}"
    and "d = (if snap_virtio_ctrl_is_suspended c then snd (snap_virtio_ctrl_stop env c) else c)"
  shows "ctrl_inv (d\<lparr>ctrl_state := s, bar_curr := b\<rparr>) \<and> ctrl_inv d \<and> no_queues d \<and> ctrl_state d \<in> {SNAP_VIRTIO_CTRL_STOPPED, SNAP_VIRTIO_CTRL_SUSPENDED} \<and>
     progress_locked d = progress_locked c \<and> max_queues d = max_queues c \<and> bar_curr d = bar_curr c"
proof -
  have st: "ctrl_state c \<in> {SNAP_VIRTIO_CTRL_STOPPED, SNAP_VIRTIO_CTRL_SUSPENDED}"
    using assms(2) by (auto simp: snap_virtio_ctrl_is_stopped_def snap_virtio_ctrl_is_suspended_def)
  have c: "ctrl_ok c" "ctrl_state c = SNAP_VIRTIO_CTRL_STOPPED \<longrightarrow> no_queues c" using assms(1) by (auto simp: ctrl_inv_def lm_ok_def)
  obtain c1 where c1: "life c1 = life c" "snap_virtio_ctrl_stop env c = (0, c1\<lparr>ctrl_state := SNAP_VIRTIO_CTRL_STOPPED\<rparr>) \<or>
      (\<exists>r. snap_virtio_ctrl_stop env c = (r, c1))" using stop_ok [OF c, of env] by blast
  have d: "ctrl_inv d \<and> no_queues d \<and> progress_locked d = progress_locked c"
  proof (cases "snap_virtio_ctrl_is_suspended c")
    case True
    then show ?thesis using stop_keeps_inv [OF assms(1) st, of env] assms(4) by simp
  next
    case False
    then show ?thesis using c(2) assms(1,2,4) by (simp add: snap_virtio_ctrl_is_stopped_def)
  qed
  have e: "ctrl_state d \<in> {SNAP_VIRTIO_CTRL_STOPPED, SNAP_VIRTIO_CTRL_SUSPENDED} \<and> max_queues d = max_queues c \<and> bar_curr d = bar_curr c"
  proof -
    have "d = c1 \<or> d = c1\<lparr>ctrl_state := SNAP_VIRTIO_CTRL_STOPPED\<rparr> \<or> d = c" using assms(4) c1(2) by auto
    then show ?thesis using st life_fields(1,4,5) [OF c1(1)] by (elim disjE) simp_all
  qed
  have "lm_ok (d\<lparr>ctrl_state := s, bar_curr := b\<rparr>)"
  proof -
    have "lm_ok d" "no_queues d" "\<not> is_quiesce d" using d e by (auto simp: ctrl_inv_def lm_ok_def)
    then show ?thesis using assms(3) by (auto simp: lm_ok_def no_queues_def)
  qed
  then show ?thesis using d e by (simp add: ctrl_inv_def)
qed

lemma restore_end:
  assumes "ctrl_inv e" and "no_queues e" and "starts env"
  shows "ctrl_inv (snd (snap_virtio_ctrl_start env e)) \<and> progress_locked (snd (snap_virtio_ctrl_start env e)) = progress_locked e"
  using start_inv [OF assms(1,3)] assms(2) by blast

lemma restore_v1_inv:
  assumes "ctrl_inv c" and "\<not> progress_locked c" and "starts (se_ctrl env)"
  shows "ctrl_inv (snd (snap_virtio_ctrl_state_restore_v1 env len m c)) \<and> \<not> progress_locked (snd (snap_virtio_ctrl_state_restore_v1 env len m c))"
proof (cases "snap_virtio_ctrl_is_stopped c \<or> snap_virtio_ctrl_is_suspended c")
  case True
  define d where "d = (if snap_virtio_ctrl_is_suspended c then snd (snap_virtio_ctrl_stop (se_ctrl env) c) else c)"
  define n where "n = cs_ctrl_state (dec_common_state (mem_get 36 36 m))"
  have b: "ctrl_inv (d\<lparr>ctrl_state := ctrl_state_of_num n, bar_curr := b\<rparr>)" "no_queues d" "\<not> progress_locked d" if "n \<in> {0, 2}" for b
    using restore_begin [OF assms(1) True _ d_def, of "ctrl_state_of_num n" b] that assms(2) by (auto simp: ctrl_state_of_num_def)
  have e: "ctrl_inv (snd (snap_virtio_ctrl_start (se_ctrl env) (d\<lparr>ctrl_state := ctrl_state_of_num n, bar_curr := b\<rparr>)))"
    "\<not> progress_locked (snd (snap_virtio_ctrl_start (se_ctrl env) (d\<lparr>ctrl_state := ctrl_state_of_num n, bar_curr := b\<rparr>)))" if "n \<in> {0, 2}" for b
    using restore_end [OF b(1) [OF that, of b] _ assms(3)] b(2,3) [OF that] by simp_all
  show ?thesis
  proof (cases "n \<in> {0, 2} \<and> \<not> len < unat (section_len m 0) \<and> se_set_state env \<noteq> None")
    case n: True
    then obtain f where f: "se_set_state env = Some f" by auto
    define qs where "qs = map (\<lambda>i. dec_queue_state (mem_get (72 + 18 + 36 * i) 36 m)) [0..<max_queues c]"
    define dev where "dev = (if unat (section_len m 18) + unat (section_len m 72) < len
      then Some (mem_get (72 + unat (section_len m 72) + 18) (unat (section_len m (72 + unat (section_len m 72)))) m) else None)"
    obtain ret bar where sb: "f (restore_queue_attrs (max_queues d) qs (restore_common (cs_cfg (dec_common_state (mem_get 36 36 m))) (bar_curr d))) qs dev = (ret, bar)"
      by (cases "f (restore_queue_attrs (max_queues d) qs (restore_common (cs_cfg (dec_common_state (mem_get 36 36 m))) (bar_curr d))) qs dev")
    let ?e = "d\<lparr>ctrl_state := ctrl_state_of_num n, bar_curr := bar\<rparr>"
    obtain ret2 e2 where st: "snap_virtio_ctrl_start (se_ctrl env) ?e = (ret2, e2)" by (cases "snap_virtio_ctrl_start (se_ctrl env) ?e")
    have "\<not> (\<not> snap_virtio_ctrl_is_stopped c \<and> \<not> snap_virtio_ctrl_is_suspended c)" "\<not> len < unat (section_len m 0)" "\<not> n \<notin> {0, 2}" using n True by auto
    then have "snap_virtio_ctrl_state_restore_v1 env len m c = (if ret \<noteq> 0 then (ret, ?e)
        else if n = 2 then (ret2, e2\<lparr>bar_prev := snap_virtio_ctrl_bar_copy (se_ctrl env) (bar_curr e2) (bar_prev e2)\<rparr>)
        else (0, ?e\<lparr>bar_prev := snap_virtio_ctrl_bar_copy (se_ctrl env) (bar_curr ?e) (bar_prev ?e)\<rparr>))"
      unfolding snap_virtio_ctrl_state_restore_v1_def f option.case Let_def d_def [symmetric] n_def [symmetric] qs_def [symmetric] dev_def [symmetric]
      by (simp only: if_False if_True) (use st in \<open>cases "n = 2"; simp add: sb\<close>)
    then show ?thesis using b(1,3) e [of bar] st n by simp
  qed (use assms(1,2) in \<open>auto simp: snap_virtio_ctrl_state_restore_v1_def n_def Let_def split: option.split\<close>)
qed (use assms in \<open>auto simp: snap_virtio_ctrl_state_restore_v1_def split: option.split\<close>)

lemma restore_v2_inv:
  assumes "ctrl_inv c" and "\<not> progress_locked c" and "starts (se_ctrl env)" and "snap_virtio_ctrl_state_restore_v2 env len m c = Some (ret, c')"
  shows "ctrl_inv c' \<and> \<not> progress_locked c'"
proof (cases "snap_virtio_ctrl_is_stopped c \<or> snap_virtio_ctrl_is_suspended c")
  case True
  define d where "d = (if snap_virtio_ctrl_is_suspended c then snd (snap_virtio_ctrl_stop (se_ctrl env) c) else c)"
  have b: "ctrl_inv (d\<lparr>ctrl_state := SNAP_VIRTIO_CTRL_SUSPENDED, bar_curr := b\<rparr>)" "no_queues d" "\<not> progress_locked d"
    and i: "ctrl_inv d" for b
    using restore_begin [OF assms(1) True _ d_def, of SNAP_VIRTIO_CTRL_SUSPENDED b] assms(2) by auto
  have o: "d\<lparr>bar_curr := b, ctrl_state := SNAP_VIRTIO_CTRL_SUSPENDED\<rparr> = d\<lparr>ctrl_state := SNAP_VIRTIO_CTRL_SUSPENDED, bar_curr := b\<rparr>" for b by simp
  have e: "ctrl_inv (snd (snap_virtio_ctrl_start (se_ctrl env) (d\<lparr>bar_curr := b, ctrl_state := SNAP_VIRTIO_CTRL_SUSPENDED\<rparr>)))"
    "\<not> progress_locked (snd (snap_virtio_ctrl_start (se_ctrl env) (d\<lparr>bar_curr := b, ctrl_state := SNAP_VIRTIO_CTRL_SUSPENDED\<rparr>)))" for b
    using restore_end [OF b(1) [of b] _ assms(3)] b(2,3) unfolding o by simp_all
  have t: "ctrl_inv c' \<and> \<not> progress_locked c'"
    if "(case sb of (ret, bar) \<Rightarrow> if ret \<noteq> 0 then Some (ret, d\<lparr>bar_curr := bar\<rparr>)
        else case (if SNAP_VIRTIO_CTRL_LIVE_DETECTED (d\<lparr>bar_curr := bar\<rparr>)
                   then snap_virtio_ctrl_start (se_ctrl env) (d\<lparr>bar_curr := bar, ctrl_state := SNAP_VIRTIO_CTRL_SUSPENDED\<rparr>) else (0, d\<lparr>bar_curr := bar\<rparr>))
             of (ret, c) \<Rightarrow> Some (ret, c\<lparr>bar_prev := snap_virtio_ctrl_bar_copy (se_ctrl env) (bar_curr c) (bar_prev c)\<rparr>)) = Some (ret, c')" for sb
    using that e [of "snd sb"] b(3) i by (auto split: prod.splits if_splits)
  let ?p = "restore_loop m len (unat (virtio_field_count m)) 4 virtio_state_fld_first 0
      \<lparr>ps_queue_state = replicate (max_queues c) queue_state0, ps_common = None, ps_device = None\<rparr>"
  show ?thesis
  proof (cases "len < 4 \<or> se_set_state env = None \<or> ?p = None \<or> ps_common (the ?p) = None \<or> ps_device (the ?p) = None")
    case False
    then obtain f p common dev dev_len where f: "se_set_state env = Some f" "?p = Some p" "ps_common p = Some common" "ps_device p = Some (dev, dev_len)"
      by auto
    have g: "\<not> len < 4" "\<not> (\<not> snap_virtio_ctrl_is_stopped c \<and> \<not> snap_virtio_ctrl_is_suspended c)" using False True by auto
    show ?thesis
      by (rule t, rule assms(4) [unfolded snap_virtio_ctrl_state_restore_v2_def if_not_P [OF g(1)] f(1) option.case if_not_P [OF g(2)] f(2-4) prod.case
            d_def [symmetric] Let_def])
  next
    case none: True
    then have "c' = c" using assms(4) True by (auto simp: snap_virtio_ctrl_state_restore_v2_def split: option.splits if_splits)
    then show ?thesis using assms(1,2) by simp
  qed
qed (use assms in \<open>auto simp: snap_virtio_ctrl_state_restore_v2_def split: option.splits if_splits\<close>)

text \<open>Saving only reads the controller.\<close>

lemma save_queues_v2_same:
  "queues_wf c \<Longrightarrow> set is \<subseteq> {..<max_queues c} \<Longrightarrow> fst (snd (save_queues_v2 env is fld n c m)) = c"
proof (induction "is" arbitrary: fld n m)
  case (Cons i "is")
  have "heap c a \<noteq> None" if "queues c ! i = Some a" for a using Cons.prems that by (fastforce simp: queues_wf_def)
  then show ?case using Cons by (auto simp: Let_def split: option.split prod.split)
qed simp

lemma state_save_v2_same:
  assumes "ctrl_inv c"
  shows "fst (snd (snap_virtio_ctrl_state_save_v2 env len c m)) = c"
proof -
  have w: "queues_wf (pgs_suspend c)" "locks_free (pg_ctx c)"
    using assms by (auto simp: ctrl_inv_def ctrl_ok_def ctrl_wf_def queues_wf_def pgs_suspend_def)
  have "fst (snd (snap_virtio_ctrl_save_all_queues_v2 env fld c m)) = c" for fld m
    using save_queues_v2_same [OF w(1), of "[0..<max_queues c]" env fld 0 m] pgs_resume_suspend [OF w(2)]
    by (simp add: snap_virtio_ctrl_save_all_queues_v2_def split_def lessThan_atLeast0 Let_def)
  then have "snap_virtio_ctrl_save_all_queues_v2 env fld c m = (r, c1, m1) \<Longrightarrow> c1 = c" for fld m r c1 m1 by (metis fst_conv snd_conv)
  then show ?thesis by (auto simp: snap_virtio_ctrl_state_save_v2_def Let_def split: prod.splits)
qed

lemma resume_inv:
  assumes "ctrl_inv c" and "snap_virtio_ctrl_is_stopped c \<or> snap_virtio_ctrl_is_suspended c"
    and "lm_state c \<notin> {SNAP_VIRTIO_CTRL_LM_QUIESCED, SNAP_VIRTIO_CTRL_LM_FREEZED}"
  shows "ctrl_inv (snd (snap_virtio_ctrl_resume env c)) \<and> progress_locked (snd (snap_virtio_ctrl_resume env c)) = progress_locked c"
proof -
  have st: "ctrl_state c \<in> {SNAP_VIRTIO_CTRL_STOPPED, SNAP_VIRTIO_CTRL_SUSPENDED}"
    using assms(2) by (auto simp: snap_virtio_ctrl_is_stopped_def snap_virtio_ctrl_is_suspended_def)
  have ok: "ctrl_ok c" "lm_ok c" using assms(1) by (auto simp: ctrl_inv_def)
  from resume_ok [OF ok(1) st, of env] obtain s where s: "ctrl_ok (snd (snap_virtio_ctrl_resume env c))"
    "queues (snd (snap_virtio_ctrl_resume env c)) = queues c" "s \<in> {ctrl_state c, SNAP_VIRTIO_CTRL_STARTED}"
    "lm_view (snd (snap_virtio_ctrl_resume env c)) = lm_view (c\<lparr>ctrl_state := s\<rparr>)" by blast
  have "lm_ok (c\<lparr>ctrl_state := s\<rparr>)" using ok(2) s(3) st assms(3) by (auto simp: lm_ok_def)
  then have "lm_ok (snd (snap_virtio_ctrl_resume env c))" using lm_ok_view [OF s(4)] s(2) by simp
  with s(1) lm_view_fields(8) [OF s(4)] show ?thesis by (simp add: ctrl_inv_def)
qed

lemma ctrl_reach_inv: "ctrl_reach c \<Longrightarrow> ctrl_inv c \<and> \<not> progress_locked c"
proof (induction rule: ctrl_reach.induct)
  case (reach_open c)
  then show ?case using ctrl_init_inv by (auto simp: ctrl_init_def)
next
  case (reach_progress c env c')
  then show ?case using progress_inv by blast
next
  case (reach_io c pg env th)
  from pg_io_progress_inv [OF _ reach_io.hyps(2), of env th] reach_io.IH show ?case using life_fields(2) by blast
next
  case (reach_quiesce c env cmd)
  then show ?case using quiesce_adm_inv by blast
next
  case (reach_start c env)
  then show ?case using start_inv by blast
next
  case (reach_stop c env)
  then show ?case using stop_keeps_inv [of c env] by (auto simp: snap_virtio_ctrl_is_stopped_def snap_virtio_ctrl_is_suspended_def)
next
  case (reach_suspend c env)
  then show ?case using suspend_inv by blast
next
  case (reach_resume c env)
  then show ?case using resume_inv by blast
next
  case (reach_unquiesce c env)
  then show ?case using unquiesce_inv by blast
next
  case (reach_freeze c env)
  then show ?case using freeze_inv by blast
next
  case (reach_unfreeze c)
  then show ?case using unfreeze_inv by blast
next
  case (reach_track c)
  then show ?case using track_inv [of c True] by (simp add: snap_virtio_ctrl_start_dirty_pages_track_def)
next
  case (reach_untrack c)
  then show ?case using track_inv [of c False] by (simp add: snap_virtio_ctrl_stop_dirty_pages_track_def)
next
  case (reach_restore c senv len m ret c')
  then show ?case using restore_v2_inv by blast
next
  case (reach_restore_v1 c senv len m)
  then show ?case using restore_v1_inv by blast
next
  case (reach_save c senv len m)
  then show ?case by (simp add: state_save_v2_same)
qed

section \<open>Properties\<close>

text \<open>C3. In every controller that is reached while queues can be created, the start callback succeeds,
  the device is modern and the driver does not become live again on a suspended controller, every address
  held by a polling group is that of a live queue of the controller, no group holds a queue twice, all locks
  are free between calls, and a stopped controller has released all of its queues; no call has used a
  destroyed queue or misused a lock on the way.\<close>

theorem ctrl_pointers_valid:
  assumes "ctrl_reach c"
  shows "\<not> fault c \<and> locks_free (pg_ctx c) \<and> \<not> progress_locked c \<and>
     (\<forall>pg < npgs (pg_ctx c). distinct (q_list (pgs (pg_ctx c) ! pg)) \<and>
        (\<forall>vq \<in> set (q_list (pgs (pg_ctx c) ! pg)). \<exists>i < max_queues c. queues c ! i = Some vq \<and> heap c vq \<noteq> None)) \<and>
     (ctrl_state c = SNAP_VIRTIO_CTRL_STOPPED \<longrightarrow> heap c = (\<lambda>_. None) \<and> (\<forall>pg < npgs (pg_ctx c). q_list (pgs (pg_ctx c) ! pg) = []))"
proof -
  have i: "ctrl_inv c" "\<not> progress_locked c" using ctrl_reach_inv [OF assms] by auto
  then have w: "queues_wf c" "pgs_wf c" "\<not> fault c" "locks_free (pg_ctx c)" "lm_ok c" by (auto simp: ctrl_inv_def ctrl_ok_def ctrl_wf_def)
  have l: "distinct (q_list (pgs (pg_ctx c) ! pg)) \<and>
        (\<forall>vq \<in> set (q_list (pgs (pg_ctx c) ! pg)). \<exists>i < max_queues c. queues c ! i = Some vq \<and> heap c vq \<noteq> None)"
    if "pg < npgs (pg_ctx c)" for pg
    using w(1,2) that unfolding queues_wf_def pgs_wf_def by (metis option.distinct(1))
  have s: "heap c = (\<lambda>_. None) \<and> (\<forall>pg < npgs (pg_ctx c). q_list (pgs (pg_ctx c) ! pg) = [])"
    if "ctrl_state c = SNAP_VIRTIO_CTRL_STOPPED"
  proof -
    have n: "no_queues c" using w(5) that by (simp add: lm_ok_def)
    have "heap c vq = None" for vq
      using w(1) n unfolding queues_wf_def no_queues_def by (metis option.distinct(1) not_Some_eq)
    moreover from this l have "q_list (pgs (pg_ctx c) ! pg) = []" if "pg < npgs (pg_ctx c)" for pg
      using that by (metis all_not_in_conv set_empty)
    ultimately show ?thesis by blast
  qed
  show ?thesis using w(3,4) i(2) l s by blast
qed

text \<open>C17. A controller that reports itself quiesced or frozen to the migration code is stopped or suspended, and a pending quiesce command belongs to a controller that is suspending for it.\<close>

theorem ctrl_migration_states:
  assumes "ctrl_reach c"
  shows "(lm_state c \<in> {SNAP_VIRTIO_CTRL_LM_QUIESCED, SNAP_VIRTIO_CTRL_LM_FREEZED} \<longrightarrow>
        ctrl_state c \<in> {SNAP_VIRTIO_CTRL_STOPPED, SNAP_VIRTIO_CTRL_SUSPENDED}) \<and>
     (quiesce_cmd c \<noteq> None \<longrightarrow> is_quiesce c \<and> ctrl_state c = SNAP_VIRTIO_CTRL_SUSPENDING)"
  using ctrl_reach_inv [OF assms] by (auto simp: ctrl_inv_def lm_ok_def)

text \<open>A progress call on a controller whose queues are not all suspended yet.\<close>

lemma progress_keeps_suspending:
  assumes "ctrl_inv c" and "\<not> progress_locked c" and "ctrl_state c = SNAP_VIRTIO_CTRL_SUSPENDING" and "\<not> queues_suspended env c"
    and "snap_virtio_ctrl_progress env c = Some c'"
  shows "ctrl_state c' = SNAP_VIRTIO_CTRL_SUSPENDING"
proof -
  let ?l = "c\<lparr>progress_locked := True\<rparr>"
  have lk: "snap_virtio_ctrl_progress_lock c = ?l" using assms(2) by (simp add: lock_simps)
  have ok: "ctrl_ok ?l" using assms(1) by (simp add: ctrl_inv_def)
  have nq: "\<not> queues_suspended env ?l" using assms(4) by (simp add: queues_suspended_def)
  obtain r1 c1 where b: "progress_begin env ?l = (r1, c1)" by (cases "progress_begin env ?l")
  have s1: "ctrl_state c1 = SNAP_VIRTIO_CTRL_SUSPENDING" "\<not> transitional_device c1"
    using b assms(1,3) nq progress_suspend_eq [OF ok, of env]
    by (auto simp: progress_begin_def snap_virtio_ctrl_bar_update_def snap_virtio_ctrl_bar_query_def Let_def ctrl_inv_def lm_ok_def split: prod.splits)
  have sus: "snap_virtio_ctrl_suspend env d = (0, d)" "snap_virtio_ctrl_start env d = (- EINVAL, d)"
    if "ctrl_state d = SNAP_VIRTIO_CTRL_SUSPENDING" for d :: "'a snap_virtio_ctrl"
    using that by (simp_all add: snap_virtio_ctrl_suspend_def snap_virtio_ctrl_start_def)
  obtain r2 again c2 where s: "snap_virtio_ctrl_change_status env c1 = (r2, again, c2)" by (cases "snap_virtio_ctrl_change_status env c1")
  have c2: "ctrl_state c2 = SNAP_VIRTIO_CTRL_SUSPENDING" "\<not> again"
    using s s1 by (auto simp: snap_virtio_ctrl_change_status_def handle_flr_def stop_for_flr_def handle_reset_def sus Let_def
        snap_virtio_ctrl_is_stopped_def snap_virtio_ctrl_is_suspended_def snap_virtio_ctrl_device_error_def split: if_splits)
  have u: "ctrl_state (snap_virtio_ctrl_progress_unlock d) = ctrl_state d" "ctrl_state (progress_end d) = ctrl_state d" for d :: "'a snap_virtio_ctrl"
    by (simp_all add: progress_end_def snap_virtio_ctrl_progress_unlock_def snap_virtio_ctrl_change_num_vfs_def)
  have "snap_virtio_ctrl_progress env c = Some (if pending_flr ?l then snap_virtio_ctrl_progress_unlock ?l
      else if r1 \<noteq> 0 then snap_virtio_ctrl_progress_unlock c1
      else if \<not> snap_virtio_ctrl_critical_bar_change_detected c1 then progress_end c1 else progress_end c2)"
    using c2(2) b s by (subst snap_virtio_ctrl_progress.simps) (simp add: lk Let_def)
  with assms(3,5) u s1(1) c2(1) show ?thesis by (auto split: if_splits)
qed

text \<open>C5. A suspending controller leaves this state in a progress call only when every one of its queues reports that it is suspended, whatever the registers show.\<close>

theorem ctrl_suspended_when_queues_are:
  assumes "ctrl_reach c" and "ctrl_state c = SNAP_VIRTIO_CTRL_SUSPENDING" and "snap_virtio_ctrl_progress env c = Some c'"
    and "ctrl_state c' \<noteq> SNAP_VIRTIO_CTRL_SUSPENDING" and "heap c vq = Some q"
  shows "qo_is_suspended (q_ops env) (cq_impl q)"
  using progress_keeps_suspending [OF _ _ assms(2) _ assms(3)] ctrl_reach_inv [OF assms(1)] assms(4,5)
  by (auto simp: queues_suspended_def)

text \<open>C6. Once all queues are suspended, the next suspend progress of a controller with a pending quiesce command reaches QUIESCED and completes exactly this command with status OK.\<close>

theorem ctrl_quiesce_completes:
  assumes "ctrl_reach c" and "quiesce_cmd c = Some cmd" and "\<forall>vq q. heap c vq = Some q \<longrightarrow> qo_is_suspended (q_ops env) (cq_impl q)"
  shows "lm_state (snap_virtio_ctrl_progress_suspend env c) = SNAP_VIRTIO_CTRL_LM_QUIESCED \<and>
     ctrl_state (snap_virtio_ctrl_progress_suspend env c) \<in> {SNAP_VIRTIO_CTRL_STOPPED, SNAP_VIRTIO_CTRL_SUSPENDED} \<and>
     adm_completed (snap_virtio_ctrl_progress_suspend env c) = adm_completed c @ [(cmd, SNAP_VIRTIO_ADMIN_STATUS_Q_OK)] \<and>
     quiesce_cmd (snap_virtio_ctrl_progress_suspend env c) = None"
proof -
  have ok: "ctrl_ok c" "lm_ok c" using ctrl_reach_inv [OF assms(1)] by (auto simp: ctrl_inv_def)
  have q: "queues_suspended env c" using assms(3) by (simp add: queues_suspended_def)
  let ?s = "c\<lparr>ctrl_state := SNAP_VIRTIO_CTRL_SUSPENDED\<rparr>"
  define c1 where "c1 = (if pending_reset ?s then (snd (snap_virtio_ctrl_reset env ?s))\<lparr>pending_reset := False\<rparr> else ?s)"
  have "\<exists>s \<in> {SNAP_VIRTIO_CTRL_STOPPED, SNAP_VIRTIO_CTRL_SUSPENDED}. lm_view c1 = lm_view (c\<lparr>ctrl_state := s\<rparr>)"
  proof (cases "pending_reset ?s")
    case True
    from reset_inv [of ?s env] ok(1) obtain s where "s \<in> {SNAP_VIRTIO_CTRL_STOPPED, SNAP_VIRTIO_CTRL_SUSPENDED}"
      "lm_view (snd (snap_virtio_ctrl_reset env ?s)) = lm_view (?s\<lparr>ctrl_state := s\<rparr>)" by auto
    then show ?thesis using True unfolding c1_def by (intro bexI [of _ s]) (auto simp: lm_view_def)
  qed (auto simp: c1_def)
  then obtain s where s: "s \<in> {SNAP_VIRTIO_CTRL_STOPPED, SNAP_VIRTIO_CTRL_SUSPENDED}" "lm_view c1 = lm_view (c\<lparr>ctrl_state := s\<rparr>)" by blast
  note v = lm_view_fields [OF s(2)]
  have i: "is_quiesce c1" "quiesce_cmd c1 = Some cmd" "\<not> pending_resume c1" using v ok(2) assms(2) by (auto simp: lm_ok_def)
  have e: "snap_virtio_ctrl_progress_suspend env c = snap_virtio_ctrl_quiesce_adm_done c1"
    using q i progress_suspend_eq [OF ok(1), of env] quiesce_adm_done_ok [OF i(2)] by (simp add: Let_def c1_def)
  show ?thesis unfolding e quiesce_adm_done_ok [OF i(2)] using v s(1) by simp
qed

subsection \<open>Starting\<close>

lemma desched_q_queues:
  "snap_virtio_ctrl_desched_q env vq (c\<lparr>queues := qs\<rparr>) = (snap_virtio_ctrl_desched_q env vq c)\<lparr>queues := qs\<rparr>"
proof -
  have m: "d\<lparr>queues := qs, pg_ctx := x\<rparr> = d\<lparr>pg_ctx := x, queues := qs\<rparr>" "d\<lparr>queues := qs, pg_glob := g\<rparr> = d\<lparr>pg_glob := g, queues := qs\<rparr>"
    "d\<lparr>queues := qs, fault := b\<rparr> = d\<lparr>fault := b, queues := qs\<rparr>" for d :: "'a snap_virtio_ctrl" and x g b by simp_all
  show ?thesis
    by (simp add: snap_virtio_ctrl_desched_q_def with_q_def desched_nolock_queues m Let_def split: option.split)
qed

lemma destroy_queues:
  "snap_virtio_ctrl_queue_destroy env vq (c\<lparr>queues := qs\<rparr>) = (snap_virtio_ctrl_queue_destroy env vq c)\<lparr>queues := qs\<rparr>"
  by (simp add: snap_virtio_ctrl_queue_destroy_def with_q_def desched_q_queues split: option.split)

text \<open>The clean-up of a failed start does what stopping does, but leaves the addresses in the array.\<close>

lemma cleanup_stops:
  assumes "distinct js" and "\<forall>j \<in> set js. qs ! j = queues c ! j"
  shows "fold (\<lambda>j c. case queues c ! j of None \<Rightarrow> c | Some vq \<Rightarrow> snap_virtio_ctrl_queue_destroy env vq c) js (c\<lparr>queues := qs\<rparr>) =
     (fold (stop_queue env) js c)\<lparr>queues := qs\<rparr>"
  using assms
proof (induction js arbitrary: c)
  case (Cons j js)
  have q: "queues (snap_virtio_ctrl_queue_destroy env vq c) = queues c" for vq
    using arg_cong [where f = queues, OF destroy_queues [where env = env and vq = vq and c = c and qs = "queues c"]] by simp
  show ?case
  proof (cases "queues c ! j")
    case None
    with Cons show ?thesis by (simp add: stop_queue_def)
  next
    case (Some vq)
    let ?c = "stop_queue env j c"
    have e: "?c\<lparr>queues := qs\<rparr> = (snap_virtio_ctrl_queue_destroy env vq c)\<lparr>queues := qs\<rparr>" using Some by (simp add: stop_queue_def)
    have "\<forall>k \<in> set js. qs ! k = queues ?c ! k"
      using Cons.prems Some by (auto simp: stop_queue_def q) (metis nth_list_update_neq)
    from Cons.IH [OF _ this] Cons.prems Some show ?thesis by (simp add: destroy_queues flip: e)
  qed
qed simp

lemma create_queues_split:
  assumes "ctrl_ok c" and "distinct is" and "\<forall>i \<in> set is. i < max_queues c \<and> queues c ! i = None"
    and "create_queues env is c = (failed, c')"
  shows "ctrl_ok c' \<and> life c' = life c \<and> (case failed of
       None \<Rightarrow> \<forall>i < max_queues c. queues c' ! i = None \<longleftrightarrow> (if i \<in> set is then \<not> vq_enabled c i else queues c ! i = None)
     | Some i \<Rightarrow> vq_enabled c i \<and> qo_create (q_ops env) (ctrl_state c) (bar_curr c) i = None \<and>
         (\<exists>pre post. is = pre @ i # post \<and> (\<forall>j < max_queues c. j \<notin> set pre \<longrightarrow> queues c' ! j = queues c ! j)))"
  using assms
proof (induction "is" arbitrary: c)
  case (Cons i "is")
  have len: "length (queues c) = max_queues c" using Cons.prems(1) by (simp add: ctrl_ok_def ctrl_wf_def queues_wf_def)
  consider "\<not> vq_enabled c i" | "vq_enabled c i" "qo_create (q_ops env) (ctrl_state c) (bar_curr c) i = None"
    | vq c1 where "vq_enabled c i" "snap_virtio_ctrl_queue_create env i c = (Some vq, c1)"
    by (cases "qo_create (q_ops env) (ctrl_state c) (bar_curr c) i") (auto simp: snap_virtio_ctrl_queue_create_def Let_def)
  then show ?case
  proof cases
    case 1
    have "create_queues env is c = (failed, c')" using Cons.prems(4) 1 by simp
    note ih = Cons.IH [OF Cons.prems(1) _ _ this]
    show ?thesis
    proof (cases failed)
      case None
      with ih Cons.prems(2,3) 1 show ?thesis by auto
    next
      case (Some k)
      with ih Cons.prems(2,3) obtain pre post where p: "is = pre @ k # post"
        "\<forall>j < max_queues c. j \<notin> set pre \<longrightarrow> queues c' ! j = queues c ! j" by auto
      have "\<exists>pre post. i # is = pre @ k # post \<and> (\<forall>j < max_queues c. j \<notin> set pre \<longrightarrow> queues c' ! j = queues c ! j)"
        by (rule exI [of _ "i # pre"], rule exI [of _ post]) (use p in simp)
      with Some ih Cons.prems(2,3) show ?thesis by simp
    qed
  next
    case 2
    then have "failed = Some i" "c' = c\<lparr>queues := (queues c)[i := None]\<rparr>"
      using Cons.prems(4) by (auto simp: snap_virtio_ctrl_queue_create_def)
    moreover have "(queues c)[i := None] = queues c" using Cons.prems(3) by (metis list.set_intros(1) list_update_id)
    ultimately show ?thesis using Cons.prems(1) 2 by (auto intro: exI [of _ "[]"])
  next
    case (3 vq c1)
    let ?c = "c1\<lparr>queues := (queues c1)[i := Some vq]\<rparr>"
    from queue_create_ok [OF _ _ _ _ 3(2)] Cons.prems have q: "ctrl_wf ?c" "life c1 = life c" "flags c1 = flags c" "queues c1 = queues c"
      by (auto simp: ctrl_ok_def)
    have l: "max_queues ?c = max_queues c" "ctrl_state ?c = ctrl_state c" "bar_curr ?c = bar_curr c" "vq_enabled ?c = vq_enabled c"
      using life_fields [OF q(2)] by (simp_all add: vq_enabled_def fun_eq_iff)
    have ok: "ctrl_ok ?c" using q Cons.prems(1) flags_locks_free [of c1 c] by (simp add: ctrl_ok_def)
    have r: "create_queues env is ?c = (failed, c')" using Cons.prems(4) 3 by simp
    have u: "queues ?c ! j = (if j = i then Some vq else queues c ! j)" if "j < max_queues c" for j
      using that len q(4) Cons.prems(3) by (simp add: nth_list_update)
    have n: "\<forall>j \<in> set is. j < max_queues ?c \<and> queues ?c ! j = None" using Cons.prems(2,3) u l(1) by (metis distinct.simps(2) list.set_intros(2))
    note ih = Cons.IH [OF ok _ n r, unfolded l]
    show ?thesis
    proof (cases failed)
      case None
      with ih Cons.prems(2) q(2,4) u 3(1) show ?thesis by auto
    next
      case (Some k)
      with ih Cons.prems(2) obtain pre post where p: "is = pre @ k # post"
        "\<forall>j < max_queues c. j \<notin> set pre \<longrightarrow> queues c' ! j = queues ?c ! j" by auto
      have "\<exists>pre post. i # is = pre @ k # post \<and> (\<forall>j < max_queues c. j \<notin> set pre \<longrightarrow> queues c' ! j = queues c ! j)"
        by (rule exI [of _ "i # pre"], rule exI [of _ post]) (use p u in simp)
      with Some ih Cons.prems(2) q(2) show ?thesis by simp
    qed
  qed
qed simp

lemma stop_all_empties:
  assumes "ctrl_ok c" and "\<forall>j < max_queues c. j \<notin> set js \<longrightarrow> queues c ! j = None" and "\<forall>j \<in> set js. j < max_queues c"
  shows "heap (fold (stop_queue env) js c) = (\<lambda>_. None) \<and> life (fold (stop_queue env) js c) = life c"
proof -
  let ?d = "fold (stop_queue env) js c"
  note s = stop_queues_ok [OF assms(1,3), of env]
  have "no_queues ?d" using s assms(2) life_fields(4) [of ?d c] by (simp add: no_queues_def)
  then have "heap ?d vq = None" for vq
    using s unfolding no_queues_def ctrl_ok_def ctrl_wf_def queues_wf_def by (metis option.distinct(1) not_Some_eq)
  with s show ?thesis by blast
qed

lemma device_error_fields:
  "max_queues (snd (snap_virtio_ctrl_device_error env c)) = max_queues c" "ctrl_state (snd (snap_virtio_ctrl_device_error env c)) = ctrl_state c"
  by (simp_all add: snap_virtio_ctrl_device_error_def Let_def)

lemma cleanup_empties:
  assumes "ctrl_ok c" and "i \<le> max_queues c" and "\<forall>j < max_queues c. i \<le> j \<longrightarrow> queues c ! j = None"
  shows "heap (vq_cleanup env i c) = (\<lambda>_. None) \<and> ctrl_state (vq_cleanup env i c) = ctrl_state c"
proof -
  have "vq_cleanup env i c = (fold (stop_queue env) [0..<i] c)\<lparr>queues := queues c\<rparr>"
    using cleanup_stops [of "[0..<i]" "queues c" c env] by (simp add: vq_cleanup_def)
  moreover have "heap (fold (stop_queue env) [0..<i] c) = (\<lambda>_. None) \<and> life (fold (stop_queue env) [0..<i] c) = life c"
    using assms by (intro stop_all_empties) auto
  ultimately show ?thesis using life_fields(1) by auto
qed

text \<open>A creation that fails leaves no queue from its index on.\<close>

lemma create_queues_prefix:
  assumes "ctrl_ok c" and "no_queues c" and "create_queues env [0..<max_queues c] c = (Some i, c1)"
  shows "i < max_queues c" and "\<forall>j < max_queues c. i \<le> j \<longrightarrow> queues c1 ! j = None"
proof -
  have n: "\<forall>i \<in> set [0..<max_queues c]. i < max_queues c \<and> queues c ! i = None" using assms(2) by (simp add: no_queues_def)
  from create_queues_split [OF assms(1) _ n assms(3)] obtain pre post where p: "[0..<max_queues c] = pre @ i # post"
    "\<forall>j < max_queues c. j \<notin> set pre \<longrightarrow> queues c1 ! j = queues c ! j" by auto
  have l: "length pre < max_queues c" using arg_cong [OF p(1), of length] by simp
  have i: "i = length pre" using arg_cong [OF p(1), of "\<lambda>xs. xs ! length pre"] l by (simp add: nth_append)
  have "pre = [0..<length pre]" using arg_cong [OF p(1), of "take (length pre)"] l by (simp add: take_upt)
  then have "set pre = {0..<length pre}" by (metis set_upt)
  then show "i < max_queues c" and "\<forall>j < max_queues c. i \<le> j \<longrightarrow> queues c1 ! j = None" using l i p(2) n by auto
qed

text \<open>C18. Starting a stopped controller that is reached as \<open>ctrl_reach\<close> says either succeeds and creates exactly the queues
  that the driver enabled, or fails and leaves the controller stopped with every queue that it had created
  destroyed again: with \<^verbatim>\<open>-ENOMEM\<close> when an enabled queue cannot be created, otherwise with the error of the
  start callback.\<close>

theorem ctrl_start_creates_enabled:
  assumes "ctrl_reach c" and "ctrl_state c = SNAP_VIRTIO_CTRL_STOPPED" and "snap_virtio_ctrl_start env c = (ret, c')"
  shows "ret = 0 \<and> ctrl_state c' = SNAP_VIRTIO_CTRL_STARTED \<and>
       (\<forall>i < max_queues c. queues c' ! i \<noteq> None \<longleftrightarrow> va_enable (q_attrs (bar_curr c) ! i) \<noteq> 0) \<or>
     ret \<noteq> 0 \<and> ctrl_state c' = SNAP_VIRTIO_CTRL_STOPPED \<and> heap c' = (\<lambda>_. None) \<and>
       (ret = - ENOMEM \<and> (\<exists>i < max_queues c. va_enable (q_attrs (bar_curr c) ! i) \<noteq> 0 \<and>
          qo_create (q_ops env) SNAP_VIRTIO_CTRL_STOPPED (bar_curr c) i = None) \<or> cb_start env = Some ret)"
proof -
  have inv: "ctrl_ok c" "no_queues c" "\<not> transitional_device c"
    using ctrl_reach_inv [OF assms(1)] assms(2) by (auto simp: ctrl_inv_def lm_ok_def)
  obtain failed c1 where cr: "create_queues env [0..<max_queues c] c = (failed, c1)" by (cases "create_queues env [0..<max_queues c] c")
  have n: "\<forall>i \<in> set [0..<max_queues c]. i < max_queues c \<and> queues c ! i = None" using inv(2) by (simp add: no_queues_def)
  note sp = create_queues_split [OF inv(1) _ n cr]
  have c1: "ctrl_ok c1" "ctrl_state c1 = SNAP_VIRTIO_CTRL_STOPPED" "max_queues c1 = max_queues c"
    using sp assms(2) life_fields(1,4) [of c1 c] by auto
  show ?thesis
  proof (cases failed)
    case (Some i)
    with create_queues_prefix [OF inv(1,2)] cr c1(3)
    have i: "i < max_queues c" "\<forall>j < max_queues c1. i \<le> j \<longrightarrow> queues c1 ! j = None" by auto
    have "c' = vq_cleanup env i c1" "ret = - ENOMEM"
      using assms(2,3) cr Some cleanup_empties [OF c1(1) _ i(2), of env] i(1) c1
      by (auto simp: snap_virtio_ctrl_start_def Let_def split: if_splits)
    then show ?thesis
      using cleanup_empties [OF c1(1) _ i(2), of env] i(1) c1 sp Some inv(3) assms(2) by (auto simp: vq_enabled_def Let_def)
  next
    case None
    let ?r = "case cb_start env of None \<Rightarrow> 0 | Some r \<Rightarrow> r"
    let ?e = "snd (snap_virtio_ctrl_device_error env c1)"
    show ?thesis
    proof (cases "?r = 0")
      case True
      with None cr c1 assms(2,3) have "ret = 0" "c' = c1\<lparr>ctrl_state := SNAP_VIRTIO_CTRL_STARTED, lm_state := SNAP_VIRTIO_CTRL_LM_RUNNING\<rparr>"
        by (simp_all add: snap_virtio_ctrl_start_def Let_def)
      then show ?thesis using sp None inv(3) by (auto simp: vq_enabled_def Let_def)
    next
      case False
      have h: "heap (vq_cleanup env (max_queues c1) ?e) = (\<lambda>_. None) \<and> ctrl_state (vq_cleanup env (max_queues c1) ?e) = ctrl_state c1"
        using cleanup_empties [of ?e "max_queues c1" env] c1(1) device_error_ok(1) [of env c1]
        by (simp add: device_error_fields)
      with False None cr c1 assms(2,3) have "ret = ?r" "c' = vq_cleanup env (max_queues c1) ?e"
        by (auto simp: snap_virtio_ctrl_start_def Let_def)
      then show ?thesis using h False c1(2) by (auto split: option.splits)
    qed
  qed
qed

text \<open>The recursion of \<^verbatim>\<open>change_status\<close> is left to transitional devices, whatever the queues and the application do.\<close>

lemma change_status_once:
  assumes "ctrl_inv c"
  shows "\<not> fst (snd (snap_virtio_ctrl_change_status env c))"
proof -
  have t: "\<not> transitional_device d" if "d = snd (handle_reset env c) \<or> d = c" for d
    using that assms handle_reset_inv [OF assms, of env] by (auto simp: ctrl_inv_def lm_ok_def)
  obtain r1 c1 where x: "(if \<not> ignore_reset c \<and> SNAP_VIRTIO_CTRL_RESET_DETECTED c then handle_reset env c else (0, c)) = (r1, c1)"
    by (cases "if \<not> ignore_reset c \<and> SNAP_VIRTIO_CTRL_RESET_DETECTED c then handle_reset env c else (0, c)")
  then have "\<not> transitional_device c1" by (intro t) (auto split: if_splits)
  then show ?thesis unfolding snap_virtio_ctrl_change_status_def x Let_def by (auto split: prod.splits)
qed

text \<open>C19. A progress call on a controller that is reached as \<open>ctrl_reach\<close> says returns, whatever the registers, the queues and
  the application answer in it. When in this call, too, a start succeeds and the driver does not become live on
  a suspended controller, all locks are free afterwards and no destroyed queue was used.\<close>

theorem ctrl_progress_returns:
  assumes "ctrl_reach c"
  shows "\<exists>c'. snap_virtio_ctrl_progress env c = Some c' \<and>
    (progress_allowed env c \<longrightarrow> \<not> progress_locked c' \<and> locks_free (pg_ctx c') \<and> \<not> fault c')"
proof -
  have i: "ctrl_inv c" "\<not> progress_locked c" using ctrl_reach_inv [OF assms(1)] by auto
  let ?l = "c\<lparr>progress_locked := True\<rparr>"
  have l: "snap_virtio_ctrl_progress_lock c = ?l" "ctrl_inv ?l" using i by (simp_all add: snap_virtio_ctrl_progress_lock_def)
  obtain r1 c1 where b: "progress_begin env ?l = (r1, c1)" by (cases "progress_begin env ?l")
  from progress_begin_inv [OF l(2), of env] b have "ctrl_inv c1" by auto
  from change_status_once [OF this, of env] obtain r2 c2 where "snap_virtio_ctrl_change_status env c1 = (r2, False, c2)"
    by (cases "snap_virtio_ctrl_change_status env c1") auto
  with b obtain c' where c': "snap_virtio_ctrl_progress env c = Some c'"
  proof -
    have "snap_virtio_ctrl_progress env c \<noteq> None"
      using b \<open>snap_virtio_ctrl_change_status env c1 = _\<close> by (subst snap_virtio_ctrl_progress.simps) (simp add: l(1) Let_def)
    then show ?thesis using that by auto
  qed
  with progress_inv [OF i _ c'] show ?thesis by (auto simp: ctrl_inv_def ctrl_ok_def ctrl_wf_def)
qed

section \<open>A concrete controller\<close>

text \<open>Two enabled queues whose state is whether they are suspended.\<close>

definition attr0 :: snap_virtio_device_attr where
  "attr0 = \<lparr>device_feature = 0, driver_feature = 0, msix_config = 0, attr_max_queues = 2, attr_max_queue_size = 64, num_msix = 3, pci_bdf = 1, status = 0,
     enabled = True, reset = False, num_of_vfs = 0, config_generation = 0, device_feature_select = 0,
     driver_feature_select = 0, queue_select = 0, pci_hotplug_state = 0,
     q_attrs = replicate 2 \<lparr>va_size = 64, va_msix_vector = 0, va_enable = 1, va_notify_off = 0, va_desc = 0x1000,
       va_driver = 0x2000, va_device = 0x3000\<rparr>,
     blk_attr = \<lparr>ba_capacity = 2048, ba_size_max = 4096, ba_seg_max = 62, ba_blk_size = 512, ba_max_blk_queues = 2, ba_hw_index = [(0, 0), (0, 0)]\<rparr>\<rparr>"

definition ctrl0 :: "bool snap_virtio_ctrl" where
  "ctrl0 = \<lparr>ctrl_state = SNAP_VIRTIO_CTRL_STOPPED, progress_locked = False, transitional_device = False, max_queues = 2,
     queues = [None, None], heap = (\<lambda>_. None), heap_next = 0, bar_curr = attr0, bar_prev = attr0, bar_queries = 0,
     pg_ctx = \<lparr>pgs = replicate 2 \<lparr>pg_id = 0, q_list = [], pg_locked = False\<rparr>, npgs = 2, lock_fault = False\<rparr>,
     pg_glob = \<lparr>virtio_pg_usage = Some [0, 0], virtio_pg_ref_count = 1\<rparr>, log_writes_to_host = False,
     pending_reset = False, ignore_reset = False, pending_flr = False, lm_state = SNAP_VIRTIO_CTRL_LM_INIT,
     is_quiesce = False, quiesce_cmd = None, adm_completed = [], pending_resume = False, vfs_changed = [], fault = False\<rparr>"

definition queue_ops0 :: "bool snap_virtio_queue_ops" where
  "queue_ops0 = \<lparr>qo_create = (\<lambda>_ _ _. Some False), qo_progress = (\<lambda>_ q. (1, q)), qo_start = None, qo_suspend = Some (\<lambda>_. True),
     qo_is_suspended = (\<lambda>q. q), qo_resume = Some (\<lambda>_ _ _. (0, False)), qo_get_state = None, qo_is_admin = None\<rparr>"

text \<open>The registers with the given change in every query.\<close>

definition env_bar :: "(snap_virtio_device_attr \<Rightarrow> snap_virtio_device_attr) \<Rightarrow> bool ctrl_env" where
  "env_bar f = \<lparr>q_ops = queue_ops0, bo_copy = (\<lambda>orig _. orig), bo_update = (\<lambda>_ bar. (0, f bar)), bo_modify = (\<lambda>_ _. 0),
     bo_get_attr = None, cb_validate = None, cb_start = None, cb_stop = None, cb_pre_flr = None, snap_open_device = (\<lambda>_. True)\<rparr>"

abbreviation (input) live_env :: "bool ctrl_env" where
  "live_env \<equiv> env_bar (\<lambda>bar. bar\<lparr>status := 15\<rparr>)"

text \<open>The controller after the driver has come up, after a quiesce command, and after the queues have
  stopped.\<close>

definition ctrl_up :: "snap_virtio_ctrl_state \<Rightarrow> bool \<Rightarrow> bool snap_virtio_ctrl" where
  "ctrl_up st impl = ctrl0\<lparr>ctrl_state := st, lm_state := SNAP_VIRTIO_CTRL_LM_RUNNING, queues := [Some 0, Some 1], heap_next := 2,
     heap := [0 \<mapsto> \<lparr>cq_index = 0, cq_pg = Some 0, cq_log_writes_to_host = False, cq_thread_id = 0, cq_impl = impl\<rparr>,
              1 \<mapsto> \<lparr>cq_index = 1, cq_pg = Some 1, cq_log_writes_to_host = False, cq_thread_id = 0, cq_impl = impl\<rparr>],
     bar_curr := attr0\<lparr>status := 15\<rparr>, bar_queries := 1,
     pg_ctx := \<lparr>pgs = [\<lparr>pg_id = 0, q_list = [0], pg_locked = False\<rparr>, \<lparr>pg_id = 1, q_list = [1], pg_locked = False\<rparr>],
       npgs = 2, lock_fault = False\<rparr>,
     pg_glob := \<lparr>virtio_pg_usage = Some [1, 1], virtio_pg_ref_count = 1\<rparr>\<rparr>"

definition ctrl1 :: "bool snap_virtio_ctrl" where
  "ctrl1 = ctrl_up SNAP_VIRTIO_CTRL_STARTED False"

definition ctrl2 :: "bool snap_virtio_ctrl" where
  "ctrl2 = (ctrl_up SNAP_VIRTIO_CTRL_SUSPENDING True)\<lparr>is_quiesce := True, quiesce_cmd := Some 7\<rparr>"

definition ctrl3 :: "bool snap_virtio_ctrl" where
  "ctrl3 = (ctrl_up SNAP_VIRTIO_CTRL_SUSPENDED True)\<lparr>lm_state := SNAP_VIRTIO_CTRL_LM_QUIESCED,
     adm_completed := [(7, SNAP_VIRTIO_ADMIN_STATUS_Q_OK)], bar_prev := attr0\<lparr>status := 15\<rparr>, bar_queries := 2\<rparr>"

lemma starts_env_bar: "starts (env_bar f)"
  by (simp add: starts_def env_bar_def queue_ops0_def)

lemma ctrl0_reach: "ctrl_reach ctrl0"
proof (rule reach_open)
  have "\<exists>n us. 0 < n \<and> n \<le> length us \<and> virtio_pg_usage (pg_glob ctrl0) = Some us \<and>
      pg_ctx ctrl0 = \<lparr>pgs = replicate n \<lparr>pg_id = 0, q_list = [], pg_locked = False\<rparr>, npgs = n, lock_fault = False\<rparr>"
    by (rule exI [of _ 2], rule exI [of _ "[0, 0]"]) (simp add: ctrl0_def)
  then show "ctrl_init ctrl0" by (simp add: ctrl_init_def) (simp add: ctrl0_def numeral_2_eq_2)
qed

text \<open>Every field of a controller with at most two queue objects. Evaluating it decides the equality of
  two such controllers.\<close>

definition ctrl_view :: "bool snap_virtio_ctrl \<Rightarrow> _" where
  "ctrl_view c = (ctrl_state c, progress_locked c, transitional_device c, max_queues c, queues c, heap_next c, bar_curr c, bar_prev c,
     bar_queries c, pg_ctx c, pg_glob c, log_writes_to_host c, pending_reset c, ignore_reset c, pending_flr c, lm_state c, is_quiesce c,
     quiesce_cmd c, adm_completed c, pending_resume c, vfs_changed c, fault c, map (heap c) [0, 1])"

lemma ctrl_view_eq:
  assumes "ctrl_view c = ctrl_view d" and "queues_wf c" and "queues_wf d" and "heap_next d \<le> 2"
  shows "c = d"
proof -
  have "heap_next c = heap_next d" using assms(1) by (simp add: ctrl_view_def)
  then have n: "heap c vq = None" "heap d vq = None" if "2 \<le> vq" for vq
    using assms(2,3,4) that by (force simp: queues_wf_def)+
  have "heap c vq = heap d vq" for vq
  proof (cases "vq = 0 \<or> vq = 1")
    case True
    then show ?thesis using assms(1) by (auto simp: ctrl_view_def)
  next
    case False
    then show ?thesis using n [of vq] by simp
  qed
  then have "heap c = heap d" by (rule ext)
  then show ?thesis using assms(1) unfolding ctrl_view_def by (intro snap_virtio_ctrl.equality) simp_all
qed

definition begin_ok :: "bool snap_virtio_ctrl \<Rightarrow> bool" where
  "begin_ok c = (snap_virtio_ctrl_critical_bar_change_detected c \<longrightarrow> no_restart c)"

lemma begin_allowed: "begin_ok (snd (progress_begin live_env (c\<lparr>progress_locked := True\<rparr>))) \<Longrightarrow> progress_allowed live_env c"
  using starts_env_bar by (simp add: progress_allowed_def begin_ok_def Let_def)

lemma ctrl_up_wf:
  "queues_wf (ctrl_up st impl)" "heap_next (ctrl_up st impl) = 2" "queues (ctrl_up st impl) = [Some 0, Some 1]" "max_queues (ctrl_up st impl) = 2"
  by (auto simp: queues_wf_def ctrl_up_def ctrl0_def less_2_cases_iff)

lemma ctrl123_wf: "queues_wf ctrl1" "queues_wf ctrl2" "queues_wf ctrl3" "heap_next ctrl1 = 2" "heap_next ctrl2 = 2" "heap_next ctrl3 = 2"
  using ctrl_up_wf by (simp_all add: ctrl1_def ctrl2_def ctrl3_def queues_wf_def)

lemma reach_view:
  assumes "ctrl_reach c" and "progress_allowed env c" and "map_option ctrl_view (snap_virtio_ctrl_progress env c) = Some (ctrl_view d)"
    and "queues_wf d" and "heap_next d = 2"
  shows "snap_virtio_ctrl_progress env c = Some d"
proof -
  obtain c' where c': "snap_virtio_ctrl_progress env c = Some c'" "ctrl_view c' = ctrl_view d" using assms(3) by auto
  have "queues_wf c'" using ctrl_reach_inv [OF reach_progress [OF assms(1,2) c'(1)]] by (simp add: ctrl_inv_def ctrl_ok_def ctrl_wf_def)
  with ctrl_view_eq [OF c'(2)] assms(4,5) c'(1) show ?thesis by simp
qed

lemma ctrl0_allowed: "progress_allowed live_env ctrl0"
  by (rule begin_allowed) code_simp

lemma ctrl1_eq: "snap_virtio_ctrl_progress live_env ctrl0 = Some ctrl1"
  by (rule reach_view [OF ctrl0_reach ctrl0_allowed _ ctrl123_wf(1,4)]) code_simp

lemma ctrl1_reach: "ctrl_reach ctrl1"
  by (rule reach_progress [OF ctrl0_reach ctrl0_allowed ctrl1_eq])

lemma ctrl2_reach: "ctrl_reach ctrl2"
proof -
  let ?c = "snd (snap_virtio_ctrl_quiesce_adm live_env (ctrl1\<lparr>quiesce_cmd := Some 7\<rparr>))"
  have r: "ctrl_reach ?c"
    by (rule reach_quiesce [OF ctrl1_reach]) (simp_all add: ctrl1_def ctrl_up_def ctrl0_def env_bar_def queue_ops0_def)
  then have "queues_wf ?c" using ctrl_reach_inv by (auto simp: ctrl_inv_def ctrl_ok_def ctrl_wf_def)
  moreover have "ctrl_view ?c = ctrl_view ctrl2" by code_simp
  ultimately have "?c = ctrl2" using ctrl_view_eq ctrl123_wf(2,5) by simp
  with r show ?thesis by simp
qed

lemma ctrl2_allowed: "progress_allowed live_env ctrl2"
  by (rule begin_allowed) code_simp

lemma ctrl3_eq: "snap_virtio_ctrl_progress live_env ctrl2 = Some ctrl3"
  by (rule reach_view [OF ctrl2_reach ctrl2_allowed _ ctrl123_wf(3,6)]) code_simp

lemma ctrl3_reach: "ctrl_reach ctrl3"
  by (rule reach_progress [OF ctrl2_reach ctrl2_allowed ctrl3_eq])

lemma ctrl1_eval: "q_list (pgs (pg_ctx ctrl1) ! 0) = [0]" "npgs (pg_ctx ctrl1) = 2"
  by (simp_all add: ctrl1_def ctrl_up_def)

lemma ctrl2_eval:
  "ctrl_state ctrl2 = SNAP_VIRTIO_CTRL_SUSPENDING" "quiesce_cmd ctrl2 = Some 7" "adm_completed ctrl2 = []"
  "heap ctrl2 vq = Some q \<Longrightarrow> cq_impl q" "heap ctrl2 0 \<noteq> None"
  by (auto simp: ctrl2_def ctrl_up_def ctrl0_def split: if_splits)

lemma ctrl3_eval:
  "ctrl_state ctrl3 = SNAP_VIRTIO_CTRL_SUSPENDED" "lm_state ctrl3 = SNAP_VIRTIO_CTRL_LM_QUIESCED" "queues ctrl3 = [Some 0, Some 1]"
  "max_queues ctrl3 = 2" "bar_curr ctrl3 = attr0\<lparr>status := 15\<rparr>" "heap ctrl3 0 \<noteq> None" "heap ctrl3 (Suc 0) \<noteq> None"
  by (simp_all add: ctrl3_def ctrl_up_def ctrl0_def)

theorem ctrl_pointers_valid_witness:
  "q_list (pgs (pg_ctx ctrl1) ! 0) = [0] \<and> heap ctrl1 0 \<noteq> None \<and> \<not> fault ctrl1"
  using ctrl_pointers_valid [OF ctrl1_reach] ctrl1_eval by fastforce

theorem ctrl_migration_states_witness:
  "lm_state ctrl3 = SNAP_VIRTIO_CTRL_LM_QUIESCED \<and> ctrl_state ctrl3 \<in> {SNAP_VIRTIO_CTRL_STOPPED, SNAP_VIRTIO_CTRL_SUSPENDED}"
  using ctrl_migration_states [OF ctrl3_reach] ctrl3_eval(2) by simp

theorem ctrl_suspended_when_queues_are_witness:
  "\<exists>q. heap ctrl2 0 = Some q \<and> qo_is_suspended (q_ops live_env) (cq_impl q)"
proof -
  obtain q where q: "heap ctrl2 0 = Some q" using ctrl2_eval(5) by auto
  from ctrl_suspended_when_queues_are [OF ctrl2_reach ctrl2_eval(1) ctrl3_eq _ q] q ctrl3_eval(1) show ?thesis by simp
qed

theorem ctrl_quiesce_completes_witness:
  "adm_completed (snap_virtio_ctrl_progress_suspend live_env ctrl2) = [(7, SNAP_VIRTIO_ADMIN_STATUS_Q_OK)]"
proof -
  have "\<forall>vq q. heap ctrl2 vq = Some q \<longrightarrow> qo_is_suspended (q_ops live_env) (cq_impl q)"
    using ctrl2_eval(4) by (simp add: env_bar_def queue_ops0_def)
  with ctrl_quiesce_completes [OF ctrl2_reach ctrl2_eval(2), of live_env] ctrl2_eval(3) show ?thesis by auto
qed

theorem ctrl_start_creates_enabled_witness:
  "\<exists>c'. snap_virtio_ctrl_start live_env ctrl0 = (0, c') \<and> queues c' ! 1 \<noteq> None"
proof -
  have s: "ctrl_state ctrl0 = SNAP_VIRTIO_CTRL_STOPPED" "max_queues ctrl0 = 2" by (simp_all add: ctrl0_def)
  obtain c' where c': "snap_virtio_ctrl_start live_env ctrl0 = (0, c')"
  proof -
    have "fst (snap_virtio_ctrl_start live_env ctrl0) = 0" by code_simp
    then show ?thesis using that by (cases "snap_virtio_ctrl_start live_env ctrl0") simp
  qed
  from ctrl_start_creates_enabled [OF ctrl0_reach s(1) c'] have
    "\<forall>i < max_queues ctrl0. queues c' ! i \<noteq> None \<longleftrightarrow> va_enable (q_attrs (bar_curr ctrl0) ! i) \<noteq> 0" by simp
  then have "queues c' ! 1 \<noteq> None" using s(2) by (simp add: ctrl0_def attr0_def numeral_2_eq_2)
  with c' show ?thesis by blast
qed

theorem ctrl_progress_returns_witness:
  "\<exists>c'. snap_virtio_ctrl_progress live_env ctrl2 = Some c' \<and> locks_free (pg_ctx c') \<and> \<not> fault c'"
  using ctrl_progress_returns [OF ctrl2_reach, of live_env] ctrl2_allowed by auto

section \<open>Where the invariants end\<close>

text \<open>When the second queue cannot be created, \<^verbatim>\<open>start\<close> destroys the first one but leaves its address in
  the array; the next start and stop destroy the dangling queue again.\<close>

definition env_create_fails :: "bool ctrl_env" where
  "env_create_fails = live_env\<lparr>q_ops := queue_ops0\<lparr>qo_create := (\<lambda>_ _ i. if i = 0 then Some False else None)\<rparr>\<rparr>"

lemma start_failure_dangles:
  "let (ret, c) = snap_virtio_ctrl_start env_create_fails ctrl0;
       (ret2, c2) = snap_virtio_ctrl_start env_create_fails c
   in ret = - ENOMEM \<and> queues c ! 0 = Some 0 \<and> heap c 0 = None \<and> \<not> fault c \<and> ret2 = - ENOMEM"
  by code_simp

text \<open>With the callback of the application failing, every queue of the array dangles and the next
  \<^verbatim>\<open>stop\<close> of the controller uses them.\<close>

lemma start_failure_use_after_free:
  "let c = snd (snap_virtio_ctrl_start (live_env\<lparr>cb_start := Some (- 1)\<rparr>) (ctrl0\<lparr>ctrl_state := SNAP_VIRTIO_CTRL_SUSPENDED\<rparr>))
   in \<not> fault c \<and> fault (snd (snap_virtio_ctrl_stop live_env c))"
  by code_simp

text \<open>A change of the device status while the controller is suspended creates the queues a second
  time; the old ones stay in the polling groups but not in the array.\<close>

lemma restart_leaks_queues:
  "map_option (\<lambda>c. (ctrl_state c, queues c, map (\<lambda>vq. heap c vq \<noteq> None) [0, 1, 2, 3], map q_list (pgs (pg_ctx c))))
       (snap_virtio_ctrl_progress (env_bar (\<lambda>bar. bar\<lparr>status := 7\<rparr>)) ctrl3) =
     Some (SNAP_VIRTIO_CTRL_SUSPENDED, [Some 2, Some 3], [True, True, True, True], [[0], [1]])"
  by code_simp

text \<open>On a transitional device a reset together with DRIVER_OK progresses the controller once more
  with the lock released and then releases it again.\<close>

lemma transitional_double_unlock:
  "let env = (env_bar id)\<lparr>bo_update := (\<lambda>n bar. (0, bar\<lparr>status := 15, reset := (n = 0)\<rparr>))\<rparr>
   in map_option fault (snap_virtio_ctrl_progress env (ctrl0\<lparr>transitional_device := True\<rparr>)) = Some True"
  by code_simp

end
