(* ===== verification/Virtio_State_Sections.thy ===== *)
theory Virtio_State_Sections
  imports Virtio_State_Fields
begin

text \<open>
  Version 1 of the saved state: the four sections lie at fixed places, and a restore that
  follows the section lengths finds them there as long as the lengths fit into sixteen bits.
\<close>

section \<open>Section headers\<close>

lemma init_section_len: "section_len (snap_virtio_ctrl_init_section hdr len name m) hdr = of_nat len"
  using mem_get_put_same [of 2 "le_bytes 2 (of_nat len :: u16)" hdr m]
  by (simp add: section_len_def snap_virtio_ctrl_init_section_def mem_get_put_out le_word_le_bytes)

lemma init_section_out:
  assumes "x < hdr \<or> hdr + 18 \<le> x"
  shows "snap_virtio_ctrl_init_section hdr len name m x = m x"
  using assms by (auto simp: snap_virtio_ctrl_init_section_def mem_put_def)

lemma section_len_cong: "(\<And>x. hdr \<le> x \<Longrightarrow> x < hdr + 2 \<Longrightarrow> m x = m' x) \<Longrightarrow> section_len m hdr = section_len m' hdr"
  unfolding section_len_def by (intro arg_cong [of _ _ le_word] mem_get_cong) simp

lemma init_section_other: "hdr + 18 \<le> h \<or> h + 2 \<le> hdr \<Longrightarrow> section_len (snap_virtio_ctrl_init_section hdr len name m) h = section_len m h"
  by (intro section_len_cong init_section_out) auto

lemma section_len_put: "off + length bs \<le> hdr \<or> hdr + 2 \<le> off \<Longrightarrow> section_len (mem_put off bs m) hdr = section_len m hdr"
  using mem_get_put_out [of hdr 2 off bs m] by (auto simp: section_len_def)

text \<open>The lengths a restore looks at.\<close>

definition section_lens :: "'q state_env \<Rightarrow> 'q snap_virtio_ctrl \<Rightarrow> nat \<Rightarrow> buf \<Rightarrow> bool" where
  "section_lens env c n m \<longleftrightarrow> section_len m 0 = of_nat (snap_virtio_ctrl_state_size_v1 env c) \<and> section_len m 18 = 54 \<and>
     section_len m 72 = of_nat (max_queues c * 36 + 18) \<and> section_len m (90 + 36 * max_queues c) = of_nat (n + 18)"

lemma section_lens_put:
  assumes "length bs + off \<le> 72 \<and> 36 \<le> off \<or> 90 \<le> off \<and> off + length bs \<le> 90 + 36 * max_queues c \<or> 108 + 36 * max_queues c \<le> off"
  shows "section_lens env c n (mem_put off bs m) = section_lens env c n m"
  using assms by (auto simp: section_lens_def section_len_put)

lemma save_init_hdrs_lens:
  assumes "snap_virtio_ctrl_state_size_v1 env c \<le> len" and "se_get_state_size env = Some n"
  shows "\<exists>m'. snap_virtio_ctrl_save_init_hdrs env len c m =
     (int (snap_virtio_ctrl_state_size_v1 env c), (18, 72, 90 + 36 * max_queues c), m') \<and> section_lens env c n m' \<and>
     (\<forall>x \<ge> 108 + 36 * max_queues c. m' x = m x)"
proof -
  let ?t = "snap_virtio_ctrl_state_size_v1 env c"
  define m1 where "m1 = snap_virtio_ctrl_init_section 0 ?t ''VIRTIO_CTRL_CFG'' m"
  define m2 where "m2 = snap_virtio_ctrl_init_section 18 54 ''COMMON_PCI_CFG'' m1"
  define m3 where "m3 = snap_virtio_ctrl_init_section 72 (max_queues c * 36 + 18) ''QUEUES_CFG'' m2"
  define m4 where "m4 = snap_virtio_ctrl_init_section (90 + 36 * max_queues c) (n + 18) ''DEVICE_CFG'' m3"
  have lens: "cfg_lens_v1 env c = (n + 18, max_queues c * 36 + 18, 54)" using assms(2) by (simp add: cfg_lens_v1_def)
  then have t: "?t = 108 + 36 * max_queues c + n" by (simp add: snap_virtio_ctrl_state_size_v1_def)
  have "snap_virtio_ctrl_save_init_hdrs env len c m = (int ?t, (18, 72, 90 + 36 * max_queues c), m4)"
    using assms(1) by (simp add: snap_virtio_ctrl_save_init_hdrs_def lens m1_def m2_def m3_def m4_def Let_def ac_simps)
  moreover have "section_lens env c n m4"
    by (simp add: section_lens_def m4_def m3_def m2_def m1_def init_section_other init_section_len)
  moreover have "m4 x = m x" if "108 + 36 * max_queues c \<le> x" for x
    using that by (simp add: t m4_def m3_def m2_def m1_def init_section_out)
  ultimately show ?thesis by blast
qed

section \<open>The queue array\<close>

lemma put_indices:
  "mem_put (e + 34) (le_bytes 2 used) (mem_put (e + 32) (le_bytes 2 avail) (mem_put e (enc_queue_state q) m)) =
     mem_put e (enc_queue_state (q\<lparr>qs_hw_available_index := avail, qs_hw_used_index := used\<rparr>)) m"
proof -
  define pre where "pre = le_bytes 2 (qs_queue_size q) @ le_bytes 2 (qs_queue_msix_vector q) @ le_bytes 2 (qs_queue_enable q) @
     le_bytes 2 (qs_queue_notify_off q) @ le_bytes 8 (qs_queue_desc q) @ le_bytes 8 (qs_queue_driver q) @ le_bytes 8 (qs_queue_device q)"
  have l: "length pre = 32" by (simp add: pre_def)
  have e: "enc_queue_state q = pre @ le_bytes 2 (qs_hw_available_index q) @ le_bytes 2 (qs_hw_used_index q)"
    "enc_queue_state (q\<lparr>qs_hw_available_index := avail, qs_hw_used_index := used\<rparr>) = pre @ le_bytes 2 avail @ le_bytes 2 used"
    by (simp_all add: enc_queue_state_def pre_def)
  show ?thesis unfolding e by (rule ext) (auto simp: mem_put_def nth_append l add.commute)
qed

definition put_queue :: "'q state_env \<Rightarrow> 'q snap_virtio_ctrl \<Rightarrow> nat \<Rightarrow> nat \<Rightarrow> buf \<Rightarrow> buf" where
  "put_queue env c qs i m = mem_put (qs + 36 * i) (enc_queue_state (queue_state_of env c i)) m"

lemma save_queues_puts:
  assumes "reports env c" and "set is \<subseteq> {..<max_queues c}"
  shows "save_queues env is qs c m = (0, c, fold (put_queue env c qs) is m)"
  using assms(2)
proof (induction "is" arbitrary: m)
  case (Cons i "is")
  let ?q = "queue_state_of_attr (q_attrs (bar_curr c) ! i)"
  show ?case
  proof (cases "run_idx env c i")
    case None
    have "save_queues env (i # is) qs c m = save_queues env is qs c (put_queue env c qs i m)"
      using None Cons.prems assms(1) unfolding run_idx_def reports_def put_queue_def queue_state_of_def
      by (fastforce simp: snap_virtio_ctrl_save_queue_state_def Let_def split: option.splits if_splits)
    then show ?thesis using Cons by simp
  next
    case (Some r)
    obtain avail used where r: "r = (avail, used)" by (cases r)
    obtain get_state a q where g: "qo_get_state (q_ops (se_ctrl env)) = Some get_state" "queues c ! i = Some a" "heap c a = Some q"
      "va_enable (q_attrs (bar_curr c) ! i) \<noteq> 0" "snd (get_state (cq_impl q)) = (avail, used)"
      using Some r unfolding run_idx_def by (auto split: option.splits if_splits)
    have "fst (get_state (cq_impl q)) = 0" using assms(1) g Cons.prems(1) unfolding reports_def by fastforce
    then have s: "get_state (cq_impl q) = (0, avail, used)" using g(5) by (cases "get_state (cq_impl q)") simp
    have "queue_state_of env c i = ?q\<lparr>qs_hw_available_index := avail, qs_hw_used_index := used\<rparr>"
      using Some r by (simp add: queue_state_of_def)
    then have "save_queues env (i # is) qs c m = save_queues env is qs c (put_queue env c qs i m)"
      using g s put_indices [of "qs + 36 * i" used avail ?q m]
      by (simp add: snap_virtio_ctrl_save_queue_state_def put_queue_def Let_def ac_simps)
    then show ?thesis using Cons by simp
  qed
qed simp

lemma put_queues_out: "x < qs \<or> qs + 36 * n \<le> x \<Longrightarrow> fold (put_queue env c qs) [0..<n] m x = m x"
  by (induction n) (auto simp: put_queue_def mem_put_out queue_state.length_enc)

lemma put_queues_in: "i < n \<Longrightarrow> mem_get (qs + 36 * i) 36 (fold (put_queue env c qs) [0..<n] m) = enc_queue_state (queue_state_of env c i)"
proof (induction n)
  case (Suc n)
  then show ?case
    by (cases "i = n") (simp_all add: put_queue_def mem_get_put_same mem_get_put_out queue_state.length_enc)
qed simp

section \<open>Saving, version 1\<close>

text \<open>What a restore finds in the buffer.\<close>

definition saved_v1 :: "'q state_env \<Rightarrow> 'q snap_virtio_ctrl \<Rightarrow> u8 list \<Rightarrow> buf \<Rightarrow> bool" where
  "saved_v1 env c bytes m \<longleftrightarrow> section_lens env c (length bytes) m \<and>
     mem_get 36 36 m = enc_common_state \<lparr>cs_cfg = common_cfg_of (bar_curr c), cs_ctrl_state = ctrl_state_num (ctrl_state c)\<rparr> \<and>
     (\<forall>i < max_queues c. mem_get (90 + 36 * i) 36 m = enc_queue_state (queue_state_of env c i)) \<and>
     holds m (108 + 36 * max_queues c) bytes"

lemma size_v1: "se_get_state_size env = Some n \<Longrightarrow> snap_virtio_ctrl_state_size_v1 env c = 108 + 36 * max_queues c + n"
  by (simp add: snap_virtio_ctrl_state_size_v1_def cfg_lens_v1_def)

lemma save_all_queues_puts:
  assumes "reports env c" and "locks_free (pg_ctx c)"
  shows "snap_virtio_ctrl_save_all_queues env qs c m = (0, c, fold (put_queue env c qs) [0..<max_queues c] m)"
proof -
  have r: "run_idx env (pgs_suspend c) i = run_idx env c i" for i by (simp add: run_idx_def split: option.split)
  have p: "put_queue env (pgs_suspend c) qs = put_queue env c qs"
    by (intro ext) (simp add: put_queue_def queue_state_of_def r)
  have "set [0..<max_queues c] \<subseteq> {..<max_queues (pgs_suspend c)}" by auto
  from save_queues_puts [OF _ this, of env qs m] show ?thesis
    using assms pgs_resume_suspend [OF assms(2)] by (simp add: snap_virtio_ctrl_save_all_queues_def p)
qed

lemma state_save_v1_saved:
  assumes "reports env c" and "locks_free (pg_ctx c)" and "se_get_state_size env = Some (length bytes)"
    and "snap_virtio_ctrl_state_size_v1 env c < 2 ^ 16"
    and "se_get_state env (bar_curr c) (18 + length bytes) (\<lambda>i. m (108 + 36 * max_queues c + i)) = (r, bytes)" and "0 \<le> r" and "snap_virtio_ctrl_state_size_v1 env c \<le> len"
  shows "\<exists>m'. snap_virtio_ctrl_state_save_v1 env len c m = (int (snap_virtio_ctrl_state_size_v1 env c), c, m') \<and> saved_v1 env c bytes m' \<and>
     (\<forall>x \<ge> snap_virtio_ctrl_state_size_v1 env c. m' x = m x)"
proof -
  let ?D = "90 + 36 * max_queues c"
  have t: "snap_virtio_ctrl_state_size_v1 env c = 108 + 36 * max_queues c + length bytes" by (rule size_v1 [OF assms(3)])
  obtain m1 where m1: "snap_virtio_ctrl_save_init_hdrs env len c m = (int (snap_virtio_ctrl_state_size_v1 env c), (18, 72, ?D), m1)"
    "section_lens env c (length bytes) m1" "\<forall>x \<ge> 108 + 36 * max_queues c. m1 x = m x"
    using save_init_hdrs_lens [OF assms(7,3), of m] by blast
  let ?cs = "\<lparr>cs_cfg = common_cfg_of (bar_curr c), cs_ctrl_state = ctrl_state_num (ctrl_state c)\<rparr>"
  define m2 where "m2 = mem_put 36 (enc_common_state ?cs) m1"
  define m3 where "m3 = fold (put_queue env c 90) [0..<max_queues c] m2"
  define m4 where "m4 = mem_put (108 + 36 * max_queues c) bytes m3"
  have l2: "section_lens env c (length bytes) m2"
    using m1(2) unfolding m2_def by (subst section_lens_put) (simp_all add: common_state.length_enc)
  have o3: "m3 x = m2 x" if "x < 90 \<or> ?D \<le> x" for x unfolding m3_def using that by (intro put_queues_out) simp
  have l3: "section_lens env c (length bytes) m3"
  proof -
    have "section_len m3 h = section_len m2 h" if "h + 2 \<le> 90 \<or> ?D \<le> h" for h
      using that by (intro section_len_cong o3) auto
    then show ?thesis using l2 by (simp add: section_lens_def)
  qed
  have l4: "section_lens env c (length bytes) m4" using l3 unfolding m4_def by (subst section_lens_put) simp_all
  have nz: "section_len mm 18 \<noteq> 0 \<and> section_len mm 72 \<noteq> 0 \<and> section_len mm ?D \<noteq> 0 \<and> unat (section_len mm ?D) = length bytes + 18"
    if "section_lens env c (length bytes) mm" for mm
  proof -
    have u: "unat (of_nat (max_queues c * 36 + 18) :: u16) = max_queues c * 36 + 18" "unat (of_nat (length bytes + 18) :: u16) = length bytes + 18"
      using assms(4) t by (simp_all only: unat_of_nat) simp_all
    then have "(of_nat (max_queues c * 36 + 18) :: u16) \<noteq> 0" "(of_nat (length bytes + 18) :: u16) \<noteq> 0"
      by (metis add_is_0 unat_0 zero_neq_numeral)+
    then show ?thesis using that u by (simp only: section_lens_def) simp
  qed
  have old: "(\<lambda>i. m3 (108 + 36 * max_queues c + i)) = (\<lambda>i. m (108 + 36 * max_queues c + i))"
    using m1(3) o3 unfolding m2_def by (simp add: mem_put_out common_state.length_enc)
  have "snap_virtio_ctrl_state_save_v1 env len c m = (int (snap_virtio_ctrl_state_size_v1 env c), c, m4)"
    using nz [OF m1(2)] nz [OF l2] nz [OF l3] assms(5,6) save_all_queues_puts [OF assms(1,2), of 90 m2]
    unfolding snap_virtio_ctrl_state_save_v1_def m1(1) Let_def
    by (simp add: section_hdr_to_data_def snap_virtio_ctrl_save_common_state_def m2_def [symmetric] m3_def [symmetric]
        snap_virtio_ctrl_save_dev_state_def add.commute [of "length bytes" 18] old m4_def)
  moreover have "saved_v1 env c bytes m4"
  proof -
    have "mem_get 36 36 m4 = mem_get 36 36 m2" using o3 unfolding m4_def by (intro mem_get_cong) (simp add: mem_put_out)
    moreover have "mem_get (90 + 36 * i) 36 m4 = enc_queue_state (queue_state_of env c i)" if "i < max_queues c" for i
      using put_queues_in [OF that, of 90 env c m2] that unfolding m4_def m3_def by (simp add: mem_get_put_out)
    ultimately show ?thesis using l4 unfolding saved_v1_def m4_def m2_def
      by (simp add: mem_get_put_same common_state.length_enc holds_put)
  qed
  moreover have "m4 x = m x" if "snap_virtio_ctrl_state_size_v1 env c \<le> x" for x
    using that m1(3) o3 [of x] unfolding t m4_def m2_def by (simp add: mem_put_out common_state.length_enc)
  ultimately show ?thesis by blast
qed

section \<open>Restoring, version 1\<close>

lemma state_restore_v1_saved:
  assumes s: "saved_v1 env c bytes m"
    and src: "length (q_attrs (bar_curr c)) = max_queues c" "se_get_state_size env = Some (length bytes)"
      "snap_virtio_ctrl_state_size_v1 env c < 2 ^ 16" "ctrl_state c \<in> {SNAP_VIRTIO_CTRL_STOPPED, SNAP_VIRTIO_CTRL_SUSPENDED}"
    and len: "snap_virtio_ctrl_state_size_v1 env c \<le> len"
    and dst: "max_queues c2 = max_queues c" "snap_virtio_ctrl_is_stopped c2 \<or> snap_virtio_ctrl_is_suspended c2"
    and d: "d = (if snap_virtio_ctrl_is_suspended c2 then snd (snap_virtio_ctrl_stop (se_ctrl env2) c2) else c2)"
      "max_queues d = max_queues c" "length (q_attrs (bar_curr d)) = max_queues c"
    and set: "se_set_state env2 = Some f"
      "\<And>rest. f (migrated (bar_curr c) (bar_curr d)) (map (queue_state_of env c) [0..<max_queues c]) (Some (bytes @ rest)) = (0, bar)"
  shows "snap_virtio_ctrl_state_restore_v1 env2 len m c2 =
     (let e = d\<lparr>ctrl_state := ctrl_state c, bar_curr := bar\<rparr>;
          (ret, e) = (if ctrl_state c = SNAP_VIRTIO_CTRL_SUSPENDED then snap_virtio_ctrl_start (se_ctrl env2) e else (0, e))
      in (ret, e\<lparr>bar_prev := snap_virtio_ctrl_bar_copy (se_ctrl env2) (bar_curr e) (bar_prev e)\<rparr>))"
proof -
  let ?cs = "\<lparr>cs_cfg = common_cfg_of (bar_curr c), cs_ctrl_state = ctrl_state_num (ctrl_state c)\<rparr>"
  let ?q = "map (queue_state_of env c) [0..<max_queues c]"
  have t: "snap_virtio_ctrl_state_size_v1 env c = 108 + 36 * max_queues c + length bytes" by (rule size_v1 [OF src(2)])
  have sl: "unat (section_len m 0) = 108 + 36 * max_queues c + length bytes" "unat (section_len m 18) = 54"
    "unat (section_len m 72) = max_queues c * 36 + 18" "unat (section_len m (90 + 36 * max_queues c)) = length bytes + 18"
  proof -
    have u: "unat (of_nat n :: u16) = n" if "n \<le> 108 + 36 * max_queues c + length bytes" for n
      using that src(3) t by (simp only: unat_of_nat) simp
    have l: "section_len m 0 = of_nat (108 + 36 * max_queues c + length bytes)" "section_len m 18 = of_nat 54"
      "section_len m 72 = of_nat (max_queues c * 36 + 18)" "section_len m (90 + 36 * max_queues c) = of_nat (length bytes + 18)"
      using s by (simp_all only: saved_v1_def section_lens_def t) simp_all
    show "unat (section_len m 0) = 108 + 36 * max_queues c + length bytes" "unat (section_len m 18) = 54"
      "unat (section_len m 72) = max_queues c * 36 + 18" "unat (section_len m (90 + 36 * max_queues c)) = length bytes + 18"
      unfolding l by (rule u, simp)+
  qed
  have cs: "dec_common_state (mem_get 36 36 m) = ?cs" using s by (simp add: saved_v1_def common_state.dec_enc)
  have qs: "map (\<lambda>i. dec_queue_state (mem_get (72 + 18 + 36 * i) 36 m)) [0..<max_queues c2] = ?q"
    using s dst(1) by (simp add: saved_v1_def queue_state.dec_enc)
  obtain rest where dv: "mem_get (72 + (max_queues c * 36 + 18) + 18) (length bytes + 18) m = bytes @ rest"
  proof -
    have "mem_get (108 + 36 * max_queues c) (length bytes + 18) m = bytes @ mem_get (108 + 36 * max_queues c + length bytes) 18 m"
      using s holds_append [of m "108 + 36 * max_queues c" bytes "mem_get (108 + 36 * max_queues c + length bytes) 18 m"]
      by (simp add: saved_v1_def holds_def)
    then show ?thesis using that by (simp add: ac_simps)
  qed
  have num: "ctrl_state_num (ctrl_state c) \<in> {0, 2}" "ctrl_state_of_num (ctrl_state_num (ctrl_state c)) = ctrl_state c"
    "ctrl_state_num (ctrl_state c) = 2 \<longleftrightarrow> ctrl_state c = SNAP_VIRTIO_CTRL_SUSPENDED"
    "ctrl_state_of_num 2 = SNAP_VIRTIO_CTRL_SUSPENDED"
    using src(4) by (auto simp: ctrl_state_of_num_def)
  have cond: "\<not> (\<not> snap_virtio_ctrl_is_stopped c2 \<and> \<not> snap_virtio_ctrl_is_suspended c2)" "\<not> len < unat (section_len m 0)"
    "54 + (max_queues c * 36 + 18) < len" using dst(2) len t sl(1) by auto
  have h: "72 + (max_queues c * 36 + 18) = 90 + 36 * max_queues c" by simp
  show ?thesis
    unfolding snap_virtio_ctrl_state_restore_v1_def set(1) option.case if_not_P [OF cond(1)] if_not_P [OF cond(2)] Let_def cs qs sl(2,3)
      if_P [OF cond(3)] h sl(4) dv [unfolded h] d(1) [symmetric]
    using num by (simp add: d(2) restore_migrated [OF src(1) d(3)] set(2) split: prod.split)
qed

end
