(* ===== verification/Blk_State.thy ===== *)
theory Blk_State
  imports Virtio_Ctrl_Sys Virtio_State_Sections
begin

text \<open>
  Migration of a block controller (\<^verbatim>\<open>ctrl/snap_virtio_blk_ctrl.c\<close>, the register operations that save and
  restore the device configuration): what arrives at the destination, that both formats bring the same,
  and how much of the buffer is written. The firmware call that writes the registers of the device
  (\<^verbatim>\<open>snap_virtio_blk_modify_device\<close>) is the operation \<open>bo_modify\<close> of the environment.
\<close>

section \<open>Device configuration\<close>

text \<open>\<^verbatim>\<open>sizeof(struct virtio_state_blk_config)\<close>. Of its fields, those at the offsets 0, 8, 12, 20 and 34 are
  used: the capacity, the maximal size and number of segments, the block size, the number of queues.\<close>

definition snap_virtio_blk_ctrl_bar_get_state_size :: nat where
  "snap_virtio_blk_ctrl_bar_get_state_size = 72"

definition snap_virtio_blk_ctrl_bar_get_state :: "snap_virtio_device_attr \<Rightarrow> nat \<Rightarrow> (nat \<Rightarrow> u8) \<Rightarrow> int \<times> u8 list" where
  "snap_virtio_blk_ctrl_bar_get_state vbar len dev_cfg =
     (if len < snap_virtio_blk_ctrl_bar_get_state_size then (- EINVAL, [])
      else
        let vbbar = blk_attr vbar;
            dev_cfg = mem_put 0 (le_bytes 8 (ba_capacity vbbar)) dev_cfg;
            dev_cfg = mem_put 8 (le_bytes 4 (ba_size_max vbbar)) dev_cfg;
            dev_cfg = mem_put 12 (le_bytes 4 (ba_seg_max vbbar)) dev_cfg;
            dev_cfg = mem_put 20 (le_bytes 4 (ba_blk_size vbbar)) dev_cfg;
            dev_cfg = mem_put 34 (le_bytes 2 (ba_max_blk_queues vbbar)) dev_cfg
        in (int snap_virtio_blk_ctrl_bar_get_state_size, mem_get 0 snap_virtio_blk_ctrl_bar_get_state_size dev_cfg))"

abbreviation (input) blk_set_state_mask :: u64 where "blk_set_state_mask \<equiv> 64 OR 16 OR 128"

definition snap_virtio_blk_ctrl_bar_set_state ::
  "'q ctrl_env \<Rightarrow> nat \<Rightarrow> snap_virtio_device_attr \<Rightarrow> snap_virtio_ctrl_queue_state list \<Rightarrow> u8 list option \<Rightarrow> int \<times> snap_virtio_device_attr"
where
  "snap_virtio_blk_ctrl_bar_set_state env n vbar queue_state buf =
     (case buf of
        None \<Rightarrow> (- EINVAL, vbar)
      | Some dev_cfg \<Rightarrow>
          if length dev_cfg < snap_virtio_blk_ctrl_bar_get_state_size then (- EINVAL, vbar)
          else
            let vbbar = blk_attr vbar;
                hw = fold (\<lambda>i hw. hw[i := (qs_hw_available_index (queue_state ! i), qs_hw_used_index (queue_state ! i))])
                       [0..<n] (ba_hw_index vbbar);
                vbar = vbar\<lparr>blk_attr := vbbar\<lparr>ba_hw_index := hw, ba_capacity := field 0 8 dev_cfg, ba_size_max := field 8 4 dev_cfg,
                  ba_seg_max := field 12 4 dev_cfg, ba_blk_size := field 20 4 dev_cfg, ba_max_blk_queues := field 34 2 dev_cfg\<rparr>\<rparr>
            in (bo_modify env blk_set_state_mask vbar, vbar))"

definition blk_state_env :: "'q ctrl_env \<Rightarrow> nat \<Rightarrow> 'q state_env" where
  "blk_state_env env n = \<lparr>se_ctrl = env, se_get_state_size = Some snap_virtio_blk_ctrl_bar_get_state_size,
     se_get_state = snap_virtio_blk_ctrl_bar_get_state, se_set_state = Some (snap_virtio_blk_ctrl_bar_set_state env n)\<rparr>"

lemma blk_state_env_simps [simp]:
  "se_ctrl (blk_state_env env n) = env" "se_get_state_size (blk_state_env env n) = Some 72"
  "se_get_state (blk_state_env env n) = snap_virtio_blk_ctrl_bar_get_state"
  "se_set_state (blk_state_env env n) = Some (snap_virtio_blk_ctrl_bar_set_state env n)"
  by (simp_all add: blk_state_env_def snap_virtio_blk_ctrl_bar_get_state_size_def)

lemma blk_get_state:
  assumes "72 \<le> len"
  shows "\<exists>bytes. snap_virtio_blk_ctrl_bar_get_state vbar len old = (72, bytes) \<and> length bytes = 72 \<and>
     field 0 8 bytes = ba_capacity (blk_attr vbar) \<and> field 8 4 bytes = ba_size_max (blk_attr vbar) \<and>
     field 12 4 bytes = ba_seg_max (blk_attr vbar) \<and> field 20 4 bytes = ba_blk_size (blk_attr vbar) \<and>
     field 34 2 bytes = ba_max_blk_queues (blk_attr vbar)"
proof -
  have f: "field off k (mem_get 0 72 m) = le_word (mem_get off k m)" if "off + k \<le> 72" for off k and m :: "nat \<Rightarrow> u8"
  proof -
    have "take k (drop off (mem_get 0 72 m)) = mem_get off k m"
      using that by (simp add: mem_get_def drop_map take_map)
    then show ?thesis by (simp add: field_def)
  qed
  show ?thesis
    using assms by (simp add: snap_virtio_blk_ctrl_bar_get_state_def snap_virtio_blk_ctrl_bar_get_state_size_def Let_def
        f mem_get_put_out mem_get_put_same le_word_le_bytes)
qed

text \<open>The registers of the destination: those of the source that the common part carries, its whole
  block configuration, and the indices that its queues reported.\<close>

definition blk_migrated :: "'q ctrl_env \<Rightarrow> 'q snap_virtio_ctrl \<Rightarrow> snap_virtio_device_attr \<Rightarrow> snap_virtio_device_attr" where
  "blk_migrated env c dst = (migrated (bar_curr c) dst)\<lparr>blk_attr := (blk_attr (bar_curr c))\<lparr>ba_hw_index :=
     map (\<lambda>i. let q = queue_state_of (blk_state_env env (max_queues c)) c i in (qs_hw_available_index q, qs_hw_used_index q)) [0..<max_queues c]\<rparr>\<rparr>"

lemma blk_set_state:
  assumes "length (ba_hw_index (blk_attr dst)) = max_queues c" and "\<And>bar. bo_modify env2 blk_set_state_mask bar = 0"
    and "snap_virtio_blk_ctrl_bar_get_state (bar_curr c) len old = (72, bytes)" and "72 \<le> len"
  shows "snap_virtio_blk_ctrl_bar_set_state env2 (max_queues c) (migrated (bar_curr c) dst)
     (map (queue_state_of (blk_state_env env (max_queues c)) c) [0..<max_queues c]) (Some (bytes @ rest)) = (0, blk_migrated env c dst)"
proof -
  let ?q = "map (queue_state_of (blk_state_env env (max_queues c)) c) [0..<max_queues c]"
  have b: "length bytes = 72" "field 0 8 bytes = ba_capacity (blk_attr (bar_curr c))" "field 8 4 bytes = ba_size_max (blk_attr (bar_curr c))"
    "field 12 4 bytes = ba_seg_max (blk_attr (bar_curr c))" "field 20 4 bytes = ba_blk_size (blk_attr (bar_curr c))"
    "field 34 2 bytes = ba_max_blk_queues (blk_attr (bar_curr c))"
    using blk_get_state [OF assms(4), of "bar_curr c" old] assms(3) by auto
  have fa: "field off k (bytes @ rest) = field off k bytes" if "off + k \<le> 72" for off k
    using that b(1) by (simp add: field_def)
  have "blk_attr (migrated (bar_curr c) dst) = blk_attr dst" by (simp add: migrated_def)
  moreover have "fold (\<lambda>i hw. hw[i := (qs_hw_available_index (?q ! i), qs_hw_used_index (?q ! i))]) [0..<max_queues c] (ba_hw_index (blk_attr dst)) =
      map (\<lambda>i. (qs_hw_available_index (?q ! i), qs_hw_used_index (?q ! i))) [0..<max_queues c]"
    using fold_update_map [of "max_queues c" "ba_hw_index (blk_attr dst)" "\<lambda>i _. (qs_hw_available_index (?q ! i), qs_hw_used_index (?q ! i))"]
      assms(1) by simp
  moreover have "map (\<lambda>i. (qs_hw_available_index (?q ! i), qs_hw_used_index (?q ! i))) [0..<max_queues c] =
      map (\<lambda>i. let q = queue_state_of (blk_state_env env (max_queues c)) c i in (qs_hw_available_index q, qs_hw_used_index q)) [0..<max_queues c]"
    by (simp add: Let_def)
  ultimately show ?thesis
    using b assms(2) by (simp add: snap_virtio_blk_ctrl_bar_set_state_def snap_virtio_blk_ctrl_bar_get_state_size_def Let_def fa blk_migrated_def)
qed

section \<open>From one controller to another\<close>

text \<open>The destination after the common end of both restores: a suspended controller with the enabled queues.\<close>

lemma restored_ctrl:
  assumes "ctrl_inv c" and "snap_virtio_ctrl_is_stopped c \<or> snap_virtio_ctrl_is_suspended c" and "starts env"
    and "d = (if snap_virtio_ctrl_is_suspended c then snd (snap_virtio_ctrl_stop env c) else c)"
  shows "\<exists>e. snap_virtio_ctrl_start env (d\<lparr>ctrl_state := SNAP_VIRTIO_CTRL_SUSPENDED, bar_curr := bar\<rparr>) = (0, e) \<and>
     ctrl_state e = SNAP_VIRTIO_CTRL_SUSPENDED \<and> bar_curr e = bar \<and>
     (\<forall>i < max_queues c. queues e ! i \<noteq> None \<longleftrightarrow> va_enable (q_attrs bar ! i) \<noteq> 0)"
proof -
  let ?d = "d\<lparr>ctrl_state := SNAP_VIRTIO_CTRL_SUSPENDED, bar_curr := bar\<rparr>"
  have d: "ctrl_inv ?d" "no_queues d" "max_queues d = max_queues c"
    using restore_begin [OF assms(1,2) _ assms(4), of SNAP_VIRTIO_CTRL_SUSPENDED bar] by auto
  have ok: "ctrl_ok ?d" "no_queues ?d" using d by (simp_all add: ctrl_inv_def)
  obtain e where "life e = life ?d" "\<forall>i < max_queues ?d. queues e ! i = None \<longleftrightarrow> \<not> vq_enabled ?d i" "snap_virtio_ctrl_start env ?d = (0, e)"
    using start_ok [OF ok(1) assms(3) _ ok(2)] by auto
  then show ?thesis using life_fields(1,5) [of e ?d] d(3) d(1) by (auto simp: vq_enabled_def Let_def ctrl_inv_def lm_ok_def)
qed

lemma blk_size_v2: "snap_virtio_ctrl_state_size_v2 (blk_state_env env n) c = 124 + 60 * max_queues c"
  by (simp add: snap_virtio_ctrl_state_size_v2_def dev_cfg_len_v2_def)

text \<open>Saving and restoring in both formats, on the way to the properties below.\<close>

lemma blk_save_restore_v2:
  assumes src: "ctrl_inv c" "reports (blk_state_env env (max_queues c)) c" "length (q_attrs (bar_curr c)) = max_queues c" "max_queues c \<le> 2 ^ 16"
    and len: "snap_virtio_ctrl_state_size_v2 (blk_state_env env (max_queues c)) c \<le> len"
    and dst: "ctrl_inv c2" "snap_virtio_ctrl_is_stopped c2 \<or> snap_virtio_ctrl_is_suspended c2" "max_queues c2 = max_queues c"
      "length (q_attrs (bar_curr c2)) = max_queues c" "length (ba_hw_index (blk_attr (bar_curr c2))) = max_queues c"
      "\<And>bar. bo_modify env2 blk_set_state_mask bar = 0"
    and d: "d = (if snap_virtio_ctrl_is_suspended c2 then snd (snap_virtio_ctrl_stop env2 c2) else c2)"
  shows "\<exists>m'. snap_virtio_ctrl_state_save_v2 (blk_state_env env (max_queues c)) len c m =
       (int (snap_virtio_ctrl_state_size_v2 (blk_state_env env (max_queues c)) c), c, m') \<and>
     snap_virtio_ctrl_state_restore_v2 (blk_state_env env2 (max_queues c)) len m' c2 =
       (let e = d\<lparr>bar_curr := blk_migrated env c (bar_curr c2)\<rparr>;
            (ret, e) = (if SNAP_VIRTIO_CTRL_LIVE_DETECTED e
                        then snap_virtio_ctrl_start env2 (e\<lparr>ctrl_state := SNAP_VIRTIO_CTRL_SUSPENDED\<rparr>) else (0, e))
        in Some (ret, e\<lparr>bar_prev := snap_virtio_ctrl_bar_copy env2 (bar_curr e) (bar_prev e)\<rparr>))"
proof -
  let ?env = "blk_state_env env (max_queues c)" and ?env2 = "blk_state_env env2 (max_queues c)"
  have dd: "max_queues d = max_queues c" "bar_curr d = bar_curr c2"
    using restore_begin [OF dst(1,2) _ d, of SNAP_VIRTIO_CTRL_SUSPENDED] dst(3) by auto
  obtain bytes where b: "snap_virtio_blk_ctrl_bar_get_state (bar_curr c) 80 (\<lambda>i. m (dev_off ?env c + i)) = (72, bytes)" "length bytes = 72"
    using blk_get_state [of 80 "bar_curr c"] by force
  let ?m = "mem_put 4 (fields_bytes (state_fields ?env c bytes)) (set_field_count (of_nat (length (state_fields ?env c bytes))) m)"
  have "snap_virtio_ctrl_state_save_v2 ?env len c m = (int (snap_virtio_ctrl_state_size_v2 ?env c), c, ?m)"
    by (rule state_save_v2_bytes [where r = 72]) (use src(1,2) len b in \<open>simp_all add: ctrl_inv_def ctrl_ok_def\<close>)
  moreover have "snap_virtio_ctrl_state_restore_v2 ?env2 len ?m c2 =
       (let e = d\<lparr>bar_curr := blk_migrated env c (bar_curr c2)\<rparr>;
            (ret, e) = (if SNAP_VIRTIO_CTRL_LIVE_DETECTED e
                        then snap_virtio_ctrl_start (se_ctrl ?env2) (e\<lparr>ctrl_state := SNAP_VIRTIO_CTRL_SUSPENDED\<rparr>) else (0, e))
        in Some (ret, e\<lparr>bar_prev := snap_virtio_ctrl_bar_copy (se_ctrl ?env2) (bar_curr e) (bar_prev e)\<rparr>))"
    by (rule state_restore_v2_saved [OF refl src(3,4) _ _ len dst(3,2), where f = "snap_virtio_blk_ctrl_bar_set_state env2 (max_queues c)"])
      (use b d dd dst(4,5) blk_set_state [OF dst(5,6) b(1), of env "[]"] in simp_all)
  ultimately show ?thesis unfolding blk_state_env_simps by blast
qed

lemma blk_save_restore_v1:
  assumes src: "ctrl_inv c" "reports (blk_state_env env (max_queues c)) c" "length (q_attrs (bar_curr c)) = max_queues c"
      "ctrl_state c = SNAP_VIRTIO_CTRL_SUSPENDED"
    and len: "snap_virtio_ctrl_state_size_v1 (blk_state_env env (max_queues c)) c < 2 ^ 16" "snap_virtio_ctrl_state_size_v1 (blk_state_env env (max_queues c)) c \<le> len"
    and dst: "ctrl_inv c2" "snap_virtio_ctrl_is_stopped c2 \<or> snap_virtio_ctrl_is_suspended c2" "max_queues c2 = max_queues c"
      "length (q_attrs (bar_curr c2)) = max_queues c" "length (ba_hw_index (blk_attr (bar_curr c2))) = max_queues c"
      "\<And>bar. bo_modify env2 blk_set_state_mask bar = 0"
    and d: "d = (if snap_virtio_ctrl_is_suspended c2 then snd (snap_virtio_ctrl_stop env2 c2) else c2)"
  shows "\<exists>m'. snap_virtio_ctrl_state_save_v1 (blk_state_env env (max_queues c)) len c m =
       (int (snap_virtio_ctrl_state_size_v1 (blk_state_env env (max_queues c)) c), c, m') \<and>
     snap_virtio_ctrl_state_restore_v1 (blk_state_env env2 (max_queues c)) len m' c2 =
       (let (ret, e) = snap_virtio_ctrl_start env2 (d\<lparr>ctrl_state := SNAP_VIRTIO_CTRL_SUSPENDED, bar_curr := blk_migrated env c (bar_curr c2)\<rparr>)
        in (ret, e\<lparr>bar_prev := snap_virtio_ctrl_bar_copy env2 (bar_curr e) (bar_prev e)\<rparr>))"
proof -
  let ?env = "blk_state_env env (max_queues c)" and ?env2 = "blk_state_env env2 (max_queues c)"
  have dd: "max_queues d = max_queues c" "bar_curr d = bar_curr c2"
    using restore_begin [OF dst(1,2) _ d, of SNAP_VIRTIO_CTRL_SUSPENDED] dst(3) by auto
  obtain bytes where b: "snap_virtio_blk_ctrl_bar_get_state (bar_curr c) 90 (\<lambda>i. m (108 + 36 * max_queues c + i)) = (72, bytes)" "length bytes = 72"
    using blk_get_state [of 90 "bar_curr c"] by force
  have lk: "locks_free (pg_ctx c)" using src(1) by (simp add: ctrl_inv_def ctrl_ok_def)
  obtain m' where m': "snap_virtio_ctrl_state_save_v1 ?env len c m = (int (snap_virtio_ctrl_state_size_v1 ?env c), c, m')" "saved_v1 ?env c bytes m'"
    using state_save_v1_saved [OF src(2) lk _ len(1), of bytes m 72 len] b len(2) by auto
  have "snap_virtio_ctrl_state_restore_v1 ?env2 len m' c2 =
     (let e = d\<lparr>ctrl_state := ctrl_state c, bar_curr := blk_migrated env c (bar_curr c2)\<rparr>;
          (ret, e) = (if ctrl_state c = SNAP_VIRTIO_CTRL_SUSPENDED then snap_virtio_ctrl_start (se_ctrl ?env2) e else (0, e))
      in (ret, e\<lparr>bar_prev := snap_virtio_ctrl_bar_copy (se_ctrl ?env2) (bar_curr e) (bar_prev e)\<rparr>))"
    by (rule state_restore_v1_saved [OF m'(2) src(3) _ len(1) _ len(2) dst(3,2), where f = "snap_virtio_blk_ctrl_bar_set_state env2 (max_queues c)"])
      (use b d dd src(4) dst(4,5) blk_set_state [OF dst(5,6) b(1), of env] in simp_all)
  then show ?thesis using m'(1) src(4) by auto
qed

section \<open>Properties\<close>

text \<open>C4. A block controller whose state is saved and restored into a stopped or suspended controller with as many queues arrives completely: the driver-visible registers, every queue configuration, the block configuration and the indices that the queues reported; saving leaves the source unchanged. If the driver was up, the destination is suspended with exactly the enabled queues created, ready for the resume; it is a reachable controller again.\<close>

theorem blk_migration_roundtrip:
  assumes "ctrl_reach c" and "reports (blk_state_env env (max_queues c)) c" and "length (q_attrs (bar_curr c)) = max_queues c" and "max_queues c \<le> 2 ^ 16"
    and "snap_virtio_ctrl_state_size_v2 (blk_state_env env (max_queues c)) c \<le> len"
    and "ctrl_reach c2" and "ctrl_state c2 \<in> {SNAP_VIRTIO_CTRL_STOPPED, SNAP_VIRTIO_CTRL_SUSPENDED}" and "max_queues c2 = max_queues c"
    and "length (q_attrs (bar_curr c2)) = max_queues c" and "length (ba_hw_index (blk_attr (bar_curr c2))) = max_queues c"
    and "starts env2" and "\<And>bar. bo_modify env2 blk_set_state_mask bar = 0"
  shows "\<exists>m' c2'. snap_virtio_ctrl_state_save_v2 (blk_state_env env (max_queues c)) len c m =
       (int (snap_virtio_ctrl_state_size_v2 (blk_state_env env (max_queues c)) c), c, m') \<and>
     snap_virtio_ctrl_state_restore_v2 (blk_state_env env2 (max_queues c)) len m' c2 = Some (0, c2') \<and>
     ctrl_reach c2' \<and> bar_curr c2' = blk_migrated env c (bar_curr c2) \<and>
     (SNAP_VIRTIO_CTRL_LIVE_DETECTED c \<longrightarrow> ctrl_state c2' = SNAP_VIRTIO_CTRL_SUSPENDED \<and>
        (\<forall>i < max_queues c. queues c2' ! i \<noteq> None \<longleftrightarrow> va_enable (q_attrs (bar_curr c) ! i) \<noteq> 0))"
proof -
  define d where "d = (if snap_virtio_ctrl_is_suspended c2 then snd (snap_virtio_ctrl_stop env2 c2) else c2)"
  let ?b = "blk_migrated env c (bar_curr c2)"
  have i: "ctrl_inv c" "ctrl_inv c2" using assms(1,6) ctrl_reach_inv by blast+
  have s2: "snap_virtio_ctrl_is_stopped c2 \<or> snap_virtio_ctrl_is_suspended c2"
    using assms(7) by (auto simp: snap_virtio_ctrl_is_stopped_def snap_virtio_ctrl_is_suspended_def)
  obtain m' where m': "snap_virtio_ctrl_state_save_v2 (blk_state_env env (max_queues c)) len c m =
       (int (snap_virtio_ctrl_state_size_v2 (blk_state_env env (max_queues c)) c), c, m')"
     "snap_virtio_ctrl_state_restore_v2 (blk_state_env env2 (max_queues c)) len m' c2 =
       (let e = d\<lparr>bar_curr := ?b\<rparr>;
            (ret, e) = (if SNAP_VIRTIO_CTRL_LIVE_DETECTED e
                        then snap_virtio_ctrl_start env2 (e\<lparr>ctrl_state := SNAP_VIRTIO_CTRL_SUSPENDED\<rparr>) else (0, e))
        in Some (ret, e\<lparr>bar_prev := snap_virtio_ctrl_bar_copy env2 (bar_curr e) (bar_prev e)\<rparr>))"
    using blk_save_restore_v2 [OF i(1) assms(2-5) i(2) s2 assms(8-10,12) d_def] by blast
  have st: "status ?b = status (bar_curr c)" "q_attrs ?b = q_attrs (bar_curr c)" by (simp_all add: blk_migrated_def migrated_def)
  have lv: "SNAP_VIRTIO_CTRL_LIVE_DETECTED (d\<lparr>bar_curr := ?b\<rparr>) = SNAP_VIRTIO_CTRL_LIVE_DETECTED c"
    by (simp add: SNAP_VIRTIO_CTRL_LIVE_DETECTED_def st)
  have o: "d\<lparr>bar_curr := ?b, ctrl_state := SNAP_VIRTIO_CTRL_SUSPENDED\<rparr> = d\<lparr>ctrl_state := SNAP_VIRTIO_CTRL_SUSPENDED, bar_curr := ?b\<rparr>" by simp
  obtain e where e: "snap_virtio_ctrl_start env2 (d\<lparr>bar_curr := ?b, ctrl_state := SNAP_VIRTIO_CTRL_SUSPENDED\<rparr>) = (0, e)"
    "ctrl_state e = SNAP_VIRTIO_CTRL_SUSPENDED" "bar_curr e = ?b" "\<forall>i < max_queues c2. queues e ! i \<noteq> None \<longleftrightarrow> va_enable (q_attrs ?b ! i) \<noteq> 0"
    using restored_ctrl [OF i(2) s2 assms(11) d_def, of ?b] unfolding o by blast
  have "\<exists>c2'. snap_virtio_ctrl_state_restore_v2 (blk_state_env env2 (max_queues c)) len m' c2 = Some (0, c2') \<and> bar_curr c2' = ?b \<and>
     (SNAP_VIRTIO_CTRL_LIVE_DETECTED c \<longrightarrow> ctrl_state c2' = SNAP_VIRTIO_CTRL_SUSPENDED \<and>
        (\<forall>i < max_queues c. queues c2' ! i \<noteq> None \<longleftrightarrow> va_enable (q_attrs (bar_curr c) ! i) \<noteq> 0))"
    unfolding m'(2) using e assms(8) st lv by (cases "SNAP_VIRTIO_CTRL_LIVE_DETECTED c") (auto simp: Let_def)
  then show ?thesis using m'(1) reach_restore [OF assms(6)] assms(11) by (metis blk_state_env_simps(1))
qed

text \<open>C15. Saving a suspended block controller whose driver is up in the old format and restoring it gives the same result, return value and controller, as the current format does.\<close>

theorem blk_formats_agree:
  assumes "ctrl_reach c" and "ctrl_state c = SNAP_VIRTIO_CTRL_SUSPENDED" and "SNAP_VIRTIO_CTRL_LIVE_DETECTED c"
    and "reports (blk_state_env env (max_queues c)) c" and "length (q_attrs (bar_curr c)) = max_queues c"
    and "snap_virtio_ctrl_state_size_v1 (blk_state_env env (max_queues c)) c < 2 ^ 16"
    and "snap_virtio_ctrl_state_size_v1 (blk_state_env env (max_queues c)) c \<le> len1"
    and "snap_virtio_ctrl_state_size_v2 (blk_state_env env (max_queues c)) c \<le> len2"
    and "ctrl_reach c2" and "ctrl_state c2 \<in> {SNAP_VIRTIO_CTRL_STOPPED, SNAP_VIRTIO_CTRL_SUSPENDED}" and "max_queues c2 = max_queues c"
    and "length (q_attrs (bar_curr c2)) = max_queues c" and "length (ba_hw_index (blk_attr (bar_curr c2))) = max_queues c"
    and "\<And>bar. bo_modify env2 blk_set_state_mask bar = 0"
  shows "\<exists>m1' m2'. snap_virtio_ctrl_state_save_v1 (blk_state_env env (max_queues c)) len1 c m1 =
       (int (snap_virtio_ctrl_state_size_v1 (blk_state_env env (max_queues c)) c), c, m1') \<and>
     snap_virtio_ctrl_state_save_v2 (blk_state_env env (max_queues c)) len2 c m2 =
       (int (snap_virtio_ctrl_state_size_v2 (blk_state_env env (max_queues c)) c), c, m2') \<and>
     Some (snap_virtio_ctrl_state_restore_v1 (blk_state_env env2 (max_queues c)) len1 m1' c2) =
       snap_virtio_ctrl_state_restore_v2 (blk_state_env env2 (max_queues c)) len2 m2' c2"
proof -
  define d where "d = (if snap_virtio_ctrl_is_suspended c2 then snd (snap_virtio_ctrl_stop env2 c2) else c2)"
  let ?b = "blk_migrated env c (bar_curr c2)"
  have i: "ctrl_inv c" "ctrl_inv c2" using assms(1,9) ctrl_reach_inv by blast+
  have s2: "snap_virtio_ctrl_is_stopped c2 \<or> snap_virtio_ctrl_is_suspended c2"
    using assms(10) by (auto simp: snap_virtio_ctrl_is_stopped_def snap_virtio_ctrl_is_suspended_def)
  have n: "max_queues c \<le> 2 ^ 16" using assms(6) by (simp add: size_v1)
  have lv: "SNAP_VIRTIO_CTRL_LIVE_DETECTED (d\<lparr>bar_curr := ?b\<rparr>)"
    using assms(3) by (simp add: SNAP_VIRTIO_CTRL_LIVE_DETECTED_def blk_migrated_def migrated_def)
  have o: "d\<lparr>bar_curr := ?b, ctrl_state := SNAP_VIRTIO_CTRL_SUSPENDED\<rparr> = d\<lparr>ctrl_state := SNAP_VIRTIO_CTRL_SUSPENDED, bar_curr := ?b\<rparr>" by simp
  obtain m1' where m1': "snap_virtio_ctrl_state_save_v1 (blk_state_env env (max_queues c)) len1 c m1 =
       (int (snap_virtio_ctrl_state_size_v1 (blk_state_env env (max_queues c)) c), c, m1')"
     "snap_virtio_ctrl_state_restore_v1 (blk_state_env env2 (max_queues c)) len1 m1' c2 =
       (let (ret, e) = snap_virtio_ctrl_start env2 (d\<lparr>ctrl_state := SNAP_VIRTIO_CTRL_SUSPENDED, bar_curr := ?b\<rparr>)
        in (ret, e\<lparr>bar_prev := snap_virtio_ctrl_bar_copy env2 (bar_curr e) (bar_prev e)\<rparr>))"
    using blk_save_restore_v1 [OF i(1) assms(4,5,2,6,7) i(2) s2 assms(11-14) d_def] by blast
  obtain m2' where m2': "snap_virtio_ctrl_state_save_v2 (blk_state_env env (max_queues c)) len2 c m2 =
       (int (snap_virtio_ctrl_state_size_v2 (blk_state_env env (max_queues c)) c), c, m2')"
     "snap_virtio_ctrl_state_restore_v2 (blk_state_env env2 (max_queues c)) len2 m2' c2 =
       (let e = d\<lparr>bar_curr := ?b\<rparr>;
            (ret, e) = (if SNAP_VIRTIO_CTRL_LIVE_DETECTED e
                        then snap_virtio_ctrl_start env2 (e\<lparr>ctrl_state := SNAP_VIRTIO_CTRL_SUSPENDED\<rparr>) else (0, e))
        in Some (ret, e\<lparr>bar_prev := snap_virtio_ctrl_bar_copy env2 (bar_curr e) (bar_prev e)\<rparr>))"
    using blk_save_restore_v2 [OF i(1) assms(4,5) n assms(8) i(2) s2 assms(11-14) d_def] by blast
  have "Some (snap_virtio_ctrl_state_restore_v1 (blk_state_env env2 (max_queues c)) len1 m1' c2) =
      snap_virtio_ctrl_state_restore_v2 (blk_state_env env2 (max_queues c)) len2 m2' c2"
    unfolding m1'(2) m2'(2) Let_def if_P [OF lv] o by (simp split: prod.split)
  with m1'(1) m2'(1) show ?thesis by blast
qed

text \<open>C16. Saving the state of a block controller writes nothing behind the announced size of the state, whatever the queues report and whether or not it succeeds, and nothing at all into a buffer that is too small.\<close>

theorem blk_save_bounds:
  assumes "ctrl_reach c" and "snap_virtio_ctrl_state_size_v2 (blk_state_env env n) c \<le> x \<or> len < snap_virtio_ctrl_state_size_v2 (blk_state_env env n) c"
  shows "snd (snd (snap_virtio_ctrl_state_save_v2 (blk_state_env env n) len c m)) x = m x"
proof (cases "len < snap_virtio_ctrl_state_size_v2 (blk_state_env env n) c")
  case True
  then show ?thesis by (simp add: snap_virtio_ctrl_state_save_v2_def)
next
  case False
  have "locks_free (pg_ctx c)" using ctrl_reach_inv [OF assms(1)] by (simp add: ctrl_inv_def ctrl_ok_def)
  moreover have "\<exists>r bytes. se_get_state (blk_state_env env n) (bar_curr c) (8 + 72) old = (r, bytes) \<and> 0 \<le> r \<and> length bytes = 72" for old
    using blk_get_state [of 80 "bar_curr c" old] by force
  ultimately show ?thesis using False assms(2) by (intro state_save_v2_bounds [where n = 72]) simp_all
qed

section \<open>Concrete controllers\<close>

text \<open>The suspended controller with two queues migrates into the stopped one; its queues report the indices 5 and 3.\<close>

definition blk_env0 :: "bool ctrl_env" where
  "blk_env0 = live_env\<lparr>q_ops := queue_ops0\<lparr>qo_get_state := Some (\<lambda>_. (0, 5, 3))\<rparr>\<rparr>"

lemma blk_env0_simps: "starts blk_env0" "bo_modify blk_env0 k bar = 0" "qo_get_state (q_ops blk_env0) = Some (\<lambda>_. (0, 5, 3))"
  by (simp_all add: blk_env0_def env_bar_def queue_ops0_def starts_def)

lemma ctrl3_heap: "i < 2 \<Longrightarrow> \<exists>q. heap ctrl3 i = Some q"
  using ctrl3_eval(6,7) by (auto simp: less_2_cases_iff)

lemma blk_env0_reports: "reports (blk_state_env blk_env0 2) ctrl3"
  using ctrl3_heap by (auto simp: reports_def blk_env0_simps ctrl3_eval less_2_cases_iff)

lemma attr0_simps: "length (q_attrs attr0) = 2" "length (ba_hw_index (blk_attr attr0)) = 2" "va_enable (q_attrs attr0 ! Suc 0) = 1" "va_enable (q_attrs attr0 ! 0) = 1"
  by (simp_all add: attr0_def numeral_2_eq_2)

lemma ctrl0_simps: "ctrl_state ctrl0 = SNAP_VIRTIO_CTRL_STOPPED" "max_queues ctrl0 = 2" "bar_curr ctrl0 = attr0"
  by (simp_all add: ctrl0_def)

lemma ctrl3_hw: "ba_hw_index (blk_attr (blk_migrated blk_env0 ctrl3 bar)) = [(5, 3), (5, 3)]"
proof -
  obtain q0 q1 where q: "heap ctrl3 0 = Some q0" "heap ctrl3 (Suc 0) = Some q1" using ctrl3_heap [of 0] ctrl3_heap [of 1] by auto
  have "[0..<2] = [0, Suc 0]" by (simp add: numeral_2_eq_2)
  with q show ?thesis
    by (simp add: blk_migrated_def ctrl3_eval queue_state_of_def run_idx_def blk_env0_simps attr0_simps Let_def)
qed

theorem blk_migration_roundtrip_witness:
  "\<exists>m' c2'. snap_virtio_ctrl_state_save_v2 (blk_state_env blk_env0 2) 300 ctrl3 (\<lambda>_. 0) = (244, ctrl3, m') \<and>
     snap_virtio_ctrl_state_restore_v2 (blk_state_env blk_env0 2) 300 m' ctrl0 = Some (0, c2') \<and>
     ctrl_state c2' = SNAP_VIRTIO_CTRL_SUSPENDED \<and> ba_hw_index (blk_attr (bar_curr c2')) = [(5, 3), (5, 3)] \<and> queues c2' ! 1 \<noteq> None"
proof -
  have "\<exists>m' c2'. snap_virtio_ctrl_state_save_v2 (blk_state_env blk_env0 (max_queues ctrl3)) 300 ctrl3 (\<lambda>_. 0) =
       (int (snap_virtio_ctrl_state_size_v2 (blk_state_env blk_env0 (max_queues ctrl3)) ctrl3), ctrl3, m') \<and>
     snap_virtio_ctrl_state_restore_v2 (blk_state_env blk_env0 (max_queues ctrl3)) 300 m' ctrl0 = Some (0, c2') \<and>
     ctrl_reach c2' \<and> bar_curr c2' = blk_migrated blk_env0 ctrl3 (bar_curr ctrl0) \<and>
     (SNAP_VIRTIO_CTRL_LIVE_DETECTED ctrl3 \<longrightarrow> ctrl_state c2' = SNAP_VIRTIO_CTRL_SUSPENDED \<and>
        (\<forall>i < max_queues ctrl3. queues c2' ! i \<noteq> None \<longleftrightarrow> va_enable (q_attrs (bar_curr ctrl3) ! i) \<noteq> 0))"
    by (rule blk_migration_roundtrip [OF ctrl3_reach _ _ _ _ ctrl0_reach])
      (simp_all add: ctrl3_eval ctrl0_simps attr0_simps blk_env0_simps blk_env0_reports blk_size_v2)
  moreover have "SNAP_VIRTIO_CTRL_LIVE_DETECTED ctrl3" by (simp add: SNAP_VIRTIO_CTRL_LIVE_DETECTED_def ctrl3_eval)
  ultimately show ?thesis by (auto simp: ctrl3_eval blk_size_v2 ctrl3_hw attr0_simps)
qed

theorem blk_formats_agree_witness:
  "\<exists>m1 m2. fst (snap_virtio_ctrl_state_save_v1 (blk_state_env blk_env0 2) 300 ctrl3 (\<lambda>_. 0)) = 252 \<and>
     Some (snap_virtio_ctrl_state_restore_v1 (blk_state_env blk_env0 2) 300 m1 ctrl0) =
       snap_virtio_ctrl_state_restore_v2 (blk_state_env blk_env0 2) 300 m2 ctrl0"
proof -
  have s1: "snap_virtio_ctrl_state_size_v1 (blk_state_env blk_env0 2) ctrl3 = 252" by (simp add: size_v1 ctrl3_eval)
  have "\<exists>m1' m2'. snap_virtio_ctrl_state_save_v1 (blk_state_env blk_env0 (max_queues ctrl3)) 300 ctrl3 (\<lambda>_. 0) =
       (int (snap_virtio_ctrl_state_size_v1 (blk_state_env blk_env0 (max_queues ctrl3)) ctrl3), ctrl3, m1') \<and>
     snap_virtio_ctrl_state_save_v2 (blk_state_env blk_env0 (max_queues ctrl3)) 300 ctrl3 (\<lambda>_. 0) =
       (int (snap_virtio_ctrl_state_size_v2 (blk_state_env blk_env0 (max_queues ctrl3)) ctrl3), ctrl3, m2') \<and>
     Some (snap_virtio_ctrl_state_restore_v1 (blk_state_env blk_env0 (max_queues ctrl3)) 300 m1' ctrl0) =
       snap_virtio_ctrl_state_restore_v2 (blk_state_env blk_env0 (max_queues ctrl3)) 300 m2' ctrl0"
    by (rule blk_formats_agree [OF ctrl3_reach ctrl3_eval(1) _ _ _ _ _ _ ctrl0_reach])
      (simp_all add: SNAP_VIRTIO_CTRL_LIVE_DETECTED_def ctrl3_eval ctrl0_simps attr0_simps blk_env0_simps blk_env0_reports blk_size_v2 s1)
  then show ?thesis using s1 by (auto simp: ctrl3_eval)
qed

theorem blk_save_bounds_witness: "snd (snd (snap_virtio_ctrl_state_save_v2 (blk_state_env blk_env0 2) 300 ctrl3 (\<lambda>_. 7))) 244 = 7"
  using blk_save_bounds [OF ctrl3_reach, of blk_env0 2 244 300 "\<lambda>_. 7"] by (simp add: blk_size_v2 ctrl3_eval)

end
