(* ===== verification/Spec2Isabelle.thy ===== *)
theory Spec2Isabelle
  imports Dp_Map Dma_Sgl Dma_Ring Virtq_Queue Blk_State
begin

text \<open>
  A verification development for the SNAP library, which emulates virtio devices on a data-processing unit:
  a driver on the host sees a virtio device; the library answers its requests in software.

  \<^bold>\<open>The parts and how they interact.\<close> A \<^emph>\<open>controller\<close> (\<^verbatim>\<open>ctrl/snap_virtio_common_ctrl.c\<close>) follows the device
  registers the driver writes. When the driver is ready it creates the virtqueues and hands each to one of the
  \<^emph>\<open>polling groups\<close> (\<^verbatim>\<open>ctrl/snap_poll_groups.c\<close>), whose threads progress the queues. A block queue
  (\<^verbatim>\<open>ctrl/virtq_common.c\<close>, \<^verbatim>\<open>ctrl/snap_virtio_blk_virtq.c\<close>) receives a message for each request, runs the command
  through a state machine (fetch descriptors, read header and data, call the block device, write data and
  status, send the completion) and moves all bytes to and from host memory through a \<^emph>\<open>DMA queue\<close>
  (\<^verbatim>\<open>src/snap_dma.c\<close>, \<^verbatim>\<open>src/snap_dma_dv.c\<close>, \<^verbatim>\<open>src/snap_dma_internal.h\<close>), which posts work requests into a ring of
  the network adapter and polls its completion rings. For live migration the controller is suspended and
  quiesced, its state is written to bytes and restored elsewhere, and the pages written by the
  queues are recorded in \<^emph>\<open>dirty-page maps\<close> (\<^verbatim>\<open>ctrl/snap_dp_map.c\<close>).

  \<^bold>\<open>Theories.\<close>

  \<^item> \<open>Snap_Prelude\<close>: machine integers, \<^verbatim>\<open>errno\<close> values, the alignment macros of \<^verbatim>\<open>src/snap_macros.h\<close>, shared
    lemmas. \<open>Byte_Memory\<close>: buffers as functions from offsets to bytes, little-endian integers, and the
    contract \<open>packed\<close> of a structure that is written to bytes and read back.
  \<^item> \<open>Dp_Map\<close>: \<^verbatim>\<open>snap_dp_map\<close> (record with the set of dirty pages) and \<^verbatim>\<open>snap_dp_bmap\<close> (bit or byte map in host
    memory). Marking is exact, draining returns and removes what it says, the address of a page's bit is
    right; a range in the last page of the address space is never added.
  \<^item> \<open>Dma_Sgl\<close>: \<^verbatim>\<open>snap_dma_build_sgl\<close>, both nested loops with their variables as records. Splitting loses,
    repeats and reorders no byte, and succeeds for every vector within the stated size.
  \<^item> \<open>Dma_Dv\<close>: the data path of \<^verbatim>\<open>src/snap_dma_dv.c\<close> and \<^verbatim>\<open>src/snap_dma.c\<close>: record \<open>snap_dma_q\<close> with send ring,
    completion rings and doorbells, one definition per interface function. \<open>Dma_Cq\<close>: completion rings as an
    instance of the contract \<open>completion_fifo\<close>. \<open>Dma_Credits\<close>: which requests each call posts and what they
    cost. \<open>Dma_Sys\<close>: the queue together with the device as the relation \<open>dma_reach\<close>; credits are conserved,
    completion slots are not shared, a queue cannot starve. \<open>Dma_Ring\<close>: bytes of inline messages in the
    ring, doorbells, reception in order.
  \<^item> \<open>Virtq_Desc\<close>: descriptor chains, merging and separation of header and footer. \<open>Virtq_Cmd\<close>: the command
    (record \<open>virtq_cmd\<close>), the queue (record \<open>virtq_priv\<close>) and every handler of the block command table.
    \<open>Virtq_Handlers\<close>: what each handler leaves unchanged, in which wait the loop \<^verbatim>\<open>virtq_cmd_progress\<close> leaves the
    command, and that the loop ends. \<open>Virtq_Queue\<close>: callbacks, arrival of commands, suspend, one round of
    polling, and the relation \<open>virtq_reach\<close>; the counters are exact, a suspended queue is quiescent,
    completions are in order when that is asked for.
  \<^item> \<open>Poll_Groups\<close>: polling groups with their locks and usage counters. \<open>Virtio_Ctrl\<close>: the controller
    (record \<open>snap_virtio_ctrl\<close> with the queue objects on a heap, so that a dangling address or a double
    release shows as the flag \<open>fault\<close>). \<open>Virtio_Ctrl_Inv\<close>: its invariant, operation by operation.
    \<open>Virtio_Ctrl_Sys\<close>: the relation \<open>ctrl_reach\<close>; pointers stay valid, progress returns, starting creates
    the enabled queues or none, a suspending controller waits for its queues, migration states are consistent.
  \<^item> \<open>Virtio_State\<close>, \<open>Virtio_State_Fields\<close>, \<open>Virtio_State_Sections\<close>: both formats of the saved state, byte
    for byte. \<open>Blk_State\<close>: saving and restoring of a block controller is a round trip in both formats, the
    formats agree, and saving keeps within the announced size.

  \<^bold>\<open>Outside code.\<close> The setters of rdma-core for work-request segments, the register operations of a device
  type, the queue implementation under the controller, the application callbacks, the block device
  and the allocators are fields of environment records (\<open>mlx5_api\<close>, \<open>ctrl_env\<close>, \<open>state_env\<close>, \<open>blk_env\<close>). The order in
  which the vendored hash set is scanned and whether it finds memory are arguments.

  \<^bold>\<open>Assumptions of the reachable states.\<close> \<open>dma_reach\<close>: a queue as the library creates it
  (\<open>sw_tx_qsize\<close>: 24 blocks when 1 to 16 are asked for), with rings at least as long whose lengths are powers of two; the device completes signalled
  requests in order; the inline data of a call is below 32 kilobytes. \<open>virtq_reach\<close>: a callback comes only
  for a command that waits for it, a message only for a free slot, and the block device calls back after
  its request function has returned. \<open>ctrl_reach\<close>: a modern device; queues can be created and the start
  callback succeeds when a call starts the controller; the driver does not become live again on a suspended
  controller with queues; the public start, stop and resume are called as their comments ask. What goes wrong
  beyond the last group is shown by examples at the end of \<open>Virtio_Ctrl_Sys\<close>.

  \<^bold>\<open>Loops and bounds.\<close> Loops are structural recursion or have a termination proof, with these exceptions.
  Loops that may run forever are \<^theory_text>\<open>partial_function (option)\<close>: the insertion of page ranges, the chain of the DPA
  descriptor table, the flush that waits for the device, the wait of a quiesce call for its controller, and the nested progress call of a transitional
  device; theorems say when they return. The polling loop of the transmit queue has the fuel
  \<open>tx_poll_fuel\<close>, the length of the ring plus the number of completions a call takes, which \<open>Dma_Sys\<close> shows to be enough. Indices that
  wrap in C are words; the loop index of the sorted drain, an \<^verbatim>\<open>int\<close> in C, is an unbounded natural number.

  \<^bold>\<open>Not modelled.\<close> Real concurrency: threads interleave at whole calls, and a lock is a flag whose misuse is
  recorded. A block device that completes a request before its request function returns. Reads behind the
  end of a truncated buffer while a state is restored (the buffer is total). Creation and destruction of queues and
  devices, which are calls into rdma-core and firmware; the DMA worker and the crypto transfers; the
  verbs mode; the admin virtqueue; the network, file-system and NVMe emulations; the programs for the
  data-path accelerator; the migration channel; logging and statistics output.
\<close>

end
